(* ===== verification/Prelude.thy ===== *)
theory Prelude
  imports Main "HOL-Library.Word"
begin

text \<open>
  Shared vocabulary of the development: the C integer types as words, pointers that may be
  \<open>NULL\<close>, byte-buffer copies, the ways a C function can fail to return a defined result, and
  the little-endian and big-endian codings of 32-bit words that three components use.
\<close>

unbundle bit_operations_syntax

named_theorems run_simps \<open>equations of the \<open>run\<close> type (faults and results)\<close>
named_theorems buf_simps \<open>lengths and reads of copied buffers\<close>

section \<open>C types\<close>

type_synonym u8 = "8 word"
type_synonym u16 = "16 word"
type_synonym u32 = "32 word"
type_synonym u64 = "64 word"

text \<open>A pointer parameter that the code compares with \<open>NULL\<close>.\<close>

type_synonym 'a ptr = "'a option"

abbreviation NULL :: "'a ptr" where
  "NULL \<equiv> None"

text \<open>The bytes of a C string literal, without its terminator.\<close>

definition bytes_of :: "string \<Rightarrow> u8 list" where
  "bytes_of s = map of_char s"

lemma length_bytes_of [simp]: "length (bytes_of s) = length s"
  by (simp add: bytes_of_def)

section \<open>Results of code that may not return a defined value\<close>

text \<open>
  \<open>Hang\<close>: the loop never exits. \<open>Shift_UB\<close>: a 32-bit value is shifted by 32 or more, which C
  leaves undefined.
\<close>

datatype fault = Hang | Shift_UB

type_synonym 'a run = "fault + 'a"

definition run_bind :: "'a run \<Rightarrow> ('a \<Rightarrow> 'b run) \<Rightarrow> 'b run" where
  "run_bind m f = (case m of Inl e \<Rightarrow> Inl e | Inr a \<Rightarrow> f a)"

lemma run_bind_Inl [run_simps, simp]: "run_bind (Inl e) f = Inl e"
  by (simp add: run_bind_def)

lemma run_bind_Inr [run_simps, simp]: "run_bind (Inr a) f = f a"
  by (simp add: run_bind_def)

lemma run_bind_eq_Inr:
  "run_bind m f = Inr b \<longleftrightarrow> (\<exists>a. m = Inr a \<and> f a = Inr b)"
  by (cases m) auto

section \<open>Copying into a buffer\<close>

text \<open>
  \<open>memcpy_at dst off src\<close> is \<open>memcpy(dst + off, src, length src)\<close> for a copy inside \<open>dst\<close>.
\<close>

definition memcpy_at :: "'a list \<Rightarrow> nat \<Rightarrow> 'a list \<Rightarrow> 'a list" where
  "memcpy_at dst off src = take off dst @ src @ drop (off + length src) dst"

lemma length_memcpy_at [simp, buf_simps]:
  "off + length src \<le> length dst \<Longrightarrow> length (memcpy_at dst off src) = length dst"
  by (simp add: memcpy_at_def)

lemma take_memcpy_at_same [buf_simps]:
  "off \<le> length dst \<Longrightarrow> take off (memcpy_at dst off src) = take off dst"
  by (simp add: memcpy_at_def)

lemma take_memcpy_at_0 [simp, buf_simps]:
  "n = length src \<Longrightarrow> take n (memcpy_at dst 0 src) = src"
  by (simp add: memcpy_at_def)

lemma drop_memcpy_at_0 [simp, buf_simps]:
  "n = length src \<Longrightarrow> drop n (memcpy_at dst 0 src) = drop n dst"
  by (simp add: memcpy_at_def)

lemma nth_memcpy_at:
  assumes "off + length src \<le> length dst" and "i < length dst"
  shows "memcpy_at dst off src ! i =
    (if off \<le> i \<and> i < off + length src then src ! (i - off) else dst ! i)"
  using assms by (auto simp: memcpy_at_def nth_append min_def)

text \<open>The bytes a slice \<open>buf + off\<close> of length \<open>n\<close> denotes.\<close>

definition bytes_at :: "'a list \<Rightarrow> nat \<Rightarrow> nat \<Rightarrow> 'a list" where
  "bytes_at buf off n = take n (drop off buf)"

lemma length_bytes_at [simp]: "off + n \<le> length buf \<Longrightarrow> length (bytes_at buf off n) = n"
  by (simp add: bytes_at_def)

lemma bytes_at_memcpy_at [simp, buf_simps]:
  "off \<le> length dst \<Longrightarrow> n = length src \<Longrightarrow> bytes_at (memcpy_at dst off src) off n = src"
  by (simp add: bytes_at_def memcpy_at_def)

section \<open>32-bit words as bytes\<close>

text \<open>
  \<open>le32\<close> and \<open>be32\<close> assemble a word from four bytes with the shifts and ORs of the source;
  \<open>byte_n\<close> is \<open>(w >> 8n) & 0xFF\<close>.
\<close>

definition le32 :: "u8 \<Rightarrow> u8 \<Rightarrow> u8 \<Rightarrow> u8 \<Rightarrow> u32" where
  "le32 a b c d = (ucast a :: u32) OR push_bit 8 ((ucast b :: u32)) OR
     push_bit 16 ((ucast c :: u32)) OR push_bit 24 ((ucast d :: u32))"

definition byte_n :: "u32 \<Rightarrow> nat \<Rightarrow> u8" where
  "byte_n w n = ucast (drop_bit (8 * n) w AND 0xFF)"

definition le_bytes :: "u32 \<Rightarrow> u8 list" where
  "le_bytes w = [byte_n w 0, byte_n w 1, byte_n w 2, byte_n w 3]"

definition be32 :: "u8 \<Rightarrow> u8 \<Rightarrow> u8 \<Rightarrow> u8 \<Rightarrow> u32" where
  "be32 a b c d = push_bit 24 ((ucast a :: u32)) OR push_bit 16 ((ucast b :: u32)) OR
     push_bit 8 ((ucast c :: u32)) OR (ucast d :: u32)"

lemma length_le_bytes [simp]: "length (le_bytes w) = 4"
  by (simp add: le_bytes_def)

lemma bit_byte_n: "bit (byte_n w n) i \<longleftrightarrow> i < 8 \<and> bit w (8 * n + i)"
proof -
  have m: "(0xFF :: int) = mask 8"
    by (simp add: mask_eq_exp_minus_1)
  have ff: "bit (0xFF :: int) j \<longleftrightarrow> j < 8" for j
    unfolding m by (simp add: bit_mask_iff)
  show ?thesis
    by (auto simp: byte_n_def bit_unsigned_iff bit_and_iff bit_drop_bit_eq ff)
qed

lemma bit_le32:
  "bit (le32 a b c d) i \<longleftrightarrow>
    (if i < 8 then bit a i else if i < 16 then bit b (i - 8)
     else if i < 24 then bit c (i - 16) else i < 32 \<and> bit d (i - 24))"
  using bit_imp_le_length [of a i] bit_imp_le_length [of b "i - 8"]
    bit_imp_le_length [of c "i - 16"] bit_imp_le_length [of d "i - 24"]
  by (auto simp: le32_def bit_or_iff bit_push_bit_iff bit_unsigned_iff)

lemma be32_le32: "be32 a b c d = le32 d c b a"
  by (simp add: be32_def le32_def ac_simps)

lemma byte_n_le32:
  "byte_n (le32 a b c d) 0 = a" "byte_n (le32 a b c d) (Suc 0) = b"
  "byte_n (le32 a b c d) 2 = c" "byte_n (le32 a b c d) 3 = d"
  by (rule bit_word_eqI; simp add: bit_byte_n bit_le32)+

lemma le32_byte_n: "le32 (byte_n w 0) (byte_n w 1) (byte_n w 2) (byte_n w 3) = w"
proof (rule bit_word_eqI)
  fix i assume "i < LENGTH(32)"
  then consider "i < 8" | "8 \<le> i" "i < 16" | "16 \<le> i" "i < 24" | "24 \<le> i" "i < 32"
    by fastforce
  then show "bit (le32 (byte_n w 0) (byte_n w 1) (byte_n w 2) (byte_n w 3)) i \<longleftrightarrow> bit w i"
    by cases (auto simp: bit_le32 bit_byte_n)
qed

lemma le_bytes_le32 [simp]: "le_bytes (le32 a b c d) = [a, b, c, d]"
  by (simp add: le_bytes_def byte_n_le32)

lemma le_bytes_inject:
  assumes "le_bytes v = le_bytes w"
  shows "v = w"
proof -
  have "le32 (byte_n v 0) (byte_n v 1) (byte_n v 2) (byte_n v 3) =
      le32 (byte_n w 0) (byte_n w 1) (byte_n w 2) (byte_n w 3)"
    using assms by (simp add: le_bytes_def)
  then show ?thesis
    by (simp only: le32_byte_n)
qed

end
