(* ===== verification/Hal.thy ===== *)
theory Hal
  imports Prelude
begin

text \<open>
  The boundary with the STM32CubeWL HAL, which is a git submodule and not part of the repository.
  A firmware function talks to the hardware by HAL calls; the model records each call, with its
  arguments, in a history (\<open>hw\<close>), and everything the hardware answers is a function of the
  history and the call, given by the environment record \<open>hal_env\<close>. No law is assumed of the
  environment here: a theorem that needs one states it.

  The three compile-time options of \<open>CMakeLists.txt\<close> that select code are fields of the
  environment too, so both branches of every \<open>#if\<close> are modelled.
\<close>

datatype hal_status = HAL_OK | HAL_ERROR | HAL_BUSY | HAL_TIMEOUT

text \<open>The SX126x commands the driver sends, by the HAL's names.\<close>

datatype radio_cmd =
    RADIO_SET_STANDBY | RADIO_SET_REGULATORMODE | RADIO_CLR_ERROR | RADIO_SET_TCXOMODE
  | RADIO_GET_ERROR | RADIO_CALIBRATE | RADIO_CALIBRATEIMAGE | RADIO_SET_TXFALLBACKMODE
  | RADIO_SET_PACKETTYPE | RADIO_SET_RFFREQUENCY | RADIO_SET_MODULATIONPARAMS
  | RADIO_SET_PACKETPARAMS | RADIO_SET_BUFFERBASEADDRESS | RADIO_SET_RFSWITCHMODE
  | RADIO_SET_PACONFIG | RADIO_SET_TXPARAMS | RADIO_CFG_DIOIRQ | RADIO_CLR_IRQSTATUS
  | RADIO_SET_RX | RADIO_SET_TX | RADIO_GET_IRQSTATUS | RADIO_GET_RXBUFFERSTATUS
  | RADIO_GET_PACKETSTATUS

text \<open>The GPIO pins of the board: the two RF switch controls and the status LED.\<close>

datatype pin = PA4 | PA5 | PB5

datatype irqn = SUBGHZ_Radio_IRQn | USART1_IRQn

text \<open>Register-level set-up calls that return nothing and that nothing later reads back.\<close>

datatype setup_call =
    SubghzSpiClkEnable | SubghzSpiClkDisable | DataSyncBarrier | SubghzSpiConfig | SubghzNssUnselect
  | ExtiRisingTrig44 | ExtiEnableIT44 | RadioBusyTriggerWuIt | ClearFlagRfBusy
  | GpioAClkEnable | GpioBClkEnable | Usart1ClkConfig | Usart1ClkEnable | GpioInitUsartPins
  | UartEnableItRxne | AesClkEnable
  | FlashSetLatency2 | PwrSetVosScale1 | MsiEnable | MsiEnableRangeSelection | MsiSetRange11
  | MsiSetCalibTrimming0 | SetSysClkSourceMsi | SetAhbPrescaler1 | SetAhb3Prescaler1
  | SetApb1Prescaler1 | SetApb2Prescaler1 | SystemCoreClockUpdate | HalInit

text \<open>Status bits that are polled.\<close>

datatype flag_poll = RfBusys | FlashLatencyIs2 | VosBusy | MsiReady | SysClkIsMsi

text \<open>The initialisation fields of the CRYP handle.\<close>

datatype cryp_const =
    CRYP_DATATYPE_32B | CRYP_KEYSIZE_128B | CRYP_AES_ECB | CRYP_DATAWIDTHUNIT_WORD
  | CRYP_HEADERWIDTHUNIT_WORD | CRYP_KEYIVCONFIG_ALWAYS

record cryp_init =
  DataType :: cryp_const
  KeySize :: cryp_const
  pKey :: "u32 list"
  pInitVect :: "u32 list ptr"
  Algorithm :: cryp_const
  DataWidthUnit :: cryp_const
  HeaderWidthUnit :: cryp_const
  KeyIVConfigSkip :: cryp_const
  Header :: "u32 list ptr"
  HeaderSize :: nat
  B0 :: "u32 list ptr"

datatype hal_call =
    ExecSetCmd radio_cmd "u8 list"
  | ExecGetCmd radio_cmd nat
  | WriteRegisters u16 "u8 list"
  | ReadRegister u16
  | WriteBuffer u8 "u8 list"
  | ReadBuffer u8 nat
  | PollFlag flag_poll
  | RfReset bool
  | Delay nat
  | GetTick
  | GpioInit pin
  | WritePin pin bool
  | TogglePin pin
  | NvicSetPriority irqn nat
  | NvicEnable irqn
  | NvicDisable irqn
  | NvicClearPending irqn
  | Setup setup_call
  | UartInit nat
  | UartTransmit "u8 list" nat
  | CrypInit cryp_init
  | CrypEncrypt "u32 list" "u32 list" nat

type_synonym hw = "hal_call list"

text \<open>
  \<open>env_status h c\<close>: the status of call \<open>c\<close> made after history \<open>h\<close>; \<open>env_byte h c i\<close>: byte \<open>i\<close> of
  the caller's buffer after the call; \<open>env_flag\<close>: a polled bit; \<open>env_tick\<close>: \<open>HAL_GetTick\<close>;
  \<open>env_ecb k b i\<close>: word \<open>i\<close> of the AES-128-ECB encryption of the four-word block \<open>b\<close> under the
  four-word key \<open>k\<close>, which the AES peripheral computes.
\<close>

record hal_env =
  env_status :: "hw \<Rightarrow> hal_call \<Rightarrow> hal_status"
  env_byte :: "hw \<Rightarrow> hal_call \<Rightarrow> nat \<Rightarrow> u8"
  env_flag :: "hw \<Rightarrow> flag_poll \<Rightarrow> bool"
  env_tick :: "hw \<Rightarrow> u32"
  env_ecb :: "u32 list \<Rightarrow> u32 list \<Rightarrow> nat \<Rightarrow> u32"
  opt_use_lp :: bool
  opt_no_tcxo :: bool
  opt_rf_swap :: bool

definition issue :: "hal_call \<Rightarrow> hw \<Rightarrow> hw" where
  "issue c h = h @ [c]"

definition call_ok :: "hal_env \<Rightarrow> hal_call \<Rightarrow> hw \<Rightarrow> bool" where
  "call_ok e c h \<longleftrightarrow> env_status e h c = HAL_OK"

definition call_bytes :: "hal_env \<Rightarrow> hal_call \<Rightarrow> nat \<Rightarrow> hw \<Rightarrow> u8 list" where
  "call_bytes e c n h = map (env_byte e h c) [0..<n]"

lemma length_call_bytes [simp]: "length (call_bytes e c n h) = n"
  by (simp add: call_bytes_def)

lemma call_bytes_few:
  "call_bytes e c 1 h = [env_byte e h c 0]"
  "call_bytes e c 2 h = [env_byte e h c 0, env_byte e h c 1]"
  "call_bytes e c 3 h = [env_byte e h c 0, env_byte e h c 1, env_byte e h c 2]"
  by (simp_all add: call_bytes_def numeral_eq_Suc)

text \<open>A history only ever grows.\<close>

definition extends :: "hw \<Rightarrow> hw \<Rightarrow> bool" where
  "extends h h' \<longleftrightarrow> (\<exists>cs. h' = h @ cs)"

lemma extends_refl [simp, intro]: "extends h h"
  by (simp add: extends_def)

lemma extends_trans [trans]: "extends a b \<Longrightarrow> extends b c \<Longrightarrow> extends a c"
  by (auto simp: extends_def)

lemma extends_issue [simp, intro]: "extends h h' \<Longrightarrow> extends h (issue c h')"
  by (auto simp: extends_def issue_def)

text \<open>
  A concrete environment for evaluating the model: every call succeeds, no flag is busy, each call
  takes a millisecond, and the block cipher is a simple mixing of key and block.
\<close>

definition demo_env :: hal_env where
  "demo_env = \<lparr>env_status = (\<lambda>h c. HAL_OK), env_byte = (\<lambda>h c i. 0), env_flag = (\<lambda>h f. f \<noteq> RfBusys \<and> f \<noteq> VosBusy),
     env_tick = (\<lambda>h. of_nat (length h)), env_ecb = (\<lambda>k b i. (k ! i) XOR (b ! i) + of_nat i),
     opt_use_lp = False, opt_no_tcxo = False, opt_rf_swap = False\<rparr>"

lemma demo_env_simps [simp]:
  "env_status demo_env h c = HAL_OK" "env_byte demo_env h c i = 0"
  "env_flag demo_env h f = (f \<noteq> RfBusys \<and> f \<noteq> VosBusy)"
  "env_tick demo_env h = of_nat (length h)"
  "env_ecb demo_env k b i = (k ! i) XOR (b ! i) + of_nat i"
  "\<not> opt_use_lp demo_env" "\<not> opt_no_tcxo demo_env" "\<not> opt_rf_swap demo_env"
  by (simp_all add: demo_env_def)

end
