(* ===== verification/Serial_IO.thy ===== *)
theory Serial_IO
  imports Hal
begin

text \<open>
  \<open>firmware/Core/serial_io.c\<close>: the receive ring filled by the USART1 interrupt and drained by the
  main loop, and the transmit helpers. The ring is shown to be a FIFO of at most 255 bytes (locale
  \<open>byte_queue\<close>), and the decimal printer to print the number it is given.
\<close>

section \<open>State\<close>

definition RX_RING_SIZE :: nat where
  "RX_RING_SIZE = 256"

lemma RX_RING_SIZE_eq [simp]: "RX_RING_SIZE = 256"
  by (simp add: RX_RING_SIZE_def)

text \<open>\<open>uart_instance\<close> is \<open>huart1.Instance != NULL\<close>.\<close>

record serial_state =
  rx_ring :: "u8 list"
  rx_head :: nat
  rx_tail :: nat
  uart_instance :: bool

definition serial_reset :: serial_state where
  "serial_reset = \<lparr>rx_ring = replicate RX_RING_SIZE 0, rx_head = 0, rx_tail = 0, uart_instance = False\<rparr>"

section \<open>The receive ring\<close>

definition serial_push_byte :: "u8 \<Rightarrow> serial_state \<Rightarrow> serial_state" where
  "serial_push_byte b st =
     (let nxt = (rx_head st + 1) mod RX_RING_SIZE in
      if nxt \<noteq> rx_tail st
      then st\<lparr>rx_ring := (rx_ring st)[rx_head st := b], rx_head := nxt\<rparr>
      else st)"

text \<open>Returns whether a byte was taken, the new \<open>*out\<close> and the new state.\<close>

definition serial_get_byte :: "u8 ptr \<Rightarrow> serial_state \<Rightarrow> bool \<times> u8 ptr \<times> serial_state" where
  "serial_get_byte out st =
     (if out = NULL then (False, out, st)
      else if rx_tail st = rx_head st then (False, out, st)
      else (True, Some (rx_ring st ! rx_tail st), st\<lparr>rx_tail := (rx_tail st + 1) mod RX_RING_SIZE\<rparr>))"

text \<open>The main loop's use \<open>while (serial_get_byte(&b))\<close>: the byte taken, if any.\<close>

definition serial_next :: "serial_state \<Rightarrow> (u8 \<times> serial_state) option" where
  "serial_next st =
     (case serial_get_byte (Some 0) st of
        (True, Some b, st') \<Rightarrow> Some (b, st')
      | _ \<Rightarrow> None)"

text \<open>The USART1 interrupt of \<open>stm32wlxx_it.c\<close>: \<open>isr\<close> is the RXNE flag, \<open>rdr\<close> the data register.\<close>

definition USART1_IRQHandler :: "bool \<Rightarrow> u16 \<Rightarrow> serial_state \<Rightarrow> serial_state" where
  "USART1_IRQHandler rxne rdr st =
     (if rxne then serial_push_byte (ucast (rdr AND 0xFF)) st else st)"

section \<open>A FIFO interface and its implementation by the ring\<close>

locale byte_queue =
  fixes put :: "'b \<Rightarrow> 'q \<Rightarrow> 'q"
    and get :: "'q \<Rightarrow> ('b \<times> 'q) option"
    and contents :: "'q \<Rightarrow> 'b list"
    and inv :: "'q \<Rightarrow> bool"
    and cap :: nat
  assumes inv_put: "inv q \<Longrightarrow> inv (put b q)"
    and contents_put: "inv q \<Longrightarrow>
      contents (put b q) = (if length (contents q) < cap then contents q @ [b] else contents q)"
    and get_empty: "inv q \<Longrightarrow> contents q = [] \<Longrightarrow> get q = None"
    and get_front: "inv q \<Longrightarrow> contents q = b # bs \<Longrightarrow>
      \<exists>q'. get q = Some (b, q') \<and> inv q' \<and> contents q' = bs"
    and bounded: "inv q \<Longrightarrow> length (contents q) \<le> cap"
begin

lemma inv_puts: "inv q \<Longrightarrow> inv (fold put bs q)"
  by (induction bs arbitrary: q) (auto intro: inv_put)

lemma contents_puts:
  "inv q \<Longrightarrow> contents (fold put bs q) = take (max cap (length (contents q))) (contents q @ bs)"
proof (induction bs arbitrary: q)
  case Nil
  then show ?case by simp
next
  case (Cons b bs)
  show ?case
  proof (cases "length (contents q) < cap")
    case True
    then show ?thesis
      using Cons.IH [OF inv_put [OF Cons.prems]]
      by (simp add: contents_put [OF Cons.prems] max_absorb1 Suc_le_eq)
  next
    case False
    then show ?thesis
      using Cons.IH [OF inv_put [OF Cons.prems]] by (simp add: contents_put [OF Cons.prems] max_def)
  qed
qed

lemma get_None_iff: "inv q \<Longrightarrow> get q = None \<longleftrightarrow> contents q = []"
  using get_empty get_front by (cases "contents q") fastforce+

lemma get_SomeD:
  assumes "inv q" and "get q = Some (b, q')"
  shows "contents q = b # contents q' \<and> inv q'"
proof (cases "contents q")
  case Nil
  with assms show ?thesis by (simp add: get_empty)
next
  case (Cons c cs)
  with assms get_front [OF assms(1) Cons] show ?thesis by auto
qed

end

definition ring_count :: "serial_state \<Rightarrow> nat" where
  "ring_count st =
     (if rx_tail st \<le> rx_head st then rx_head st - rx_tail st
      else rx_head st + RX_RING_SIZE - rx_tail st)"

definition ring_contents :: "serial_state \<Rightarrow> u8 list" where
  "ring_contents st = map (\<lambda>i. rx_ring st ! ((rx_tail st + i) mod RX_RING_SIZE)) [0..<ring_count st]"

definition serial_inv :: "serial_state \<Rightarrow> bool" where
  "serial_inv st \<longleftrightarrow>
     length (rx_ring st) = RX_RING_SIZE \<and> rx_head st < RX_RING_SIZE \<and> rx_tail st < RX_RING_SIZE"

lemma serial_inv_reset [simp]: "serial_inv serial_reset"
  by (simp add: serial_inv_def serial_reset_def)

lemma length_ring_contents [simp]: "length (ring_contents st) = ring_count st"
  by (simp add: ring_contents_def)

lemma ring_count_less: "serial_inv st \<Longrightarrow> ring_count st < 256"
  by (auto simp: serial_inv_def ring_count_def)

lemma serial_inv_push: "serial_inv st \<Longrightarrow> serial_inv (serial_push_byte b st)"
  by (simp add: serial_inv_def serial_push_byte_def Let_def)

lemma mod_ring: "(n :: nat) < 512 \<Longrightarrow> n mod 256 = (if n < 256 then n else n - 256)"
  by (simp add: mod_if)

lemma push_full_iff:
  "serial_inv st \<Longrightarrow> (rx_head st + 1) mod 256 = rx_tail st \<longleftrightarrow> ring_count st = 255"
  by (auto simp: serial_inv_def ring_count_def mod_ring split: if_splits)

lemma ring_contents_push:
  assumes "serial_inv st"
  shows "ring_contents (serial_push_byte b st) =
    (if length (ring_contents st) < 255 then ring_contents st @ [b] else ring_contents st)"
proof (cases "ring_count st = 255")
  case True
  then show ?thesis
    using push_full_iff [OF assms] by (simp add: serial_push_byte_def Let_def)
next
  case False
  let ?st = "serial_push_byte b st"
  have lt: "ring_count st < 255"
    using False ring_count_less [OF assms] by simp
  have st: "?st = st\<lparr>rx_ring := (rx_ring st)[rx_head st := b], rx_head := (rx_head st + 1) mod 256\<rparr>"
    using push_full_iff [OF assms] False by (simp add: serial_push_byte_def Let_def)
  have cnt: "ring_count ?st = Suc (ring_count st)"
    using assms lt unfolding st
    by (auto simp: ring_count_def serial_inv_def mod_ring split: if_splits)
  have hd_pos: "(rx_tail st + ring_count st) mod 256 = rx_head st"
    using assms by (auto simp: ring_count_def serial_inv_def mod_ring)
  have other: "rx_head st \<noteq> (rx_tail st + i) mod 256" if "i < ring_count st" for i
    using assms that by (auto simp: ring_count_def serial_inv_def mod_ring split: if_splits)
  have "ring_contents ?st = map (\<lambda>i. (rx_ring st)[rx_head st := b] ! ((rx_tail st + i) mod 256))
      [0..<Suc (ring_count st)]"
    using cnt by (simp add: ring_contents_def st)
  also have "\<dots> = ring_contents st @ [b]"
    using assms other by (auto simp: hd_pos serial_inv_def ring_contents_def)
  finally show ?thesis
    using lt by simp
qed

lemma serial_next_None: "ring_contents st = [] \<Longrightarrow> serial_inv st \<Longrightarrow> serial_next st = None"
  by (auto simp: serial_next_def serial_get_byte_def ring_contents_def ring_count_def serial_inv_def
      split: if_splits)

lemma serial_next_front:
  assumes "serial_inv st" and "ring_contents st = b # bs"
  shows "\<exists>st'. serial_next st = Some (b, st') \<and> serial_inv st' \<and> ring_contents st' = bs"
proof -
  let ?st = "st\<lparr>rx_tail := (rx_tail st + 1) mod 256\<rparr>"
  have pos: "0 < ring_count st"
    using assms(2) length_ring_contents [of st] by simp
  have ne: "rx_tail st \<noteq> rx_head st"
    using pos by (auto simp: ring_count_def)
  have cnt: "ring_count st = Suc (ring_count ?st)"
    using assms(1) pos by (auto simp: ring_count_def serial_inv_def mod_ring split: if_splits)
  have "ring_contents st = rx_ring st ! rx_tail st #
      map (\<lambda>i. rx_ring st ! ((rx_tail st + Suc i) mod 256)) [0..<ring_count ?st]"
    using assms(1)
    by (simp add: ring_contents_def cnt upt_conv_Cons map_Suc_upt [symmetric] serial_inv_def
        comp_def del: upt_Suc)
  also have "map (\<lambda>i. rx_ring st ! ((rx_tail st + Suc i) mod 256)) [0..<ring_count ?st] = ring_contents ?st"
    by (simp add: ring_contents_def mod_add_left_eq)
  finally have c: "ring_contents st = rx_ring st ! rx_tail st # ring_contents ?st" .
  have "serial_next st = Some (rx_ring st ! rx_tail st, ?st)"
    using ne by (simp add: serial_next_def serial_get_byte_def)
  moreover have "serial_inv ?st"
    using assms(1) by (simp add: serial_inv_def)
  ultimately show ?thesis
    using c assms(2) by simp
qed

interpretation rx_queue: byte_queue serial_push_byte serial_next ring_contents serial_inv 255
proof
  fix st :: serial_state and b bs
  assume st: "serial_inv st"
  show "serial_inv (serial_push_byte b st)"
    by (rule serial_inv_push [OF st])
  show "ring_contents (serial_push_byte b st) =
      (if length (ring_contents st) < 255 then ring_contents st @ [b] else ring_contents st)"
    by (rule ring_contents_push [OF st])
  show "length (ring_contents st) \<le> 255"
    using ring_count_less [OF st] by simp
  show "serial_next st = None" if "ring_contents st = []"
    by (rule serial_next_None [OF that st])
  show "\<exists>st'. serial_next st = Some (b, st') \<and> serial_inv st' \<and> ring_contents st' = bs"
    if "ring_contents st = b # bs"
    by (rule serial_next_front [OF st that])
qed

fun drain :: "nat \<Rightarrow> serial_state \<Rightarrow> u8 list \<times> serial_state" where
  "drain 0 st = ([], st)"
| "drain (Suc n) st =
     (case serial_next st of None \<Rightarrow> ([], st)
      | Some (b, st') \<Rightarrow> (let (bs, st'') = drain n st' in (b # bs, st'')))"

lemma drain_contents:
  "serial_inv st \<Longrightarrow> length (ring_contents st) \<le> n \<Longrightarrow>
     \<exists>st'. drain n st = (ring_contents st, st') \<and> serial_inv st' \<and> ring_contents st' = []"
proof (induction n arbitrary: st)
  case 0
  then have "ring_contents st = []"
    using length_ring_contents [of st] by (simp del: length_ring_contents)
  with 0 show ?case by simp
next
  case (Suc n)
  show ?case
  proof (cases "ring_contents st")
    case Nil
    with Suc.prems(1) show ?thesis by (simp add: rx_queue.get_empty)
  next
    case (Cons b bs)
    then obtain st1 where st1: "serial_next st = Some (b, st1)" "serial_inv st1" "ring_contents st1 = bs"
      using rx_queue.get_front [OF Suc.prems(1)] by blast
    moreover obtain st2 where "drain n st1 = (bs, st2)" "serial_inv st2" "ring_contents st2 = []"
      using Suc.IH [OF st1(2)] st1(3) Suc.prems(2) Cons by auto
    ultimately show ?thesis
      using Cons by simp
  qed
qed

text \<open>
  The interrupt and the main loop together see a FIFO of 255 bytes: after any bytes arrive at an
  empty ring, draining the ring yields the first 255 of them in order, and the rest were dropped.
\<close>

lemma serial_ring_fifo:
  assumes "serial_inv st" and "ring_contents st = []"
  shows "fst (drain 255 (fold serial_push_byte bs st)) = take 255 bs"
proof -
  let ?st = "fold serial_push_byte bs st"
  have c: "ring_contents ?st = take 255 bs"
    using rx_queue.contents_puts [OF assms(1), of bs] assms(2) by simp
  have "serial_inv ?st"
    by (rule rx_queue.inv_puts [OF assms(1)])
  from drain_contents [OF this, of 255] show ?thesis
    by (auto simp: c simp flip: length_ring_contents)
qed

section \<open>Transmit\<close>

definition serial_init :: "hal_env \<Rightarrow> serial_state \<Rightarrow> hw \<Rightarrow> serial_state \<times> hw" where
  "serial_init e st h =
     (let st' = st\<lparr>uart_instance := True\<rparr>;
          h0 = h @ map Setup [Usart1ClkConfig, Usart1ClkEnable, GpioBClkEnable, GpioInitUsartPins];
          h1 = issue (UartInit 115200) h0
      in if \<not> call_ok e (UartInit 115200) h0 then (st', h1)
         else (st', issue (NvicEnable USART1_IRQn)
                     (issue (NvicSetPriority USART1_IRQn 2) (issue (Setup UartEnableItRxne) h1))))"

text \<open>A C string argument is the bytes before and after its terminator, as they lie in memory.\<close>

definition c_strnlen :: "u8 list \<Rightarrow> nat" where
  "c_strnlen s = length (takeWhile (\<lambda>b. b \<noteq> 0) (take 256 s))"

definition serial_puts :: "u8 list ptr \<Rightarrow> serial_state \<Rightarrow> hw \<Rightarrow> hw" where
  "serial_puts s st h =
     (case s of None \<Rightarrow> h
      | Some str \<Rightarrow>
          if \<not> uart_instance st then h
          else let n = c_strnlen str in
            if n > 0 then issue (UartTransmit (take n str) 100) h else h)"

definition serial_write :: "u8 list ptr \<Rightarrow> nat \<Rightarrow> serial_state \<Rightarrow> hw \<Rightarrow> hw" where
  "serial_write data len st h =
     (case data of None \<Rightarrow> h
      | Some d \<Rightarrow>
          if \<not> uart_instance st \<or> len = 0 then h
          else issue (UartTransmit (take len d) 100) h)"

definition uart_tx :: "u8 list ptr \<Rightarrow> nat \<Rightarrow> serial_state \<Rightarrow> hw \<Rightarrow> hw" where
  "uart_tx data len st h =
     (case data of None \<Rightarrow> h
      | Some d \<Rightarrow>
          if \<not> uart_instance st then h
          else issue (UartTransmit (take len d) 500) h)"

text \<open>\<open>digits[]\<close>, least significant first: the loop \<open>while (u)\<close>.\<close>

fun dec_digits :: "nat \<Rightarrow> u8 list" where
  "dec_digits u = (if u = 0 then [] else of_nat (u mod 10) # dec_digits (u div 10))"

declare dec_digits.simps [simp del]

text \<open>The bytes \<open>serial_put_int16\<close> assembles in \<open>buf\<close>.\<close>

definition int16_bytes :: "u16 \<Rightarrow> u8 list" where
  "int16_bytes v =
     (let (sign, u) =
            (if v <s 0 then ([0x2D], unat (ucast (- (scast v :: u32)) :: u16)) else ([], unat v))
      in sign @ (if u = 0 then [0x30] else map (\<lambda>d. 0x30 + d) (rev (dec_digits u))))"

definition serial_put_int16 :: "u16 \<Rightarrow> serial_state \<Rightarrow> hw \<Rightarrow> hw" where
  "serial_put_int16 v st h =
     (if \<not> uart_instance st then h else issue (UartTransmit (int16_bytes v) 100) h)"

text \<open>What a history sends to the terminal.\<close>

fun uart_bytes :: "hal_call \<Rightarrow> u8 list" where
  "uart_bytes (UartTransmit bs t) = bs"
| "uart_bytes _ = []"

definition uart_out :: "hw \<Rightarrow> u8 list" where
  "uart_out h = concat (map uart_bytes h)"

lemma uart_out_append [simp]: "uart_out (h @ h') = uart_out h @ uart_out h'"
  by (simp add: uart_out_def)

lemma uart_out_Nil [simp]: "uart_out [] = []"
  by (simp add: uart_out_def)

lemma uart_out_issue [simp]: "uart_out (issue c h) = uart_out h @ uart_bytes c"
  by (simp add: uart_out_def issue_def)

lemma c_strnlen_text:
  assumes "0 \<notin> set s" and "length s \<le> 256"
  shows "c_strnlen s = length s"
proof -
  have "takeWhile (\<lambda>b. b \<noteq> 0) s = s"
    using assms(1) by (subst takeWhile_eq_all_conv) auto
  moreover have "take 256 s = s"
    using assms(2) by simp
  ultimately show ?thesis
    unfolding c_strnlen_def by (simp only:)
qed

lemma uart_out_puts:
  assumes "uart_instance st" and "0 \<notin> set s" and "length s \<le> 256"
  shows "uart_out (serial_puts (Some s) st h) = uart_out h @ s"
  using assms by (simp add: serial_puts_def c_strnlen_text Let_def)

lemma uart_out_write:
  "uart_instance st \<Longrightarrow> uart_out (serial_write (Some d) n st h) = uart_out h @ take n d"
  by (simp add: serial_write_def)

lemma uart_out_put_int16:
  "uart_instance st \<Longrightarrow> uart_out (serial_put_int16 v st h) = uart_out h @ int16_bytes v"
  by (simp add: serial_put_int16_def)

section \<open>The decimal printer\<close>

text \<open>Reading a decimal number, most significant digit first.\<close>

definition dec_value :: "u8 list \<Rightarrow> nat" where
  "dec_value bs = foldl (\<lambda>a d. 10 * a + unat (d - 0x30)) 0 bs"

definition int_value :: "u8 list \<Rightarrow> int" where
  "int_value bs = (if take 1 bs = [0x2D] then - int (dec_value (drop 1 bs)) else int (dec_value bs))"

lemma unat_digit: "unat (of_nat (u mod 10) :: u8) = u mod 10"
proof -
  have "u mod 10 < 2 ^ 8"
    by (rule less_trans [of _ 10]) simp_all
  then show ?thesis
    by (simp add: unsigned_of_nat take_bit_nat_eq_self)
qed

lemma dec_digits_0 [simp]: "dec_digits 0 = []"
  by (simp add: dec_digits.simps)

lemma dec_digits_value:
  "foldl (\<lambda>a d. 10 * a + unat (d - 0x30)) 0 (map (\<lambda>d. 0x30 + d) (rev (dec_digits u))) = u"
proof (induction u rule: dec_digits.induct)
  case (1 u)
  show ?case
  proof (cases "u = 0")
    case True
    then show ?thesis by (simp add: dec_digits.simps)
  next
    case False
    have "unat (of_nat (u mod 10) :: u8) = u mod 10"
      by (rule unat_digit)
    then show ?thesis
      using "1.IH" [OF False] False by (simp add: dec_digits.simps [of u])
  qed
qed

lemma dec_digits_range: "d \<in> set (dec_digits u) \<Longrightarrow> unat d < 10"
proof (induction u rule: dec_digits.induct)
  case (1 u)
  then show ?case
    by (cases "u = 0") (auto simp: dec_digits.simps [of u] unat_digit)
qed

lemma dec_digits_length: "u < 10 ^ k \<Longrightarrow> length (dec_digits u) \<le> k"
proof (induction k arbitrary: u)
  case 0
  then show ?case by (simp add: dec_digits.simps)
next
  case (Suc k)
  then have "u div 10 < 10 ^ k"
    by (simp add: less_mult_imp_div_less mult.commute)
  then show ?case
    using Suc.IH by (simp add: dec_digits.simps [of u])
qed

lemma digit_not_minus: "unat (d :: u8) < 10 \<Longrightarrow> 0x30 + d \<noteq> 0x2D"
proof
  assume "unat d < 10" and "0x30 + d = 0x2D"
  then have "d = 0x2D - 0x30" by (simp add: eq_neg_iff_add_eq_0 add.commute)
  then have "unat d = 253" by simp
  with \<open>unat d < 10\<close> show False by simp
qed

lemma dec_digits_no_sign: "take 1 (map (\<lambda>d. 0x30 + d) (rev (dec_digits u))) \<noteq> [0x2D]"
proof
  assume "take 1 (map (\<lambda>d. 0x30 + d) (rev (dec_digits u))) = [0x2D]"
  then have "0x2D \<in> set (map (\<lambda>d. 0x30 + d) (rev (dec_digits u)))"
    by (metis in_set_takeD list.set_intros(1))
  then obtain d where "d \<in> set (dec_digits u)" and "(0x2D :: u8) = 0x30 + d"
    by auto
  then show False
    using digit_not_minus dec_digits_range by metis
qed

lemma int16_magnitude:
  assumes "v <s (0 :: u16)"
  shows "int (unat (ucast (- (scast v :: u32)) :: u16)) = - sint v"
proof -
  have neg: "sint v < 0"
    using assms by (simp add: word_sless_alt)
  have lo: "- 32768 \<le> sint v"
    using sint_greater_eq [of v] by simp
  have "- (scast v :: u32) = word_of_int (- sint v)"
    by (simp only: of_int_minus of_int_sint)
  then have "uint (- (scast v :: u32)) = take_bit 32 (- sint v)"
    by (simp only: uint_word_of_int_eq) simp
  also have "\<dots> = - sint v"
    using neg lo by (simp add: take_bit_int_eq_self)
  finally have u: "uint (- (scast v :: u32)) = - sint v" .
  have "uint (ucast (- (scast v :: u32)) :: u16) = take_bit 16 (uint (- (scast v :: u32)))"
    by (simp only: unsigned_ucast_eq) simp
  also have "\<dots> = - sint v"
    using neg lo by (simp only: u) (simp add: take_bit_int_eq_self)
  finally show ?thesis by simp
qed

text \<open>
  For every 16-bit value, \<open>INT16_MIN\<close> included, the printed text reads back as that value, has
  no leading sign when it is not negative, and fits the eight bytes of \<open>buf\<close>.
\<close>

lemma serial_put_int16_prints:
  "int_value (int16_bytes v) = sint v \<and> length (int16_bytes v) \<le> 6"
proof (cases "v <s 0")
  case True
  let ?u = "unat (ucast (- (scast v :: u32)) :: u16)"
  have u: "int ?u = - sint v"
    by (rule int16_magnitude [OF True])
  moreover have "sint v < 0"
    using True by (simp add: word_sless_alt)
  ultimately have pos: "?u \<noteq> 0"
    by linarith
  have "- 32768 \<le> sint v"
    using sint_greater_eq [of v] by simp
  with u have "?u \<le> 32768"
    by linarith
  then have "?u < 10 ^ 5"
    by simp
  then have "length (dec_digits ?u) \<le> 5"
    by (rule dec_digits_length)
  then show ?thesis
    using True pos u dec_digits_value [of ?u]
    by (simp add: int16_bytes_def Let_def int_value_def dec_value_def)
next
  case False
  then have nn: "0 \<le> sint v"
    by (simp add: word_sless_alt not_less)
  have "unat v < 10 ^ 5"
    using unsigned_less [of v, where 'a = nat] by simp
  then have len: "length (dec_digits (unat v)) \<le> 5"
    by (rule dec_digits_length)
  have s: "int (unat v) = sint v"
    using nn sint_less [of v] by (simp add: uint_sint take_bit_int_eq_self)
  show ?thesis
  proof (cases "unat v = 0")
    case True
    then show ?thesis
      using False s by (simp add: int16_bytes_def Let_def int_value_def dec_value_def)
  next
    case nz: False
    then show ?thesis
      using False s len dec_digits_value [of "unat v"] dec_digits_no_sign [of "unat v"]
      by (simp add: int16_bytes_def Let_def int_value_def dec_value_def)
  qed
qed

end
