(* ===== verification/Serial_Framing.thy ===== *)
theory Serial_Framing
  imports Serial_IO
begin

text \<open>
  \<open>firmware/Serial/serial_framing.c\<close>: the sender of length-prefixed packets and the byte-driven
  receive state machine. The receiver is shown to stay inside its buffer on every input and to
  deliver what it accepts, but what it accepts is not what the sender emits.
\<close>

section \<open>State and operations\<close>

definition SERIAL_START1 :: u8 where
  "SERIAL_START1 = 0x94"

definition SERIAL_START2 :: u8 where
  "SERIAL_START2 = 0xC3"

definition SERIAL_MAX_PAYLOAD :: nat where
  "SERIAL_MAX_PAYLOAD = 512"

lemma SERIAL_MAX_PAYLOAD_eq [simp]: "SERIAL_MAX_PAYLOAD = 512"
  by (simp add: SERIAL_MAX_PAYLOAD_def)

datatype rx_state = SYNC | LEN_MSB | LEN_LSB | BODY

record 'cb framing =
  fr_state :: rx_state
  fr_len :: u16
  fr_idx :: nat
  fr_buf :: "u8 list"
  fr_cb :: "'cb ptr"

definition framing_reset :: "'cb framing" where
  "framing_reset = \<lparr>fr_state = SYNC, fr_len = 0, fr_idx = 0,
     fr_buf = replicate SERIAL_MAX_PAYLOAD 0, fr_cb = NULL\<rparr>"

text \<open>The four header bytes of a packet.\<close>

definition frame_header :: "nat \<Rightarrow> u8 list" where
  "frame_header body_len =
     [SERIAL_START1, SERIAL_START2, of_nat (body_len div 256), of_nat (body_len mod 256)]"

definition serial_send_packet :: "u8 list ptr \<Rightarrow> nat \<Rightarrow> serial_state \<Rightarrow> hw \<Rightarrow> hw" where
  "serial_send_packet body body_len st h =
     (if body = NULL \<or> body_len > SERIAL_MAX_PAYLOAD then h
      else uart_tx body body_len st (uart_tx (Some (frame_header body_len)) 4 st h))"

text \<open>
  The result of \<open>serial_rx_byte\<close>: the new state, the callback invocation if one was made (the
  callback and the bytes it is shown), and the return value.
\<close>

definition serial_rx_byte ::
  "u8 \<Rightarrow> 'cb ptr \<Rightarrow> 'cb framing \<Rightarrow> 'cb framing \<times> ('cb \<times> u8 list) option \<times> nat" where
  "serial_rx_byte byte callback s0 =
     (let s = s0\<lparr>fr_cb := callback\<rparr> in
      case fr_state s of
        SYNC \<Rightarrow> (if byte = SERIAL_START1 then s\<lparr>fr_state := LEN_MSB\<rparr> else s, None, 0)
      | LEN_MSB \<Rightarrow> (s\<lparr>fr_len := push_bit 8 (ucast byte), fr_state := LEN_LSB\<rparr>, None, 0)
      | LEN_LSB \<Rightarrow>
          (let s1 = s\<lparr>fr_len := fr_len s OR ucast byte\<rparr> in
           if unat (fr_len s1) > SERIAL_MAX_PAYLOAD then (s1\<lparr>fr_state := SYNC\<rparr>, None, 0)
           else (s1\<lparr>fr_idx := 0, fr_state := BODY\<rparr>, None, 0))
      | BODY \<Rightarrow>
          (let s1 = s\<lparr>fr_buf := (fr_buf s)[fr_idx s := byte], fr_idx := fr_idx s + 1\<rparr> in
           if fr_idx s1 \<ge> unat (fr_len s1)
           then (s1\<lparr>fr_state := SYNC\<rparr>,
                 map_option (\<lambda>cb. (cb, take (unat (fr_len s1)) (fr_buf s1))) (fr_cb s1), 1)
           else (s1, None, 0)))"

text \<open>Feeding a stream of bytes with one callback: the final state and the packets delivered.\<close>

fun feed :: "'cb ptr \<Rightarrow> 'cb framing \<Rightarrow> u8 list \<Rightarrow> 'cb framing \<times> ('cb \<times> u8 list) list" where
  "feed cb s [] = (s, [])"
| "feed cb s (b # bs) =
     (case serial_rx_byte b cb s of
        (s', d, r) \<Rightarrow>
          (case feed cb s' bs of (s'', ds) \<Rightarrow> (s'', (case d of None \<Rightarrow> [] | Some p \<Rightarrow> [p]) @ ds)))"

lemma feed_append:
  "feed cb s (xs @ ys) =
     (let (s1, d1) = feed cb s xs; (s2, d2) = feed cb s1 ys in (s2, d1 @ d2))"
  by (induction xs arbitrary: s) (auto split: prod.splits)

section \<open>The receiver stays inside its buffer\<close>

definition framing_inv :: "'cb framing \<Rightarrow> bool" where
  "framing_inv s \<longleftrightarrow> length (fr_buf s) = SERIAL_MAX_PAYLOAD \<and>
     (fr_state s = LEN_LSB \<longrightarrow> (\<exists>b :: u8. fr_len s = push_bit 8 (ucast b))) \<and>
     (fr_state s = BODY \<longrightarrow>
        unat (fr_len s) \<le> SERIAL_MAX_PAYLOAD \<and> fr_idx s < max 1 (unat (fr_len s)))"

lemma framing_inv_reset [simp]: "framing_inv framing_reset"
  by (simp add: framing_inv_def framing_reset_def)

lemma framing_inv_step:
  "framing_inv s \<Longrightarrow> framing_inv (fst (serial_rx_byte b cb s))"
  by (cases "fr_state s") (auto simp: serial_rx_byte_def Let_def framing_inv_def)

lemma framing_inv_feed: "framing_inv s \<Longrightarrow> framing_inv (fst (feed cb s bs))"
proof (induction bs arbitrary: s)
  case Nil
  then show ?case by simp
next
  case (Cons b bs)
  then show ?case
    using framing_inv_step [OF Cons.prems, of b cb] by (auto split: prod.splits) (metis fst_conv)
qed

text \<open>The packet length of two bytes, most significant first.\<close>

definition len_of :: "u8 \<Rightarrow> u8 \<Rightarrow> u16" where
  "len_of hi lo = push_bit 8 (ucast hi) OR ucast lo"

lemma unat_len_of: "unat (len_of hi lo) = 256 * unat hi + unat lo"
proof -
  let ?h = "push_bit 8 (ucast hi) :: u16"
  let ?l = "ucast lo :: u16"
  have lo: "bit ?l n \<longleftrightarrow> n < 8 \<and> bit lo n" for n
    using bit_imp_le_length [of lo n] by (auto simp: bit_unsigned_iff)
  have "?h AND ?l = 0"
    by (rule bit_word_eqI) (auto simp: bit_and_iff bit_push_bit_iff lo)
  then have "?h OR ?l = ?h + ?l"
    by (rule disjunctive_add_eq_or [symmetric])
  moreover have "unat ?h = 256 * unat hi"
  proof -
    have lt: "256 * unat hi < 65536"
      using unsigned_less [of hi, where 'a = nat] by simp
    have "?h = 256 * ucast hi"
      by (simp add: push_bit_eq_mult)
    then show ?thesis
      using lt unsigned_less [of hi, where 'a = nat]
      by (simp only: unat_word_ariths) (simp add: unsigned_ucast_eq take_bit_nat_eq_self)
  qed
  moreover have "unat ?l = unat lo"
    using unsigned_less [of lo, where 'a = nat]
    by (simp add: unsigned_ucast_eq take_bit_nat_eq_self)
  ultimately show ?thesis
    using unsigned_less [of hi, where 'a = nat] unsigned_less [of lo, where 'a = nat]
    by (simp add: len_of_def unat_word_ariths)
qed

lemma feed_delivered_length:
  "framing_inv s \<Longrightarrow> (c, p) \<in> set (snd (feed cb s bs)) \<Longrightarrow> length p \<le> 512"
proof (induction bs arbitrary: s)
  case Nil
  then show ?case by simp
next
  case (Cons b bs)
  obtain s1 d r where step: "serial_rx_byte b cb s = (s1, d, r)"
    by (cases "serial_rx_byte b cb s")
  have inv: "framing_inv s1"
    using framing_inv_step [OF Cons.prems(1), of b cb] step by simp
  have "length p' \<le> 512" if "d = Some (c', p')" for c' p'
    using that step Cons.prems(1)
    by (cases "fr_state s") (auto simp: serial_rx_byte_def Let_def framing_inv_def split: if_splits)
  with Cons.IH [OF inv] Cons.prems(2) show ?case
    by (auto simp: step split: prod.splits option.splits)
qed

text \<open>
  C39. On every byte stream the receiver keeps its invariant, and so every store of the body state
  goes to an index inside the 512-byte buffer, and every packet it delivers has at most 512 bytes.
\<close>

theorem serial_rx_in_bounds:
  "let s = fst (feed cb framing_reset bs) in
     length (fr_buf s) = SERIAL_MAX_PAYLOAD \<and>
     \<not> (fr_state s = BODY \<and> fr_idx s \<ge> SERIAL_MAX_PAYLOAD) \<and>
     list_all (\<lambda>(c, p). length p \<le> SERIAL_MAX_PAYLOAD) (snd (feed cb framing_reset bs))"
  using framing_inv_feed [OF framing_inv_reset, of cb bs]
    feed_delivered_length [OF framing_inv_reset, of _ _ cb bs]
  by (auto simp: Let_def framing_inv_def list_all_iff max_def split: if_splits)

section \<open>What the receiver accepts\<close>

lemma feed_body:
  assumes "fr_state s = BODY" and "fr_idx s < unat (fr_len s)" and "unat (fr_len s) \<le> 512"
    and "length (fr_buf s) = 512" and "length bs = unat (fr_len s) - fr_idx s"
  shows "\<exists>s'. feed (Some c) s bs = (s', [(c, take (fr_idx s) (fr_buf s) @ bs)]) \<and> fr_state s' = SYNC"
  using assms
proof (induction bs arbitrary: s)
  case Nil
  then show ?case by simp
next
  case (Cons b bs)
  let ?s1 = "s\<lparr>fr_cb := Some c, fr_buf := (fr_buf s)[fr_idx s := b], fr_idx := fr_idx s + 1\<rparr>"
  have tk: "take (Suc (fr_idx s)) ((fr_buf s)[fr_idx s := b]) = take (fr_idx s) (fr_buf s) @ [b]"
    using Cons.prems by (simp add: take_Suc_conv_app_nth)
  show ?case
  proof (cases bs)
    case Nil
    then have "unat (fr_len s) = Suc (fr_idx s)"
      using Cons.prems by simp
    then show ?thesis
      using Cons.prems Nil tk by (simp add: serial_rx_byte_def Let_def)
  next
    case (Cons b' bs')
    then have lt: "Suc (fr_idx s) < unat (fr_len s)"
      using Cons.prems by simp
    have "\<exists>s'. feed (Some c) ?s1 bs = (s', [(c, take (fr_idx ?s1) (fr_buf ?s1) @ bs)]) \<and> fr_state s' = SYNC"
      using Cons.prems lt by (intro Cons.IH) simp_all
    moreover have "serial_rx_byte b (Some c) s = (?s1, None, 0)"
      using Cons.prems(1) lt by (simp add: serial_rx_byte_def Let_def)
    ultimately show ?thesis
      using tk by auto
  qed
qed

lemma feed_length_bytes:
  assumes "fr_state s = SYNC" and "unat (len_of hi lo) \<le> 512"
  shows "feed cb s [SERIAL_START1, hi, lo] =
    (s\<lparr>fr_cb := cb, fr_len := len_of hi lo, fr_idx := 0, fr_state := BODY\<rparr>, [])"
  using assms by (simp add: serial_rx_byte_def Let_def len_of_def)

text \<open>
  C40. A stream of START1, a two-byte length from 1 to 512, most significant byte first, and that many
  body bytes is delivered as exactly one packet, the body, and leaves the receiver in SYNC: the
  receiver's own format has no START2.
\<close>

theorem serial_rx_accepts:
  assumes "framing_inv s" and "fr_state s = SYNC" and "0 < length body" and "length body \<le> 512"
    and "256 * unat hi + unat lo = length body"
  shows "\<exists>s'. feed (Some c) s ([SERIAL_START1, hi, lo] @ body) = (s', [(c, body)]) \<and> fr_state s' = SYNC"
proof -
  let ?s = "s\<lparr>fr_cb := Some c, fr_len := len_of hi lo, fr_idx := 0, fr_state := BODY\<rparr>"
  have l: "unat (len_of hi lo) = length body"
    using assms(5) by (simp add: unat_len_of)
  have "\<exists>s'. feed (Some c) ?s body = (s', [(c, take (fr_idx ?s) (fr_buf ?s) @ body)]) \<and> fr_state s' = SYNC"
    using assms l by (intro feed_body) (simp_all add: framing_inv_def)
  then show ?thesis
    using feed_length_bytes [OF assms(2), of hi lo "Some c"] l assms(4)
    by (auto simp: feed_append simp del: feed.simps append_Cons split: prod.splits)
qed

theorem serial_rx_accepts_witness:
  "snd (feed (Some ()) framing_reset ([SERIAL_START1, 0, 3] @ [10, 20, 30])) = [((), [10, 20, 30])]"
  using serial_rx_accepts [of framing_reset "[10, 20, 30]" 0 3 "()"]
  by (auto simp: framing_reset_def framing_inv_def)

section \<open>The sender's packets are not accepted\<close>

lemma feed_no_start:
  "fr_state s = SYNC \<Longrightarrow> SERIAL_START1 \<notin> set bs \<Longrightarrow>
     snd (feed cb s bs) = [] \<and> fr_state (fst (feed cb s bs)) = SYNC"
proof (induction bs arbitrary: s)
  case Nil
  then show ?case by simp
next
  case (Cons b bs)
  then have "serial_rx_byte b cb s = (s\<lparr>fr_cb := cb\<rparr>, None, 0)"
    by (auto simp: serial_rx_byte_def Let_def)
  then show ?case
    using Cons.IH [of "s\<lparr>fr_cb := cb\<rparr>"] Cons.prems by (auto split: prod.splits)
qed

lemma start2_too_long: "unat (len_of SERIAL_START2 b) > 512"
  by (simp add: unat_len_of SERIAL_START2_def)

lemma feed_frame_header:
  assumes "fr_state s = SYNC" and "b \<noteq> SERIAL_START1"
  shows "\<exists>s'. feed cb s [SERIAL_START1, SERIAL_START2, a, b] = (s', []) \<and> fr_state s' = SYNC"
  using assms start2_too_long [of a] by (simp add: serial_rx_byte_def Let_def len_of_def)

text \<open>
  What \<open>serial_send_packet\<close> puts on the wire is the four-byte header of the documentation and the
  body; and a receiver in SYNC that is fed this packet delivers nothing, for every body without the
  byte 0x94 whose length does not end in 0x94: it takes START2 as the high byte of a length of 49920
  or more and gives up.
\<close>

lemma serial_loopback_lost:
  assumes "uart_instance st" and "length body \<le> 512" and "fr_state s = SYNC"
    and "SERIAL_START1 \<notin> set body" and "length body mod 256 \<noteq> 0x94"
  shows "uart_out (serial_send_packet (Some body) (length body) st h) =
      uart_out h @ frame_header (length body) @ body \<and>
    snd (feed cb s (frame_header (length body) @ body)) = []"
proof -
  have "(of_nat (length body mod 256) :: u8) \<noteq> SERIAL_START1"
  proof
    assume "(of_nat (length body mod 256) :: u8) = SERIAL_START1"
    then have "unat (of_nat (length body mod 256) :: u8) = 0x94"
      by (simp add: SERIAL_START1_def)
    then show False
      using assms(5) by (simp add: unsigned_of_nat take_bit_eq_mod)
  qed
  from feed_frame_header [OF assms(3) this] obtain s' where
    s': "feed cb s (frame_header (length body)) = (s', [])" "fr_state s' = SYNC"
    unfolding frame_header_def by blast
  then have "snd (feed cb s (frame_header (length body) @ body)) = []"
    using feed_no_start [OF s'(2) assms(4), of cb] by (simp add: feed_append split: prod.splits)
  then show ?thesis
    using assms(1,2) by (simp add: serial_send_packet_def uart_tx_def frame_header_def)
qed

text \<open>
  A packet of length zero is not delivered at once: the receiver waits for one more byte, stores
  it, and only then delivers an empty packet, so the first byte of whatever follows is lost.
\<close>

lemma serial_empty_packet_eats_byte:
  assumes "fr_state s = SYNC"
  shows "snd (feed (Some c) s [SERIAL_START1, 0, 0]) = [] \<and>
    (\<exists>s'. feed (Some c) s [SERIAL_START1, 0, 0, b] = (s', [(c, [])]) \<and> fr_state s' = SYNC)"
proof -
  have "unat (len_of 0 0) = 0"
    by (simp add: unat_len_of)
  with assms show ?thesis
    by (simp add: serial_rx_byte_def Let_def len_of_def)
qed

end
