(* ===== verification/Mesh_Packet.thy ===== *)
theory Mesh_Packet
  imports Prelude
begin

text \<open>
  \<open>firmware/Mesh/mesh_packet.h\<close> and \<open>mesh_packet.c\<close>: the 16-byte Meshtastic header, its parser and
  its writer. The two are inverse to each other on any buffer of at least 16 bytes.
\<close>

definition MESH_HEADER_SIZE :: nat where
  "MESH_HEADER_SIZE = 16"

definition MESH_BROADCAST_ID :: u32 where
  "MESH_BROADCAST_ID = 0xFFFFFFFF"

definition MESH_HOP_LIMIT_MASK :: u8 where
  "MESH_HOP_LIMIT_MASK = 0x0F"

lemma MESH_HEADER_SIZE_eq [simp]: "MESH_HEADER_SIZE = 16"
  by (simp add: MESH_HEADER_SIZE_def)

record mesh_lora_header =
  to_id :: u32
  from_id :: u32
  packet_id :: u32
  flags :: u8
  channel :: u8
  next_hop :: u8
  relay :: u8

definition mesh_hop_limit :: "u8 \<Rightarrow> u8" where
  "mesh_hop_limit fl = fl AND MESH_HOP_LIMIT_MASK"

text \<open>What \<open>mesh_header_from_buf\<close> assigns to the fields of \<open>*h\<close>.\<close>

definition header_of :: "u8 list \<Rightarrow> mesh_lora_header" where
  "header_of buf =
     \<lparr>to_id = le32 (buf ! 0) (buf ! 1) (buf ! 2) (buf ! 3),
      from_id = le32 (buf ! 4) (buf ! 5) (buf ! 6) (buf ! 7),
      packet_id = le32 (buf ! 8) (buf ! 9) (buf ! 10) (buf ! 11),
      flags = buf ! 12, channel = buf ! 13, next_hop = buf ! 14, relay = buf ! 15\<rparr>"

definition mesh_header_from_buf ::
  "mesh_lora_header ptr \<Rightarrow> u8 list ptr \<Rightarrow> mesh_lora_header ptr" where
  "mesh_header_from_buf h buf =
     (case (h, buf) of (Some _, Some b) \<Rightarrow> Some (header_of b) | _ \<Rightarrow> h)"

text \<open>The sixteen bytes \<open>mesh_header_to_buf\<close> stores at \<open>buf[0..15]\<close>.\<close>

definition header_bytes :: "mesh_lora_header \<Rightarrow> u8 list" where
  "header_bytes h = le_bytes (to_id h) @ le_bytes (from_id h) @ le_bytes (packet_id h) @
     [flags h, channel h, next_hop h, relay h]"

definition mesh_header_to_buf ::
  "mesh_lora_header ptr \<Rightarrow> u8 list ptr \<Rightarrow> u8 list ptr" where
  "mesh_header_to_buf h buf =
     (case (h, buf) of (Some hdr, Some b) \<Rightarrow> Some (memcpy_at b 0 (header_bytes hdr)) | _ \<Rightarrow> buf)"

section \<open>Lemmas\<close>

lemma length_header_bytes [simp]: "length (header_bytes h) = 16"
  by (simp add: header_bytes_def)

lemma header_of_header_bytes [simp]: "header_of (header_bytes h @ rest) = h"
proof -
  have "header_of (header_bytes h @ rest) =
      \<lparr>to_id = le32 (byte_n (to_id h) 0) (byte_n (to_id h) 1) (byte_n (to_id h) 2) (byte_n (to_id h) 3),
       from_id = le32 (byte_n (from_id h) 0) (byte_n (from_id h) 1) (byte_n (from_id h) 2) (byte_n (from_id h) 3),
       packet_id = le32 (byte_n (packet_id h) 0) (byte_n (packet_id h) 1) (byte_n (packet_id h) 2) (byte_n (packet_id h) 3),
       flags = flags h, channel = channel h, next_hop = next_hop h, relay = relay h\<rparr>"
    by (simp add: header_of_def header_bytes_def le_bytes_def)
  then show ?thesis
    by (simp only: le32_byte_n) simp
qed

lemma header_of_memcpy_at [simp]: "header_of (memcpy_at b 0 (header_bytes h)) = h"
  by (simp add: memcpy_at_def)

lemma take_16_conv:
  assumes "16 \<le> length (b :: u8 list)"
  shows "take 16 b = [b!0, b!1, b!2, b!3, b!4, b!5, b!6, b!7, b!8, b!9, b!10, b!11, b!12, b!13, b!14, b!15]"
  using assms by (intro nth_equalityI) (auto simp: less_Suc_eq numeral_eq_Suc)

lemma header_bytes_header_of: "16 \<le> length b \<Longrightarrow> header_bytes (header_of b) = take 16 b"
  by (simp add: header_bytes_def header_of_def take_16_conv)

lemma header_of_take:
  assumes "16 \<le> length b" and "take 16 b = take 16 c" and "16 \<le> length c"
  shows "header_of b = header_of c"
  by (metis assms append_take_drop_id header_bytes_header_of header_of_header_bytes)

section \<open>The parser and the writer are inverse\<close>

text \<open>
  C31. Parsing what was written gives the header back, writing changes only the first 16 bytes and
  keeps the length, and writing back what was parsed changes nothing, for every buffer that holds a
  header.
\<close>

theorem mesh_header_roundtrip:
  assumes "MESH_HEADER_SIZE \<le> length b"
  shows "mesh_header_from_buf (Some g) (mesh_header_to_buf (Some h) (Some b)) = Some h \<and>
    mesh_header_to_buf (Some h) (Some b) = Some (header_bytes h @ drop 16 b) \<and>
    mesh_header_to_buf (mesh_header_from_buf (Some g) (Some b)) (Some b) = Some b"
  using assms
  by (simp add: mesh_header_from_buf_def mesh_header_to_buf_def memcpy_at_def
      header_bytes_header_of)

theorem mesh_header_roundtrip_witness:
  "mesh_header_to_buf (mesh_header_from_buf (Some (header_of (replicate 16 7))) (Some (map of_nat [0..<18])))
     (Some (map of_nat [0..<18])) = Some (map of_nat [0..<18])"
  using mesh_header_roundtrip [of "map of_nat [0..<18]" "header_of (replicate 16 7)"] by simp

text \<open>The hop limit is a four-bit number.\<close>

lemma mesh_hop_limit_le: "unat (mesh_hop_limit fl) \<le> 15"
proof -
  have "fl AND 15 \<le> (15 :: u8)"
    by (rule word_and_le1)
  then have "unat (fl AND 15) \<le> unat (15 :: u8)"
    by (simp add: word_le_nat_alt)
  then show ?thesis
    by (simp add: mesh_hop_limit_def MESH_HOP_LIMIT_MASK_def)
qed

end
