(* ===== verification/Flood_Router.thy ===== *)
theory Flood_Router
  imports Mesh_Packet
begin

text \<open>
  \<open>firmware/Mesh/flood_router.c\<close>: the ring buffer of the last \<open>SEEN_SIZE\<close> (sender, packet id)
  pairs and the forwarding decision. The ring is shown to be a sliding window: the locale
  \<open>dedup_window\<close> states the window laws and derives how long a packet is remembered, and the
  interpretation at the end of the section on the window discharges them for the ring.
\<close>

section \<open>State and operations\<close>

definition SEEN_SIZE :: nat where
  "SEEN_SIZE = 32"

lemma SEEN_SIZE_eq [simp]: "SEEN_SIZE = 32"
  by (simp add: SEEN_SIZE_def)

record seen_t =
  seen_from :: u32
  seen_id :: u32

record flood_state =
  seen_buf :: "seen_t list"
  seen_head :: nat

text \<open>Static storage is zero at reset.\<close>

definition flood_reset :: flood_state where
  "flood_reset = \<lparr>seen_buf = replicate SEEN_SIZE \<lparr>seen_from = 0, seen_id = 0\<rparr>, seen_head = 0\<rparr>"

definition flood_seen :: "u32 \<Rightarrow> u32 \<Rightarrow> flood_state \<Rightarrow> flood_state" where
  "flood_seen frm pid st =
     st\<lparr>seen_buf := (seen_buf st)[seen_head st := \<lparr>seen_from = frm, seen_id = pid\<rparr>],
        seen_head := (seen_head st + 1) mod SEEN_SIZE\<rparr>"

text \<open>The \<open>for\<close> loop over the ring from index \<open>i\<close>.\<close>

function flood_scan :: "flood_state \<Rightarrow> u32 \<Rightarrow> u32 \<Rightarrow> nat \<Rightarrow> bool" where
  "flood_scan st frm pid i =
     (if i < SEEN_SIZE
      then if seen_from (seen_buf st ! i) = frm \<and> seen_id (seen_buf st ! i) = pid then True
           else flood_scan st frm pid (i + 1)
      else False)"
  by pat_completeness auto
termination
  by (relation "measure (\<lambda>(st, frm, pid, i). SEEN_SIZE - i)") auto

declare flood_scan.simps [simp del]

definition flood_was_seen :: "u32 \<Rightarrow> u32 \<Rightarrow> flood_state \<Rightarrow> bool" where
  "flood_was_seen frm pid st = flood_scan st frm pid 0"

definition flood_should_forward :: "flood_state \<Rightarrow> u8 list ptr \<Rightarrow> nat \<Rightarrow> bool" where
  "flood_should_forward st pkt len =
     (case pkt of None \<Rightarrow> False
      | Some buf \<Rightarrow>
          if len < MESH_HEADER_SIZE then False
          else let h = header_of buf in
            if flood_was_seen (from_id h) (packet_id h) st then False
            else if mesh_hop_limit (flags h) = 0 then False
            else True)"

definition forward_header :: "mesh_lora_header \<Rightarrow> u8 \<Rightarrow> mesh_lora_header" where
  "forward_header h my_node_id =
     (let hop = mesh_hop_limit (flags h);
          hop' = (if hop > 0 then hop - 1 else hop)
      in h\<lparr>flags := (flags h AND NOT MESH_HOP_LIMIT_MASK) OR (hop' AND MESH_HOP_LIMIT_MASK),
           relay := my_node_id\<rparr>)"

definition flood_prepare_forward :: "u8 list ptr \<Rightarrow> nat \<Rightarrow> u8 \<Rightarrow> u8 list ptr" where
  "flood_prepare_forward pkt len my_node_id =
     (case pkt of None \<Rightarrow> None
      | Some buf \<Rightarrow>
          if len < MESH_HEADER_SIZE then Some buf
          else mesh_header_to_buf (Some (forward_header (header_of buf) my_node_id)) (Some buf))"

section \<open>The ring is a sliding window\<close>

text \<open>
  The interface the router relies on: a bounded memory of keys, oldest first. Everything about how
  long a key is remembered follows from these laws.
\<close>

locale dedup_window =
  fixes insert_key :: "'k \<Rightarrow> 's \<Rightarrow> 's"
    and member_key :: "'k \<Rightarrow> 's \<Rightarrow> bool"
    and window :: "'s \<Rightarrow> 'k list"
    and inv :: "'s \<Rightarrow> bool"
    and cap :: nat
  assumes cap_pos: "0 < cap"
    and length_window: "inv s \<Longrightarrow> length (window s) = cap"
    and window_insert: "inv s \<Longrightarrow> window (insert_key k s) = tl (window s) @ [k]"
    and inv_insert: "inv s \<Longrightarrow> inv (insert_key k s)"
    and member_iff: "inv s \<Longrightarrow> member_key k s \<longleftrightarrow> k \<in> set (window s)"
begin

lemma inv_fold: "inv s \<Longrightarrow> inv (fold insert_key ks s)"
  by (induction ks arbitrary: s) (auto intro: inv_insert)

lemma window_fold: "inv s \<Longrightarrow> window (fold insert_key ks s) = drop (length ks) (window s @ ks)"
proof (induction ks arbitrary: s)
  case Nil
  then show ?case by simp
next
  case (Cons k ks)
  have ne: "window s \<noteq> []"
    using length_window [OF Cons.prems] cap_pos by auto
  have "window (fold insert_key (k # ks) s) = drop (length ks) ((tl (window s) @ [k]) @ ks)"
    using Cons.IH [OF inv_insert [OF Cons.prems]] by (simp add: window_insert [OF Cons.prems])
  also have "\<dots> = drop (length ks) (tl (window s @ k # ks))"
    using ne by (cases "window s") simp_all
  also have "\<dots> = drop (Suc (length ks)) (window s @ k # ks)"
    by (simp only: drop_Suc)
  finally show ?case by simp
qed

lemma member_fold:
  "inv s \<Longrightarrow> member_key k (fold insert_key ks s) \<longleftrightarrow> k \<in> set (drop (length ks) (window s @ ks))"
  by (simp add: member_iff inv_fold window_fold)

lemma remembered:
  assumes "inv s" and "length ks < cap"
  shows "member_key k (fold insert_key ks (insert_key k s))"
proof -
  have "member_key k (fold insert_key (k # ks) s) \<longleftrightarrow>
      k \<in> set (drop (length (k # ks)) (window s @ k # ks))"
    by (rule member_fold [OF assms(1)])
  moreover have "k \<in> set (drop (length (k # ks)) (window s @ k # ks))"
    using length_window [OF assms(1)] assms(2) by (simp add: drop_append)
  ultimately show ?thesis by simp
qed

lemma forgotten:
  assumes "inv s" and "cap \<le> length ks" and "k \<notin> set ks"
  shows "\<not> member_key k (fold insert_key ks s)"
  using assms length_window [OF assms(1)] by (auto simp: member_fold dest: in_set_dropD)

end

text \<open>The ring's abstraction: the pairs from the oldest (at the head) to the newest.\<close>

definition seen_pair :: "seen_t \<Rightarrow> u32 \<times> u32" where
  "seen_pair e = (seen_from e, seen_id e)"

definition seen_window :: "flood_state \<Rightarrow> (u32 \<times> u32) list" where
  "seen_window st = map seen_pair (rotate (seen_head st) (seen_buf st))"

definition flood_inv :: "flood_state \<Rightarrow> bool" where
  "flood_inv st \<longleftrightarrow> length (seen_buf st) = SEEN_SIZE \<and> seen_head st < SEEN_SIZE"

definition flood_seen_key :: "u32 \<times> u32 \<Rightarrow> flood_state \<Rightarrow> flood_state" where
  "flood_seen_key k = flood_seen (fst k) (snd k)"

definition flood_was_seen_key :: "u32 \<times> u32 \<Rightarrow> flood_state \<Rightarrow> bool" where
  "flood_was_seen_key k = flood_was_seen (fst k) (snd k)"

lemma flood_inv_reset [simp]: "flood_inv flood_reset"
  by (simp add: flood_inv_def flood_reset_def)

lemma flood_inv_seen: "flood_inv st \<Longrightarrow> flood_inv (flood_seen a b st)"
  by (simp add: flood_inv_def flood_seen_def)

lemma flood_scan_iff:
  "flood_scan st a b i \<longleftrightarrow> (\<exists>j \<ge> i. j < SEEN_SIZE \<and> seen_pair (seen_buf st ! j) = (a, b))"
proof (induction st a b i rule: flood_scan.induct)
  case (1 st a b i)
  show ?case
  proof (cases "i < SEEN_SIZE \<and> seen_pair (seen_buf st ! i) \<noteq> (a, b)")
    case True
    then have "flood_scan st a b i \<longleftrightarrow> flood_scan st a b (i + 1)"
      by (subst flood_scan.simps) (auto simp: seen_pair_def)
    also have "\<dots> \<longleftrightarrow> (\<exists>j \<ge> i + 1. j < SEEN_SIZE \<and> seen_pair (seen_buf st ! j) = (a, b))"
      using True by (intro "1.IH") (auto simp: seen_pair_def)
    also have "\<dots> \<longleftrightarrow> (\<exists>j \<ge> i. j < SEEN_SIZE \<and> seen_pair (seen_buf st ! j) = (a, b))"
      using True by (metis Suc_eq_plus1 Suc_leD le_antisym not_less_eq_eq)
    finally show ?thesis .
  next
    case False
    then show ?thesis
      by (subst flood_scan.simps) (auto simp: seen_pair_def)
  qed
qed

lemma set_seen_window: "set (seen_window st) = seen_pair ` set (seen_buf st)"
  by (simp add: seen_window_def)

lemma flood_was_seen_iff:
  assumes "flood_inv st"
  shows "flood_was_seen a b st \<longleftrightarrow> (a, b) \<in> set (seen_window st)"
proof -
  have "flood_was_seen a b st \<longleftrightarrow> (\<exists>j < length (seen_buf st). seen_pair (seen_buf st ! j) = (a, b))"
    using assms by (simp add: flood_was_seen_def flood_scan_iff flood_inv_def)
  also have "\<dots> \<longleftrightarrow> (a, b) \<in> set (map seen_pair (seen_buf st))"
    unfolding in_set_conv_nth by auto
  finally show ?thesis by (simp add: set_seen_window)
qed

lemma rotate_update_head:
  assumes "n < length xs"
  shows "rotate (Suc n) (xs[n := x]) = tl (rotate n xs) @ [x]"
proof -
  have "rotate n (xs[n := x]) = x # tl (rotate n xs)"
    using assms
    by (simp add: rotate_drop_take drop_update_swap Cons_nth_drop_Suc [symmetric] upd_conv_take_nth_drop
        tl_append2)
  then show ?thesis
    by (simp add: rotate1_def)
qed

lemma rotate_mod_length:
  "length xs = k \<Longrightarrow> rotate (n mod k) xs = rotate n xs"
  using rotate_conv_mod [of n xs] by simp

lemma seen_window_insert:
  assumes "flood_inv st"
  shows "seen_window (flood_seen a b st) = tl (seen_window st) @ [(a, b)]"
proof -
  let ?e = "\<lparr>seen_from = a, seen_id = b\<rparr>"
  have "rotate ((seen_head st + 1) mod 32) ((seen_buf st)[seen_head st := ?e]) =
      tl (rotate (seen_head st) (seen_buf st)) @ [?e]"
    using assms
    by (simp add: flood_inv_def rotate_mod_length rotate_update_head del: rotate_Suc)
  then show ?thesis
    by (simp add: seen_window_def flood_seen_def seen_pair_def map_tl)
qed

lemma length_seen_window: "flood_inv st \<Longrightarrow> length (seen_window st) = SEEN_SIZE"
  by (simp add: seen_window_def flood_inv_def)

interpretation seen_ring: dedup_window flood_seen_key flood_was_seen_key seen_window flood_inv SEEN_SIZE
proof
  fix k :: "u32 \<times> u32" and s
  show "0 < SEEN_SIZE" by simp
  assume s: "flood_inv s"
  show "length (seen_window s) = SEEN_SIZE"
    by (rule length_seen_window [OF s])
  show "seen_window (flood_seen_key k s) = tl (seen_window s) @ [k]"
    by (simp add: flood_seen_key_def seen_window_insert [OF s])
  show "flood_inv (flood_seen_key k s)"
    by (simp add: flood_seen_key_def flood_inv_seen [OF s])
  show "flood_was_seen_key k s \<longleftrightarrow> k \<in> set (seen_window s)"
    by (simp add: flood_was_seen_key_def flood_was_seen_iff [OF s])
qed

lemma seen_window_reset [simp]: "seen_window flood_reset = replicate 32 (0, 0)"
  by (simp add: seen_window_def flood_reset_def seen_pair_def)

text \<open>
  C29. From reset, after any sequence of packets was remembered, \<open>flood_was_seen\<close> answers exactly
  whether the pair is among the last 32 entries of that sequence, where the zeroed ring counts as 32
  entries (0, 0) before it.
\<close>

theorem flood_was_seen_last_32:
  "flood_was_seen a b (fold flood_seen_key ks flood_reset) \<longleftrightarrow>
     (a, b) \<in> set (drop (length ks) (replicate 32 (0, 0) @ ks))"
  using seen_ring.member_fold [OF flood_inv_reset, of "(a, b)" ks]
  by (simp add: flood_was_seen_key_def)

text \<open>
  A packet that was just remembered is recognised until 32 further packets have been, whatever
  they are, and is forgotten once 32 or more packets other than it have been.
\<close>

lemma flood_dedup_window:
  assumes "flood_inv st"
  shows "(length ks < 32 \<longrightarrow> flood_was_seen a b (fold flood_seen_key ks (flood_seen a b st))) \<and>
    (32 \<le> length ks \<and> (a, b) \<notin> set ks \<longrightarrow> \<not> flood_was_seen a b (fold flood_seen_key ks st))"
  using seen_ring.remembered [OF assms, of ks "(a, b)"] seen_ring.forgotten [OF assms, of ks "(a, b)"]
  by (simp add: flood_was_seen_key_def flood_seen_key_def)

section \<open>Forwarding\<close>

lemma hop_mask_conv: "MESH_HOP_LIMIT_MASK = mask 4"
  by (simp add: MESH_HOP_LIMIT_MASK_def mask_eq_exp_minus_1)

lemma hop_flags_low:
  "mesh_hop_limit ((fl AND NOT MESH_HOP_LIMIT_MASK) OR (v AND MESH_HOP_LIMIT_MASK)) = mesh_hop_limit v"
  unfolding mesh_hop_limit_def by (rule bit_word_eqI) (auto simp: bit_and_iff bit_or_iff bit_not_iff)

lemma hop_flags_high:
  "((fl AND NOT MESH_HOP_LIMIT_MASK) OR (v AND MESH_HOP_LIMIT_MASK)) AND NOT MESH_HOP_LIMIT_MASK =
     fl AND NOT MESH_HOP_LIMIT_MASK"
  by (rule bit_word_eqI) (auto simp: bit_and_iff bit_or_iff bit_not_iff)

lemma mesh_hop_limit_small:
  assumes "unat v \<le> 15"
  shows "mesh_hop_limit v = v"
proof -
  have "unat (take_bit 4 v) = unat v"
    using assms by (simp add: unsigned_take_bit_eq take_bit_nat_eq_self)
  then show ?thesis
    by (simp add: mesh_hop_limit_def hop_mask_conv word_unat_eq_iff flip: take_bit_eq_mask)
qed

lemma unat_pred: "(v :: u8) \<noteq> 0 \<Longrightarrow> unat (v - 1) = unat v - 1"
  by (simp add: unat_minus_one)

text \<open>The header a forwarded copy carries: one hop fewer, our relay byte, all else as received.\<close>

lemma forward_header_fields:
  "to_id (forward_header h n) = to_id h" "from_id (forward_header h n) = from_id h"
  "packet_id (forward_header h n) = packet_id h" "channel (forward_header h n) = channel h"
  "next_hop (forward_header h n) = next_hop h" "relay (forward_header h n) = n"
  "flags (forward_header h n) AND NOT MESH_HOP_LIMIT_MASK = flags h AND NOT MESH_HOP_LIMIT_MASK"
  by (simp_all add: forward_header_def Let_def hop_flags_high)

lemma forward_header_hop:
  "unat (mesh_hop_limit (flags (forward_header h n))) = unat (mesh_hop_limit (flags h)) - 1"
proof -
  let ?m = "mesh_hop_limit (flags h)"
  let ?v = "if ?m > 0 then ?m - 1 else ?m"
  have "flags (forward_header h n) =
      (flags h AND NOT MESH_HOP_LIMIT_MASK) OR (?v AND MESH_HOP_LIMIT_MASK)"
    by (simp add: forward_header_def Let_def)
  then have "mesh_hop_limit (flags (forward_header h n)) = mesh_hop_limit ?v"
    by (simp only: hop_flags_low)
  moreover have "unat ?v = unat ?m - 1"
    by (cases "?m = 0") (simp_all add: unat_pred word_gt_0)
  moreover have "mesh_hop_limit ?v = ?v"
    using mesh_hop_limit_le [of "flags h"] calculation(2) by (intro mesh_hop_limit_small) linarith
  ultimately show ?thesis by simp
qed

lemma flood_prepare_forward_eq:
  "16 \<le> len \<Longrightarrow> flood_prepare_forward (Some buf) len n =
     Some (header_bytes (forward_header (header_of buf) n) @ drop 16 buf)"
  by (simp add: flood_prepare_forward_def mesh_header_to_buf_def memcpy_at_def)

lemma flood_should_forward_iff:
  "flood_should_forward st (Some buf) len \<longleftrightarrow>
     16 \<le> len \<and> \<not> flood_was_seen (from_id (header_of buf)) (packet_id (header_of buf)) st \<and>
     0 < unat (mesh_hop_limit (flags (header_of buf)))"
  by (simp add: flood_should_forward_def Let_def unat_gt_0)

text \<open>
  C30. A packet is forwarded exactly when it holds a header, was not seen and has hops left; the
  forwarded copy differs from the received one only in its relay byte and in the low four bits of
  its flags, which hold one hop fewer; every byte after the header is kept.
\<close>

theorem flood_forward_correct:
  assumes "flood_should_forward st (Some buf) len"
  shows "\<exists>buf'. flood_prepare_forward (Some buf) len n = Some buf' \<and>
    (16 \<le> length buf \<longrightarrow> length buf' = length buf) \<and> drop 16 buf' = drop 16 buf \<and>
    unat (mesh_hop_limit (flags (header_of buf'))) + 1 = unat (mesh_hop_limit (flags (header_of buf))) \<and>
    (\<exists>fl. fl AND NOT MESH_HOP_LIMIT_MASK = flags (header_of buf) AND NOT MESH_HOP_LIMIT_MASK \<and>
       header_of buf' = (header_of buf)\<lparr>flags := fl, relay := n\<rparr>)"
proof -
  let ?h = "forward_header (header_of buf) n"
  let ?buf = "header_bytes ?h @ drop 16 buf"
  from assms have len: "16 \<le> len" and hop: "0 < unat (mesh_hop_limit (flags (header_of buf)))"
    by (simp_all add: flood_should_forward_iff)
  have "?h = (header_of buf)\<lparr>flags := flags ?h, relay := n\<rparr>"
    by (simp add: forward_header_fields)
  moreover have "unat (mesh_hop_limit (flags ?h)) + 1 = unat (mesh_hop_limit (flags (header_of buf)))"
    using hop by (simp add: forward_header_hop)
  ultimately show ?thesis
    using len forward_header_fields(7) [of "header_of buf" n]
    by (intro exI [of _ ?buf]) (simp add: flood_prepare_forward_eq, blast)
qed

theorem flood_forward_correct_witness:
  "\<exists>buf'. flood_prepare_forward (Some (replicate 20 (3 :: u8))) 20 5 = Some buf' \<and>
    unat (mesh_hop_limit (flags (header_of buf'))) + 1 = 3"
proof -
  have h: "from_id (header_of (replicate 20 3)) \<noteq> 0" "mesh_hop_limit (flags (header_of (replicate 20 3))) = 3"
    by (simp_all add: header_of_def le32_def mesh_hop_limit_def MESH_HOP_LIMIT_MASK_def)
  have "flood_should_forward flood_reset (Some (replicate 20 3)) 20"
    using h by (simp add: flood_should_forward_iff flood_was_seen_iff)
  from flood_forward_correct [OF this, of 5] show ?thesis
    using h by auto
qed

end
