(* ===== verification/Pb_Data.thy ===== *)
theory Pb_Data
  imports Prelude
begin

text \<open>
  The minimal protobuf coder of \<open>firmware/Core/main_loop.c\<close> for the Meshtastic \<open>Data\<close> message:
  \<open>pb_encode_data\<close> and \<open>pb_decode_data\<close>. Positions and lengths are the code's \<open>uint16_t\<close>, kept as
  naturals with the wrap-around written out; the varint accumulator is a 32-bit word whose shift
  amount the code does not bound. The decoder's outer loop need not end: it is a partial function,
  where \<open>None\<close> is "never returns".
\<close>

section \<open>Encoding\<close>

text \<open>The new contents of \<open>out\<close> and the returned length; 0 is the error return.\<close>

definition pb_encode_data :: "u8 list \<Rightarrow> nat \<Rightarrow> u8 \<Rightarrow> u8 list \<Rightarrow> nat \<Rightarrow> u8 list \<times> nat" where
  "pb_encode_data out max_out portnum payload payload_len =
     (let need = (2 + 2 + payload_len) mod 65536 in
      if need > max_out \<or> payload_len > 127 then (out, 0)
      else (memcpy_at out 0 ([0x08, portnum, 0x12, of_nat payload_len] @ take payload_len payload),
            (4 + payload_len) mod 65536))"

section \<open>Decoding\<close>

text \<open>The varint loop: \<open>while (pos < len)\<close> with the accumulator and the shift.\<close>

function pb_varint :: "u8 list \<Rightarrow> nat \<Rightarrow> nat \<Rightarrow> u32 \<Rightarrow> nat \<Rightarrow> (u32 \<times> nat) run" where
  "pb_varint data len pos val shift =
     (if pos < len then
        let b = data ! pos in
        if shift \<ge> 32 then Inl Shift_UB
        else let val' = val OR push_bit shift (ucast (b AND 0x7F)) in
          if b AND 0x80 = 0 then Inr (val', pos + 1)
          else pb_varint data len (pos + 1) val' (shift + 7)
      else Inr (val, pos))"
  by pat_completeness auto
termination
  by (relation "measure (\<lambda>(data, len, pos, val, shift). len - pos)") auto

declare pb_varint.simps [simp del]

text \<open>The out-parameters; \<open>pb_payload\<close> is the offset of \<open>*payload\<close> in \<open>data\<close>.\<close>

record pb_out =
  pb_portnum :: u8
  pb_payload :: "nat ptr"
  pb_payload_len :: nat

definition pb_out_init :: pb_out where
  "pb_out_init = \<lparr>pb_portnum = 0, pb_payload = NULL, pb_payload_len = 0\<rparr>"

definition pb_wire :: "u8 \<Rightarrow> u8" where
  "pb_wire tag = tag AND 0x07"

definition pb_fieldno :: "u8 \<Rightarrow> u8" where
  "pb_fieldno tag = drop_bit 3 tag"

text \<open>
  One iteration of the outer loop at \<open>pos < len\<close>: a fault, or \<open>None\<close> for \<open>break\<close>, or the next
  position and out-parameters.
\<close>

definition pb_field :: "u8 list \<Rightarrow> nat \<Rightarrow> nat \<Rightarrow> pb_out \<Rightarrow> (nat \<times> pb_out) option run" where
  "pb_field data len pos st =
     (let tag = data ! pos; pos1 = pos + 1; field = pb_fieldno tag; wire = pb_wire tag in
      if wire = 0 then
        run_bind (pb_varint data len pos1 0 0)
          (\<lambda>(val, pos2). Inr (Some (pos2, if field = 1 then st\<lparr>pb_portnum := ucast val\<rparr> else st)))
      else if wire = 2 then
        (if pos1 \<ge> len then Inr None
         else run_bind (pb_varint data len pos1 0 0)
           (\<lambda>(flen, pos2).
              Inr (Some ((pos2 + unat flen) mod 65536,
                if field = 2 \<and> unat flen \<le> len - pos2
                then st\<lparr>pb_payload := Some pos2, pb_payload_len := unat flen mod 65536\<rparr> else st))))
      else if wire = 5 then Inr (Some ((pos1 + 4) mod 65536, st))
      else if wire = 1 then Inr (Some ((pos1 + 8) mod 65536, st))
      else Inr None)"

partial_function (option) pb_loop :: "u8 list \<Rightarrow> nat \<Rightarrow> nat \<Rightarrow> pb_out \<Rightarrow> pb_out run option" where
  "pb_loop data len pos st =
     (if pos < len then
        (case pb_field data len pos st of
           Inl e \<Rightarrow> Some (Inl e)
         | Inr next \<Rightarrow>
             (case next of None \<Rightarrow> Some (Inr st)
              | Some (pos', st') \<Rightarrow> pb_loop data len pos' st'))
      else Some (Inr st))"

text \<open>The return value (\<open>*payload != NULL\<close>) and the out-parameters, or the way it fails to return.\<close>

definition pb_decode_data :: "u8 list \<Rightarrow> nat \<Rightarrow> (bool \<times> pb_out) run" where
  "pb_decode_data data len =
     (case pb_loop data len 0 pb_out_init of
        None \<Rightarrow> Inl Hang
      | Some r \<Rightarrow> run_bind r (\<lambda>st. Inr (pb_payload st \<noteq> NULL, st)))"

section \<open>Varints\<close>

lemma pb_varint_end: "\<not> pos < len \<Longrightarrow> pb_varint data len pos val shift = Inr (val, pos)"
  by (subst pb_varint.simps) simp

lemma pb_varint_last:
  "pos < len \<Longrightarrow> shift < 32 \<Longrightarrow> data ! pos AND 0x80 = 0 \<Longrightarrow>
     pb_varint data len pos val shift = Inr (val OR push_bit shift (ucast (data ! pos AND 0x7F)), pos + 1)"
  by (subst pb_varint.simps) (simp add: Let_def)

lemma pb_varint_more:
  "pos < len \<Longrightarrow> shift < 32 \<Longrightarrow> data ! pos AND 0x80 \<noteq> 0 \<Longrightarrow>
     pb_varint data len pos val shift =
       pb_varint data len (pos + 1) (val OR push_bit shift (ucast (data ! pos AND 0x7F))) (shift + 7)"
  by (subst pb_varint.simps) (simp add: Let_def)

lemma pb_varint_overshift:
  "pos < len \<Longrightarrow> 32 \<le> shift \<Longrightarrow> pb_varint data len pos val shift = Inl Shift_UB"
  by (subst pb_varint.simps) (simp add: Let_def)

lemmas pb_varint_steps = pb_varint_end pb_varint_last pb_varint_more pb_varint_overshift

lemma pb_varint_pos:
  "pb_varint data len pos val shift = Inr (v, q) \<Longrightarrow> pos \<le> len \<Longrightarrow> pos \<le> q \<and> q \<le> len"
proof (induction data len pos val shift rule: pb_varint.induct)
  case (1 data len pos val shift)
  show ?case
  proof (cases "pos < len \<and> shift < 32 \<and> data ! pos AND 0x80 \<noteq> 0")
    case True
    then show ?thesis
      using "1.IH" [OF _ refl _ refl] "1.prems" by (simp add: pb_varint_more)
  next
    case False
    then show ?thesis
      using "1.prems"
      by (cases "pos < len"; cases "shift < 32") (auto simp: pb_varint_steps)
  qed
qed

lemma pb_varint_not_Hang: "pb_varint data len pos val shift \<noteq> Inl Hang"
proof (induction data len pos val shift rule: pb_varint.induct)
  case (1 data len pos val shift)
  show ?case
  proof (cases "pos < len \<and> shift < 32 \<and> data ! pos AND 0x80 \<noteq> 0")
    case True
    then show ?thesis
      using "1.IH" [OF _ refl _ refl] by (simp add: pb_varint_more)
  next
    case False
    then show ?thesis
      by (cases "pos < len"; cases "shift < 32") (auto simp: pb_varint_steps)
  qed
qed

lemma small_byte:
  assumes "unat (b :: u8) < 128"
  shows "b AND 0x80 = 0" and "b AND 0x7F = b"
proof -
  have "\<not> bit (unat b) 7"
    using assms by (simp add: bit_iff_odd)
  then have nb: "\<not> bit b 7"
    by (simp add: bit_unsigned_iff)
  have "b AND 2 ^ 7 = 0"
    using nb by (simp only: and_exp_eq_0_iff_not_bit) simp
  then show "b AND 0x80 = 0" by simp
  have "take_bit 7 b = b"
    using assms by (simp add: word_unat_eq_iff unsigned_take_bit_eq take_bit_nat_eq_self)
  moreover have "(0x7F :: u8) = mask 7"
    by (simp add: mask_eq_exp_minus_1)
  ultimately show "b AND 0x7F = b"
    by (simp only: take_bit_eq_mask)
qed

text \<open>A varint of one byte.\<close>

lemma pb_varint_single:
  assumes "pos < len" and "unat (data ! pos) < 128"
  shows "pb_varint data len pos 0 0 = Inr (ucast (data ! pos), pos + 1)"
  using assms by (simp add: pb_varint_last small_byte)

section \<open>The loop\<close>

lemma pb_loop_end: "\<not> pos < len \<Longrightarrow> pb_loop data len pos st = Some (Inr st)"
  by (subst pb_loop.simps) simp

lemma pb_loop_next:
  "pos < len \<Longrightarrow> pb_field data len pos st = Inr (Some (pos', st')) \<Longrightarrow>
     pb_loop data len pos st = pb_loop data len pos' st'"
  by (subst pb_loop.simps) simp

lemma pb_loop_break:
  "pos < len \<Longrightarrow> pb_field data len pos st = Inr None \<Longrightarrow> pb_loop data len pos st = Some (Inr st)"
  by (subst pb_loop.simps) simp

lemma pb_loop_fault:
  "pos < len \<Longrightarrow> pb_field data len pos st = Inl e \<Longrightarrow> pb_loop data len pos st = Some (Inl e)"
  by (subst pb_loop.simps) simp

text \<open>What every returned result satisfies.\<close>

definition pb_out_ok :: "nat \<Rightarrow> pb_out \<Rightarrow> bool" where
  "pb_out_ok len st \<longleftrightarrow>
     (case pb_payload st of None \<Rightarrow> True | Some off \<Rightarrow> off + pb_payload_len st \<le> len)"

lemma pb_field_ok:
  assumes "pb_field data len pos st = Inr (Some (pos', st'))" and "pb_out_ok len st" and "pos < len"
  shows "pb_out_ok len st'"
proof -
  have "off + flen mod 65536 \<le> len" if "flen \<le> len - off" "off \<le> len" for off flen :: nat
    using that mod_less_eq_dividend [of flen 65536] by linarith
  then show ?thesis
    using assms pb_varint_pos [of data len "pos + 1" 0 0]
    by (auto simp: pb_field_def Let_def run_bind_eq_Inr pb_out_ok_def
        split: if_splits prod.splits option.splits)
qed

lemma pb_loop_ok:
  assumes "pb_loop data len pos st = Some (Inr st')" and "pb_out_ok len st"
  shows "pb_out_ok len st'"
proof -
  have "\<forall>st'. r = Inr st' \<longrightarrow> pb_out_ok len st \<longrightarrow> pb_out_ok len st'"
    if "pb_loop data len pos st = Some r" for r
  proof (rule pb_loop.raw_induct [where
        P = "\<lambda>data len pos st r. \<forall>st'. r = Inr st' \<longrightarrow> pb_out_ok len st \<longrightarrow> pb_out_ok len st'", OF _ that])
    fix f :: "u8 list \<Rightarrow> nat \<Rightarrow> nat \<Rightarrow> pb_out \<Rightarrow> pb_out run option" and data len pos st r
    assume IH: "\<And>data len pos st r. f data len pos st = Some r \<Longrightarrow>
        \<forall>st'. r = Inr st' \<longrightarrow> pb_out_ok len st \<longrightarrow> pb_out_ok len st'"
      and eq: "(if pos < len then
        (case pb_field data len pos st of
           Inl e \<Rightarrow> Some (Inl e)
         | Inr next \<Rightarrow>
             (case next of None \<Rightarrow> Some (Inr st)
              | Some (pos', st') \<Rightarrow> f data len pos' st'))
      else Some (Inr st)) = Some r"
    show "\<forall>st'. r = Inr st' \<longrightarrow> pb_out_ok len st \<longrightarrow> pb_out_ok len st'"
    proof (cases "pos < len \<and> (\<exists>p s. pb_field data len pos st = Inr (Some (p, s)))")
      case True
      then obtain p s where s: "pos < len" "pb_field data len pos st = Inr (Some (p, s))" by blast
      with eq have "f data len p s = Some r" by simp
      from IH [OF this] pb_field_ok [OF s(2) _ s(1)] show ?thesis by blast
    next
      case False
      with eq show ?thesis
        by (auto split: if_splits sum.splits option.splits)
    qed
  qed
  with assms show ?thesis by blast
qed

lemma pb_payload_bound:
  assumes "pb_decode_data data len = Inr (True, st)"
  shows "\<exists>off. pb_payload st = Some off \<and> off + pb_payload_len st \<le> len"
proof -
  from assms obtain r where r: "pb_loop data len 0 pb_out_init = Some r"
      "run_bind r (\<lambda>st. Inr (pb_payload st \<noteq> NULL, st)) = Inr (True, st)"
    by (auto simp: pb_decode_data_def split: option.splits)
  then have "r = Inr st" "pb_payload st \<noteq> NULL"
    by (auto simp: run_bind_eq_Inr)
  have "pb_out_ok len pb_out_init"
    by (simp add: pb_out_ok_def pb_out_init_def)
  with r(1) \<open>r = Inr st\<close> have "pb_out_ok len st"
    by (simp add: pb_loop_ok)
  then show ?thesis
    using \<open>pb_payload st \<noteq> NULL\<close> by (auto simp: pb_out_ok_def)
qed

text \<open>
  C27. Whatever the bytes are, when the decoder returns a payload it lies inside the decoded data.
\<close>

theorem pb_decode_payload_in_bounds:
  assumes "pb_decode_data data len = Inr (True, st)"
  shows "\<exists>off. pb_payload st = Some off \<and> off + pb_payload_len st \<le> len"
  by (rule pb_payload_bound [OF assms])

theorem pb_decode_payload_in_bounds_witness:
  "\<exists>st off. pb_decode_data [0x12, 2, 65, 66] 4 = Inr (True, st) \<and> pb_payload st = Some off \<and>
     off + pb_payload_len st \<le> 4"
proof -
  have f: "pb_field [0x12, 2, 65, 66] 4 0 pb_out_init = Inr (Some (4, pb_out_init\<lparr>pb_payload := Some 2, pb_payload_len := 2\<rparr>))"
    by (simp add: pb_field_def Let_def pb_wire_def pb_fieldno_def pb_varint_last)
  have "pb_decode_data [0x12, 2, 65, 66] 4 =
      Inr (True, pb_out_init\<lparr>pb_payload := Some 2, pb_payload_len := 2\<rparr>)"
    by (simp add: pb_decode_data_def pb_loop_next [OF _ f] pb_loop_end)
  with pb_decode_payload_in_bounds [OF this] show ?thesis by blast
qed

section \<open>Round trip\<close>

lemma pb_encode_out:
  assumes "payload_len \<le> 127" and "4 + payload_len \<le> max_out"
  shows "pb_encode_data out max_out portnum payload payload_len =
    (memcpy_at out 0 ([0x08, portnum, 0x12, of_nat payload_len] @ take payload_len payload), 4 + payload_len)"
  using assms by (simp add: pb_encode_data_def)

text \<open>The encoded message: a port number below 128 and at most 127 payload bytes.\<close>

definition pb_message :: "u8 \<Rightarrow> u8 list \<Rightarrow> u8 list" where
  "pb_message portnum payload = [0x08, portnum, 0x12, of_nat (length payload)] @ payload"

lemma length_pb_message [simp]: "length (pb_message portnum payload) = 4 + length payload"
  by (simp add: pb_message_def)

lemma pb_decode_message:
  assumes "length payload \<le> 127" and "unat portnum < 128"
  shows "pb_decode_data (pb_message portnum payload @ rest) (4 + length payload) =
    Inr (True, \<lparr>pb_portnum = portnum, pb_payload = Some 4, pb_payload_len = length payload\<rparr>)"
proof -
  let ?d = "pb_message portnum payload @ rest"
  let ?n = "4 + length payload"
  let ?s1 = "pb_out_init\<lparr>pb_portnum := portnum\<rparr>"
  let ?s2 = "?s1\<lparr>pb_payload := Some 4, pb_payload_len := length payload\<rparr>"
  have lp: "unat (of_nat (length payload) :: u8) = length payload"
    using assms(1) by (simp add: unsigned_of_nat take_bit_nat_eq_self)
  have lp32: "unat (ucast (of_nat (length payload) :: u8) :: u32) = length payload"
    using assms(1) by (simp add: unsigned_ucast_eq lp take_bit_nat_eq_self)
  have d: "?d ! 0 = 0x08" "?d ! 1 = portnum" "?d ! 2 = 0x12" "?d ! 3 = of_nat (length payload)"
    by (simp_all add: pb_message_def)
  have v1: "pb_varint ?d ?n 1 0 0 = Inr (ucast portnum, 2)"
    using pb_varint_single [of 1 ?n ?d] d assms(2) by simp
  have v2: "pb_varint ?d ?n 3 0 0 = Inr (ucast (of_nat (length payload) :: u8), 4)"
    using pb_varint_single [of 3 ?n ?d] d lp assms(1) by simp
  have "(ucast (ucast portnum :: u32) :: u8) = portnum"
    by (rule bit_word_eqI) (auto simp: bit_unsigned_iff)
  then have f1: "pb_field ?d ?n 0 pb_out_init = Inr (Some (2, ?s1))"
    using d v1 by (simp add: pb_field_def Let_def pb_wire_def pb_fieldno_def)
  have f2: "pb_field ?d ?n 2 ?s1 = Inr (Some (?n, ?s2))"
    using d v2 lp32 assms(1) by (simp add: pb_field_def Let_def pb_wire_def pb_fieldno_def)
  have "pb_loop ?d ?n 0 pb_out_init = Some (Inr ?s2)"
    by (simp add: pb_loop_next [OF _ f1] pb_loop_next [OF _ f2] pb_loop_end)
  then show ?thesis
    by (simp add: pb_decode_data_def pb_out_init_def)
qed

text \<open>
  C26. Decoding what was encoded gives the port number and the payload back, for every payload of at
  most 127 bytes and every port number below 128, whatever else the buffer holds.
\<close>

theorem pb_roundtrip:
  assumes "length payload \<le> 127" and "4 + length payload \<le> length out" and "unat portnum < 128"
    and "pb_encode_data out (length out) portnum payload (length payload) = (out', n)"
  shows "\<exists>st. pb_decode_data out' n = Inr (True, st) \<and> pb_portnum st = portnum \<and>
    (\<exists>off. pb_payload st = Some off \<and> bytes_at out' off (pb_payload_len st) = payload)"
proof -
  have o: "out' = pb_message portnum payload @ drop (4 + length payload) out" and n: "n = 4 + length payload"
    using assms(4) pb_encode_out [OF assms(1,2)] by (auto simp: pb_message_def memcpy_at_def numeral_eq_Suc)
  show ?thesis
    using pb_decode_message [OF assms(1,3)]
    unfolding o n by (simp add: bytes_at_def pb_message_def)
qed

theorem pb_roundtrip_witness:
  "\<exists>out' st. pb_encode_data (replicate 240 0) 240 1 [104, 105] 2 = (out', 6) \<and>
     pb_decode_data out' 6 = Inr (True, st) \<and> pb_portnum st = 1"
proof -
  have "pb_encode_data (replicate 240 0) (length (replicate 240 (0 :: u8))) 1 [104, 105] (length [104, 105 :: u8]) =
      (memcpy_at (replicate 240 0) 0 [0x08, 1, 0x12, 2, 104, 105], 6)"
    by (simp add: pb_encode_data_def)
  from pb_roundtrip [OF _ _ _ this] show ?thesis
    by (fastforce simp: pb_encode_data_def)
qed

text \<open>
  A payload of more than 127 bytes, or one that does not fit the output, is refused with length
  0 and the output untouched.
\<close>

lemma pb_encode_refuses:
  assumes "127 < payload_len \<or> max_out < 4 + payload_len" and "payload_len < 65536"
  shows "pb_encode_data out max_out portnum payload payload_len = (out, 0)"
  using assms by (cases "127 < payload_len") (auto simp: pb_encode_data_def)

section \<open>Termination, and its failure\<close>

text \<open>
  The declared end of a length-delimited field whose tag is at \<open>p\<close>, before it is cut to 16 bits.
\<close>

definition pb_declared_end :: "u8 list \<Rightarrow> nat \<Rightarrow> nat \<Rightarrow> nat option" where
  "pb_declared_end data len p =
     (if pb_wire (data ! p) = 2 then
        (case pb_varint data len (p + 1) 0 0 of Inl _ \<Rightarrow> None | Inr (flen, q) \<Rightarrow> Some (q + unat flen))
      else None)"

lemma pb_field_advances:
  assumes "pb_field data len p st = Inr (Some (p', st'))" and "p < len" and "len \<le> 65527"
    and "\<And>q. pb_declared_end data len p = Some q \<Longrightarrow> q < 65536"
  shows "p < p'"
  using assms pb_varint_pos [of data len "p + 1" 0 0]
  by (auto simp: pb_field_def Let_def run_bind_eq_Inr pb_declared_end_def
      split: if_splits prod.splits sum.splits)

lemma pb_field_not_Hang: "pb_field data len p st \<noteq> Inl Hang"
  using pb_varint_not_Hang [of data len "p + 1" 0 0]
  by (auto simp: pb_field_def Let_def run_bind_def split: sum.splits)

lemma pb_loop_terminates:
  assumes "len \<le> 65527" and "\<And>p q. p < len \<Longrightarrow> pb_declared_end data len p = Some q \<Longrightarrow> q < 65536"
  shows "\<exists>r. pb_loop data len pos st = Some r \<and> r \<noteq> Inl Hang"
proof (induction "len - pos" arbitrary: pos st rule: less_induct)
  case less
  show ?case
  proof (cases "pos < len")
    case False
    then show ?thesis by (simp add: pb_loop_end)
  next
    case True
    show ?thesis
    proof (cases "pb_field data len pos st")
      case (Inl e)
      then show ?thesis
        using True pb_field_not_Hang [of data len pos st] by (simp add: pb_loop_fault)
    next
      case (Inr nx)
      show ?thesis
      proof (cases nx)
        case None
        then show ?thesis using True Inr by (simp add: pb_loop_break)
      next
        case (Some ps)
        then obtain p s where ps: "pb_field data len pos st = Inr (Some (p, s))"
          using Inr by (cases ps) auto
        have "pos < p"
          by (rule pb_field_advances [OF ps True assms(1)]) (rule assms(2) [OF True])
        then show ?thesis
          using less [of p s] True by (simp add: pb_loop_next [OF True ps])
      qed
    qed
  qed
qed

text \<open>
  C28. The decoder hangs only on data with a length-delimited field whose declared end is 65536 or
  more, that is, one whose length carries the 16-bit position past its range: on all other data it
  returns.
\<close>

theorem pb_decode_hang_only_on_wrap:
  assumes "pb_decode_data data len = Inl Hang" and "len \<le> 65527"
  shows "\<exists>p q. p < len \<and> pb_declared_end data len p = Some q \<and> 65536 \<le> q"
proof (rule ccontr)
  assume "\<not> ?thesis"
  then have "\<exists>r. pb_loop data len 0 pb_out_init = Some r \<and> r \<noteq> Inl Hang"
    by (intro pb_loop_terminates [OF assms(2)]) (meson not_le)
  with assms(1) show False
    by (auto simp: pb_decode_data_def run_bind_def split: sum.splits)
qed

lemma pb_loop_cycle:
  assumes "0 < len" and "\<And>st. \<exists>st'. pb_field data len 0 st = Inr (Some (0, st'))"
  shows "pb_loop data len 0 st = None"
proof -
  have np: "pos \<noteq> 0 \<or> d \<noteq> data \<or> l \<noteq> len" if "pb_loop d l pos st = Some r" for d l pos st r
  proof (rule pb_loop.raw_induct [where P = "\<lambda>d l pos st r. pos \<noteq> 0 \<or> d \<noteq> data \<or> l \<noteq> len", OF _ that])
    fix f :: "u8 list \<Rightarrow> nat \<Rightarrow> nat \<Rightarrow> pb_out \<Rightarrow> pb_out run option" and d l pos st r
    assume IH: "\<And>d l pos st r. f d l pos st = Some r \<Longrightarrow> pos \<noteq> 0 \<or> d \<noteq> data \<or> l \<noteq> len"
      and eq: "(if pos < l then
        (case pb_field d l pos st of
           Inl e \<Rightarrow> Some (Inl e)
         | Inr next \<Rightarrow>
             (case next of None \<Rightarrow> Some (Inr st)
              | Some (pos', st') \<Rightarrow> f d l pos' st'))
      else Some (Inr st)) = Some r"
    show "pos \<noteq> 0 \<or> d \<noteq> data \<or> l \<noteq> len"
    proof (rule ccontr)
      assume "\<not> ?thesis"
      then have "pos = 0" "d = data" "l = len" by simp_all
      moreover obtain st' where "pb_field data len 0 st = Inr (Some (0, st'))"
        using assms(2) by blast
      ultimately have "f data len 0 st' = Some r"
        using eq assms(1) by simp
      from IH [OF this] show False by simp
    qed
  qed
  show ?thesis
  proof (cases "pb_loop data len 0 st")
    case (Some r)
    from np [OF this] show ?thesis by simp
  qed simp
qed

lemma pb_decode_hang_prefix:
  "pb_decode_data ([0x12, 0xFC, 0xFF, 0x03] @ rest) (4 + length rest) = Inl Hang"
proof -
  let ?d = "[0x12, 0xFC, 0xFF, 0x03] @ rest :: u8 list"
  let ?n = "4 + length rest"
  have v: "pb_varint ?d ?n 1 0 0 = Inr (65532, 4)"
    by (simp add: pb_varint_more pb_varint_last)
  have "\<exists>st'. pb_field ?d ?n 0 st = Inr (Some (0, st'))" for st
    using v by (simp add: pb_field_def Let_def pb_wire_def pb_fieldno_def)
  then have "pb_loop ?d ?n 0 pb_out_init = None"
    by (intro pb_loop_cycle) simp_all
  then show ?thesis
    by (simp add: pb_decode_data_def)
qed

theorem pb_decode_hang_only_on_wrap_witness:
  "\<exists>p q. p < 4 \<and> pb_declared_end [0x12, 0xFC, 0xFF, 0x03] 4 p = Some q \<and> 65536 \<le> q"
proof -
  have "\<exists>st'. pb_field [0x12, 0xFC, 0xFF, 0x03] 4 0 st = Inr (Some (0, st'))" for st
    by (simp add: pb_field_def Let_def pb_wire_def pb_fieldno_def pb_varint_more pb_varint_last)
  then have "pb_loop [0x12, 0xFC, 0xFF, 0x03] 4 0 pb_out_init = None"
    by (intro pb_loop_cycle) simp_all
  then have "pb_decode_data [0x12, 0xFC, 0xFF, 0x03] 4 = Inl Hang"
    by (simp add: pb_decode_data_def)
  from pb_decode_hang_only_on_wrap [OF this] show ?thesis by simp
qed

text \<open>
  A varint with five continuation bytes before a further byte shifts a 32-bit value by 35, which
  C leaves undefined.
\<close>

lemma pb_decode_shift_undefined:
  "pb_decode_data ([0x08] @ replicate 5 0x80 @ b # rest) (7 + length rest) = Inl Shift_UB"
proof -
  let ?d = "[0x08, 0x80, 0x80, 0x80, 0x80, 0x80, b] @ rest :: u8 list"
  let ?n = "7 + length rest"
  have v: "pb_varint ?d ?n 1 0 0 = Inl Shift_UB"
    by (simp add: pb_varint_more pb_varint_overshift)
  have "pb_field ?d ?n 0 pb_out_init = Inl Shift_UB"
    using v by (simp add: pb_field_def Let_def pb_wire_def pb_fieldno_def)
  then show ?thesis
    by (simp add: pb_decode_data_def pb_loop_fault numeral_eq_Suc)
qed

end
