(* ===== verification/Aes_Meshtastic.thy ===== *)
theory Aes_Meshtastic
  imports Hal
begin

text \<open>
  \<open>firmware/Crypto/aes_meshtastic.c\<close>: AES-128 in counter mode over the hardware block cipher. The
  code's block loop is shown equal to a reference keystream, from which the round trip between two
  nodes follows. The block loop counts in a \<open>uint16_t\<close> and is a partial function.
\<close>

section \<open>State and operations\<close>

definition MESH_AES_KEY_LEN :: nat where
  "MESH_AES_KEY_LEN = 16"

record aes_state =
  channel_key :: "u8 list"
  hw_key :: "u32 list"
  cryp_ready :: bool

definition aes_reset :: aes_state where
  "aes_reset = \<lparr>channel_key = replicate MESH_AES_KEY_LEN 0, hw_key = replicate 4 0, cryp_ready = False\<rparr>"

definition HAL_CRYP_MspInit :: "hw \<Rightarrow> hw" where
  "HAL_CRYP_MspInit h = issue (Setup AesClkEnable) h"

definition hcryp_config :: "aes_state \<Rightarrow> cryp_init" where
  "hcryp_config st =
     \<lparr>DataType = CRYP_DATATYPE_32B, KeySize = CRYP_KEYSIZE_128B, pKey = hw_key st,
      pInitVect = NULL, Algorithm = CRYP_AES_ECB, DataWidthUnit = CRYP_DATAWIDTHUNIT_WORD,
      HeaderWidthUnit = CRYP_HEADERWIDTHUNIT_WORD, KeyIVConfigSkip = CRYP_KEYIVCONFIG_ALWAYS,
      Header = NULL, HeaderSize = 0, B0 = NULL\<rparr>"

definition ensure_cryp :: "hal_env \<Rightarrow> aes_state \<Rightarrow> hw \<Rightarrow> bool \<times> aes_state \<times> hw" where
  "ensure_cryp e st h =
     (if cryp_ready st then (True, st, h)
      else let c = CrypInit (hcryp_config st) in
        if \<not> call_ok e c h then (False, st, issue c h)
        else (True, st\<lparr>cryp_ready := True\<rparr>, issue c h))"

definition bytes_to_be_words :: "u8 list \<Rightarrow> u32 list" where
  "bytes_to_be_words b =
     map (\<lambda>i. be32 (b ! (i * 4)) (b ! (i * 4 + 1)) (b ! (i * 4 + 2)) (b ! (i * 4 + 3))) [0..<4]"

definition be_words_to_bytes :: "u32 list \<Rightarrow> u8 list" where
  "be_words_to_bytes w =
     concat (map (\<lambda>i. [byte_n (w ! i) 3, byte_n (w ! i) 2, byte_n (w ! i) 1, byte_n (w ! i) 0]) [0..<4])"

text \<open>The peripheral's answer to \<open>HAL_CRYP_Encrypt\<close> under the key the handle points to.\<close>

definition ecb_words :: "hal_env \<Rightarrow> u32 list \<Rightarrow> u32 list \<Rightarrow> u32 list" where
  "ecb_words e key blk = map (env_ecb e key blk) [0..<4]"

text \<open>\<open>None\<close> is the return value \<open>false\<close>, \<open>Some out\<close> is \<open>true\<close> with the output block.\<close>

definition aes_ecb_block ::
  "hal_env \<Rightarrow> u8 list \<Rightarrow> aes_state \<Rightarrow> hw \<Rightarrow> u8 list option \<times> aes_state \<times> hw" where
  "aes_ecb_block e blk st h =
     (let (ok, st1, h1) = ensure_cryp e st h in
      if \<not> ok then (None, st1, h1)
      else let in_w = bytes_to_be_words blk; c = CrypEncrypt (hw_key st1) in_w 100 in
        if \<not> call_ok e c h1 then (None, st1, issue c h1)
        else (Some (be_words_to_bytes (ecb_words e (hw_key st1) in_w)), st1, issue c h1))"

text \<open>The inner loop \<open>payload[off + j] ^= keystream[j]\<close> for \<open>j < n\<close>.\<close>

definition xor_block :: "u8 list \<Rightarrow> nat \<Rightarrow> u8 list \<Rightarrow> nat \<Rightarrow> u8 list" where
  "xor_block payload off ks n =
     map (\<lambda>i. if off \<le> i \<and> i < off + n then payload ! i XOR ks ! (i - off) else payload ! i)
       [0..<length payload]"

partial_function (option) ctr_loop ::
  "hal_env \<Rightarrow> nat \<Rightarrow> u8 list \<Rightarrow> nat \<Rightarrow> u8 list \<Rightarrow> aes_state \<Rightarrow> hw \<Rightarrow> (u8 list \<times> aes_state \<times> hw) option"
where
  "ctr_loop e len nonce off payload st h =
     (if off < len then
        (case aes_ecb_block e nonce st h of (blk, st', h') \<Rightarrow>
          (case blk of None \<Rightarrow> Some (payload, st', h')
           | Some ks \<Rightarrow>
               ctr_loop e len (nonce[15 := nonce ! 15 + 1]) ((off + 16) mod 65536)
                 (xor_block payload off ks (if len - off > 16 then 16 else len - off)) st' h'))
      else Some (payload, st, h))"

definition ctr_nonce :: "u32 \<Rightarrow> u32 \<Rightarrow> u8 list" where
  "ctr_nonce pid frm = memcpy_at (memcpy_at (replicate 16 0) 0 (le_bytes pid)) 8 (le_bytes frm)"

definition aes_ctr_crypt ::
  "hal_env \<Rightarrow> u8 list \<Rightarrow> nat \<Rightarrow> u32 \<Rightarrow> u32 \<Rightarrow> aes_state \<Rightarrow> hw \<Rightarrow> (u8 list \<times> aes_state \<times> hw) run" where
  "aes_ctr_crypt e payload len pid frm st h =
     (if len = 0 then Inr (payload, st, h)
      else case ctr_loop e len (ctr_nonce pid frm) 0 payload st h of
          None \<Rightarrow> Inl Hang
        | Some r \<Rightarrow> Inr r)"

definition aes_set_channel_key :: "u8 list ptr \<Rightarrow> aes_state \<Rightarrow> aes_state" where
  "aes_set_channel_key key st =
     (case key of None \<Rightarrow> st
      | Some k \<Rightarrow>
          let ck = memcpy_at (channel_key st) 0 (take MESH_AES_KEY_LEN k)
          in st\<lparr>channel_key := ck, hw_key := bytes_to_be_words ck, cryp_ready := False\<rparr>)"

section \<open>The reference keystream\<close>

definition keystream_byte :: "hal_env \<Rightarrow> u32 list \<Rightarrow> u32 \<Rightarrow> u32 \<Rightarrow> nat \<Rightarrow> u8" where
  "keystream_byte e key pid frm i =
     be_words_to_bytes (ecb_words e key
       (bytes_to_be_words ((ctr_nonce pid frm)[15 := of_nat (i div 16)]))) ! (i mod 16)"

definition ctr_spec :: "hal_env \<Rightarrow> u32 list \<Rightarrow> u32 \<Rightarrow> u32 \<Rightarrow> nat \<Rightarrow> u8 list \<Rightarrow> u8 list" where
  "ctr_spec e key pid frm len payload =
     map (\<lambda>i. if i < len then payload ! i XOR keystream_byte e key pid frm i else payload ! i)
       [0..<length payload]"

text \<open>The peripheral never fails.\<close>

definition cryp_ok :: "hal_env \<Rightarrow> bool" where
  "cryp_ok e \<longleftrightarrow> (\<forall>h c. (case c of CrypInit _ \<Rightarrow> True | CrypEncrypt _ _ _ \<Rightarrow> True | _ \<Rightarrow> False) \<longrightarrow> call_ok e c h)"

lemma cryp_ok_demo [simp]: "cryp_ok demo_env"
  by (simp add: cryp_ok_def call_ok_def)

lemma length_ctr_nonce [simp]: "length (ctr_nonce pid frm) = 16"
  by (simp add: ctr_nonce_def)

lemma ctr_nonce_15: "ctr_nonce pid frm ! 15 = 0"
  by (simp add: ctr_nonce_def nth_memcpy_at)

lemma length_ctr_spec [simp]: "length (ctr_spec e key pid frm len p) = length p"
  by (simp add: ctr_spec_def)

lemma length_xor_block [simp]: "length (xor_block p off ks n) = length p"
  by (simp add: xor_block_def)

lemma aes_ecb_block_ok:
  assumes "cryp_ok e"
  shows "\<exists>h' st'. aes_ecb_block e blk st h =
      (Some (be_words_to_bytes (ecb_words e (hw_key st) (bytes_to_be_words blk))), st', h') \<and>
    hw_key st' = hw_key st \<and> channel_key st' = channel_key st \<and> extends h h'"
  using assms by (auto simp: aes_ecb_block_def ensure_cryp_def cryp_ok_def Let_def)

lemma nonce_step:
  "((ctr_nonce pid frm)[15 := of_nat k])[15 := (ctr_nonce pid frm)[15 := of_nat k] ! 15 + 1] =
     (ctr_nonce pid frm)[15 := of_nat (Suc k)]"
  by (simp add: add.commute)

text \<open>The blocks from \<open>16 k\<close> on.\<close>

definition ctr_from :: "hal_env \<Rightarrow> u32 list \<Rightarrow> u32 \<Rightarrow> u32 \<Rightarrow> nat \<Rightarrow> nat \<Rightarrow> u8 list \<Rightarrow> u8 list" where
  "ctr_from e key pid frm k len p =
     map (\<lambda>i. if 16 * k \<le> i \<and> i < len then p ! i XOR keystream_byte e key pid frm i else p ! i)
       [0..<length p]"

lemma ctr_from_step:
  assumes "16 * k < len"
  shows "ctr_from e key pid frm (Suc k) len
      (xor_block p (16 * k)
        (be_words_to_bytes (ecb_words e key (bytes_to_be_words ((ctr_nonce pid frm)[15 := of_nat k]))))
        (if len - 16 * k > 16 then 16 else len - 16 * k)) =
    ctr_from e key pid frm k len p"
proof (rule nth_equalityI)
  fix i assume "i < length (ctr_from e key pid frm (Suc k) len
      (xor_block p (16 * k)
        (be_words_to_bytes (ecb_words e key (bytes_to_be_words ((ctr_nonce pid frm)[15 := of_nat k]))))
        (if len - 16 * k > 16 then 16 else len - 16 * k)))"
  then have i: "i < length p" by (simp add: ctr_from_def)
  have "i div 16 = k" "i mod 16 = i - 16 * k" if "16 * k \<le> i" "i < 16 * Suc k"
  proof -
    from that show "i div 16 = k" by (simp add: div_nat_eqI)
    then show "i mod 16 = i - 16 * k" by (simp add: modulo_nat_def)
  qed
  then show "ctr_from e key pid frm (Suc k) len
      (xor_block p (16 * k)
        (be_words_to_bytes (ecb_words e key (bytes_to_be_words ((ctr_nonce pid frm)[15 := of_nat k]))))
        (if len - 16 * k > 16 then 16 else len - 16 * k)) ! i = ctr_from e key pid frm k len p ! i"
    using i assms by (auto simp: ctr_from_def xor_block_def keystream_byte_def)
qed (simp add: ctr_from_def)

lemma ctr_loop_done: "\<not> off < len \<Longrightarrow> ctr_loop e len nonce off p st h = Some (p, st, h)"
  by (subst ctr_loop.simps) simp

lemma ctr_loop_correct:
  assumes ok: "cryp_ok e" and len: "len \<le> 65520"
  shows "\<exists>h' st'. ctr_loop e len ((ctr_nonce pid frm)[15 := of_nat k]) (16 * k) p st h =
      Some (ctr_from e (hw_key st) pid frm k len p, st', h') \<and>
    hw_key st' = hw_key st \<and> channel_key st' = channel_key st \<and> extends h h'"
proof (induction "len - 16 * k" arbitrary: k p st h rule: less_induct)
  case less
  show ?case
  proof (cases "16 * k < len")
    case False
    then have "ctr_from e (hw_key st) pid frm k len p = p"
      by (intro nth_equalityI) (auto simp: ctr_from_def)
    then show ?thesis
      using False by (simp add: ctr_loop_done)
  next
    case True
    let ?nonce = "(ctr_nonce pid frm)[15 := of_nat k]"
    let ?ks = "be_words_to_bytes (ecb_words e (hw_key st) (bytes_to_be_words ?nonce))"
    let ?p = "xor_block p (16 * k) ?ks (if len - 16 * k > 16 then 16 else len - 16 * k)"
    obtain h1 st1 where blk: "aes_ecb_block e ?nonce st h = (Some ?ks, st1, h1)"
      and st1: "hw_key st1 = hw_key st" "channel_key st1 = channel_key st" "extends h h1"
      using aes_ecb_block_ok [OF ok] by blast
    have off: "(16 * k + 16) mod 65536 = 16 * Suc k"
      using True len by simp
    have "ctr_loop e len ?nonce (16 * k) p st h =
        ctr_loop e len ((ctr_nonce pid frm)[15 := of_nat (Suc k)]) (16 * Suc k) ?p st1 h1"
      using True by (subst ctr_loop.simps) (simp only: blk nonce_step off if_True prod.case option.case)
    moreover have "len - 16 * Suc k < len - 16 * k"
      using True by simp
    from less [OF this, of ?p st1 h1] obtain h2 st2 where
      "ctr_loop e len ((ctr_nonce pid frm)[15 := of_nat (Suc k)]) (16 * Suc k) ?p st1 h1 =
        Some (ctr_from e (hw_key st1) pid frm (Suc k) len ?p, st2, h2)"
      and 2: "hw_key st2 = hw_key st1" "channel_key st2 = channel_key st1" "extends h1 h2"
      by blast
    ultimately have "ctr_loop e len ?nonce (16 * k) p st h =
        Some (ctr_from e (hw_key st) pid frm k len p, st2, h2)"
      using ctr_from_step [OF True, of e "hw_key st" pid frm p] st1(1) by (simp only:)
    then show ?thesis
      using 2 st1 extends_trans by force
  qed
qed

lemma aes_ctr_crypt_ok:
  assumes "cryp_ok e" and "len \<le> 65520"
  shows "\<exists>st' h'. aes_ctr_crypt e p len pid frm st h = Inr (ctr_spec e (hw_key st) pid frm len p, st', h') \<and>
    hw_key st' = hw_key st \<and> channel_key st' = channel_key st \<and> extends h h'"
proof (cases "len = 0")
  case True
  then have "ctr_spec e (hw_key st) pid frm len p = p"
    by (intro nth_equalityI) (auto simp: ctr_spec_def)
  then show ?thesis
    using True by (simp add: aes_ctr_crypt_def)
next
  case False
  have n0: "(ctr_nonce pid frm)[15 := 0] = ctr_nonce pid frm"
    using list_update_id [of "ctr_nonce pid frm" 15] by (simp add: ctr_nonce_15)
  have "ctr_from e (hw_key st) pid frm 0 len p = ctr_spec e (hw_key st) pid frm len p"
    by (simp add: ctr_from_def ctr_spec_def)
  then show ?thesis
    using ctr_loop_correct [OF assms, of pid frm 0 p st h] False
    by (auto simp: aes_ctr_crypt_def n0)
qed

text \<open>
  C19. When the AES peripheral does not fail, \<open>aes_ctr_crypt\<close> returns for every length up to 65520
  and combines each of the first \<open>len\<close> bytes with the counter-mode keystream of the packet id and
  the sender; it keeps the other bytes, the keys and the length.
\<close>

theorem aes_ctr_crypt_correct:
  assumes "cryp_ok e" and "len \<le> 65520"
  shows "\<exists>st' h'. aes_ctr_crypt e p len pid frm st h = Inr (ctr_spec e (hw_key st) pid frm len p, st', h') \<and>
    hw_key st' = hw_key st \<and> channel_key st' = channel_key st \<and> extends h h'"
  by (rule aes_ctr_crypt_ok [OF assms])

theorem aes_ctr_crypt_correct_witness:
  "\<exists>st' h'. aes_ctr_crypt demo_env [1, 2, 3] 3 5 6 aes_reset [] =
     Inr (ctr_spec demo_env (hw_key aes_reset) 5 6 3 [1, 2, 3], st', h')"
  using aes_ctr_crypt_correct [OF cryp_ok_demo, of 3 "[1, 2, 3]" 5 6 aes_reset "[]"] by auto

lemma ctr_spec_involution [simp]:
  "ctr_spec e key pid frm len (ctr_spec e key pid frm len p) = p"
  by (rule nth_equalityI) (auto simp: ctr_spec_def xor.assoc)

lemma ctr_spec_cong:
  "env_ecb e = env_ecb e' \<Longrightarrow> ctr_spec e = ctr_spec e'"
  by (intro ext) (simp add: ctr_spec_def keystream_byte_def ecb_words_def)

text \<open>
  C20. A node that decrypts with the same key, packet id and sender recovers what another node
  encrypted, whatever their histories: encryption and decryption are the same operation.
\<close>

theorem aes_ctr_roundtrip:
  assumes "cryp_ok e" and "cryp_ok e'" and "env_ecb e = env_ecb e'" and "len \<le> 65520"
    and "hw_key st = hw_key st'"
    and "aes_ctr_crypt e p len pid frm st h = Inr (c, st1, h1)"
  shows "\<exists>st2 h2. aes_ctr_crypt e' c len pid frm st' h' = Inr (p, st2, h2)"
proof -
  have "c = ctr_spec e (hw_key st) pid frm len p"
    using aes_ctr_crypt_ok [OF assms(1,4), of p pid frm st h] assms(6) by auto
  then show ?thesis
    using aes_ctr_crypt_ok [OF assms(2,4), of c pid frm st' h'] assms(5)
      ctr_spec_cong [OF assms(3)] by auto
qed

theorem aes_ctr_roundtrip_witness:
  "\<exists>c st1 h1 st2 h2. aes_ctr_crypt demo_env [1, 2, 3] 3 5 6 aes_reset [] = Inr (c, st1, h1) \<and>
     aes_ctr_crypt demo_env c 3 5 6 aes_reset [GetTick] = Inr ([1, 2, 3], st2, h2)"
proof -
  obtain c st1 h1 where 1: "aes_ctr_crypt demo_env [1, 2, 3] 3 5 6 aes_reset [] = Inr (c, st1, h1)"
    using aes_ctr_crypt_ok [OF cryp_ok_demo, of 3 "[1, 2, 3]" 5 6 aes_reset "[]"] by auto
  from aes_ctr_roundtrip [OF cryp_ok_demo cryp_ok_demo refl _ refl this, of "[GetTick]"] 1
  show ?thesis by auto
qed

text \<open>
  If the peripheral refuses the first block, because its initialisation or the encryption fails,
  \<open>aes_ctr_crypt\<close> returns the payload as it was, in the clear, and reports nothing.
\<close>

lemma aes_ctr_failure:
  assumes "\<not> cryp_ready st \<and> \<not> call_ok e (CrypInit (hcryp_config st)) h \<or>
    (\<forall>h'. \<not> call_ok e (CrypEncrypt (hw_key st) (bytes_to_be_words (ctr_nonce pid frm)) 100) h')"
  shows "\<exists>st' h'. aes_ctr_crypt e p len pid frm st h = Inr (p, st', h')"
proof -
  have "fst (aes_ecb_block e (ctr_nonce pid frm) st h) = None"
    using assms by (auto simp: aes_ecb_block_def ensure_cryp_def Let_def)
  then obtain st' h' where "aes_ecb_block e (ctr_nonce pid frm) st h = (None, st', h')"
    by (cases "aes_ecb_block e (ctr_nonce pid frm) st h") auto
  then show ?thesis
    by (auto simp: aes_ctr_crypt_def ctr_loop.simps [of e len "ctr_nonce pid frm"])
qed

lemma ctr_spec_take: "take len (ctr_spec e key pid frm len p) = ctr_spec e key pid frm len (take len p)"
  by (rule nth_equalityI) (auto simp: ctr_spec_def)

lemma ctr_spec_append:
  "length p = len \<Longrightarrow> ctr_spec e key pid frm len (p @ q) = ctr_spec e key pid frm len p @ q"
  by (rule nth_equalityI) (auto simp: ctr_spec_def nth_append)

text \<open>The operation always returns, and makes no calls but those to the AES peripheral.\<close>

lemma aes_ecb_block_calls:
  assumes "aes_ecb_block e blk st h = (r, st', h')"
    and f: "\<And>h c. f (issue (CrypInit c) h) = f h" "\<And>h k b t. f (issue (CrypEncrypt k b t) h) = f h"
  shows "f h' = f h"
  using assms by (auto simp: aes_ecb_block_def ensure_cryp_def Let_def split: if_splits)

lemma ctr_loop_returns:
  assumes "len \<le> 65520" and "16 dvd off"
    and f: "\<And>h c. f (issue (CrypInit c) h) = f h" "\<And>h k b t. f (issue (CrypEncrypt k b t) h) = f h"
  shows "\<exists>p' st' h'. ctr_loop e len nonce off p st h = Some (p', st', h') \<and> length p' = length p \<and> f h' = f h"
  using assms(2)
proof (induction "len - off" arbitrary: off nonce p st h rule: less_induct)
  case less
  show ?case
  proof (cases "off < len")
    case False
    then show ?thesis by (simp add: ctr_loop_done)
  next
    case True
    obtain r st1 h1 where blk: "aes_ecb_block e nonce st h = (r, st1, h1)"
      by (metis prod_cases3)
    have f1: "f h1 = f h"
      by (rule aes_ecb_block_calls [OF blk]) (simp_all add: f)
    have off: "(off + 16) mod 65536 = off + 16"
      using True assms(1) by simp
    show ?thesis
    proof (cases r)
      case None
      then show ?thesis
        using True f1 by (subst ctr_loop.simps) (simp add: blk)
    next
      case (Some ks)
      have "len - (off + 16) < len - off" "16 dvd off + 16"
        using True less.prems by simp_all
      from less.hyps [OF this, of "nonce[15 := nonce ! 15 + 1]"
          "xor_block p off ks (if len - off > 16 then 16 else len - off)" st1 h1]
      show ?thesis
        using True f1 by (subst ctr_loop.simps) (simp add: blk Some off)
    qed
  qed
qed

lemma aes_ctr_crypt_returns:
  assumes "len \<le> 65520"
    and "\<And>h c. f (issue (CrypInit c) h) = f h" "\<And>h k b t. f (issue (CrypEncrypt k b t) h) = f h"
  shows "\<exists>p' st' h'. aes_ctr_crypt e p len pid frm st h = Inr (p', st', h') \<and> length p' = length p \<and> f h' = f h"
  using ctr_loop_returns [of len 0 f e "ctr_nonce pid frm" p st h] assms
  by (auto simp: aes_ctr_crypt_def)

lemma aes_ctr_crypt_calls:
  assumes "aes_ctr_crypt e p len pid frm st h = Inr (p', st', h')" and "len \<le> 65520"
    and "\<And>h c. f (issue (CrypInit c) h) = f h" "\<And>h k b t. f (issue (CrypEncrypt k b t) h) = f h"
  shows "f h' = f h"
  using aes_ctr_crypt_returns [of len f e p pid frm st h] assms by auto

lemma hw_key_set_channel_key:
  "length (channel_key st) = 16 \<Longrightarrow> length k = 16 \<Longrightarrow>
     hw_key (aes_set_channel_key (Some k) st) = bytes_to_be_words k"
  by (simp add: aes_set_channel_key_def Let_def MESH_AES_KEY_LEN_def memcpy_at_def)

end
