(* ===== verification/Board_Io.thy ===== *)
theory Board_Io
  imports Hal
begin

text \<open>
  The board's GPIO components: \<open>firmware/Radio/rf_ctrl.c\<close> (the antenna switch on PA4 and PA5) and
  \<open>firmware/Core/led.c\<close> (the status LED on PB5). What the pins carry is read off the history.
\<close>

section \<open>Pin levels\<close>

named_theorems mon_simps \<open>what a history says about pins, interrupts and the radio\<close>

fun level_step :: "pin \<Rightarrow> bool \<Rightarrow> hal_call \<Rightarrow> bool" where
  "level_step p l (WritePin q v) = (if q = p then v else l)"
| "level_step p l (TogglePin q) = (if q = p then \<not> l else l)"
| "level_step p l _ = l"

definition pin_level :: "pin \<Rightarrow> hw \<Rightarrow> bool" where
  "pin_level p h = foldl (level_step p) False h"

lemma pin_level_issue [mon_simps]: "pin_level p (issue c h) = level_step p (pin_level p h) c"
  by (simp add: pin_level_def issue_def)

section \<open>The antenna switch\<close>

definition rf_rx_levels :: "hal_env \<Rightarrow> bool \<times> bool" where
  "rf_rx_levels e = (if opt_rf_swap e then (False, True) else (True, False))"

definition rf_tx_levels :: "hal_env \<Rightarrow> bool \<times> bool" where
  "rf_tx_levels e = (if opt_rf_swap e then (True, False) else (False, True))"

definition rf_off_levels :: "hal_env \<Rightarrow> bool \<times> bool" where
  "rf_off_levels e = (if opt_rf_swap e then (False, False) else (False, False))"

definition rf_ctrl_set_off :: "hal_env \<Rightarrow> hw \<Rightarrow> hw" where
  "rf_ctrl_set_off e h =
     issue (WritePin PA5 (snd (rf_off_levels e))) (issue (WritePin PA4 (fst (rf_off_levels e))) h)"

definition rf_ctrl_set_rx :: "hal_env \<Rightarrow> hw \<Rightarrow> hw" where
  "rf_ctrl_set_rx e h =
     issue (WritePin PA5 (snd (rf_rx_levels e))) (issue (WritePin PA4 (fst (rf_rx_levels e))) h)"

definition rf_ctrl_set_tx :: "hal_env \<Rightarrow> hw \<Rightarrow> hw" where
  "rf_ctrl_set_tx e h =
     issue (WritePin PA5 (snd (rf_tx_levels e))) (issue (WritePin PA4 (fst (rf_tx_levels e))) h)"

definition rf_ctrl_init :: "hal_env \<Rightarrow> hw \<Rightarrow> hw" where
  "rf_ctrl_init e h =
     rf_ctrl_set_rx e (issue (GpioInit PA5) (issue (GpioInit PA4) (issue (Setup GpioAClkEnable) h)))"

definition rf_levels :: "hw \<Rightarrow> bool \<times> bool" where
  "rf_levels h = (pin_level PA4 h, pin_level PA5 h)"

lemma rf_levels_issue [mon_simps]:
  "rf_levels (issue c h) = (level_step PA4 (fst (rf_levels h)) c, level_step PA5 (snd (rf_levels h)) c)"
  by (simp add: rf_levels_def pin_level_issue)

lemma rf_levels_set [mon_simps]:
  "rf_levels (rf_ctrl_set_off e h) = rf_off_levels e"
  "rf_levels (rf_ctrl_set_rx e h) = rf_rx_levels e"
  "rf_levels (rf_ctrl_set_tx e h) = rf_tx_levels e"
  by (simp_all add: rf_ctrl_set_off_def rf_ctrl_set_rx_def rf_ctrl_set_tx_def rf_levels_issue)

lemma rf_positions_distinct:
  "rf_rx_levels e \<noteq> rf_tx_levels e" "rf_rx_levels e \<noteq> rf_off_levels e" "rf_tx_levels e \<noteq> rf_off_levels e"
  by (simp_all add: rf_rx_levels_def rf_tx_levels_def rf_off_levels_def)

lemma extends_rf [simp, intro]:
  "extends h h' \<Longrightarrow> extends h (rf_ctrl_set_off e h')"
  "extends h h' \<Longrightarrow> extends h (rf_ctrl_set_rx e h')"
  "extends h h' \<Longrightarrow> extends h (rf_ctrl_set_tx e h')"
  by (simp_all add: rf_ctrl_set_off_def rf_ctrl_set_rx_def rf_ctrl_set_tx_def)

section \<open>The LED\<close>

definition LED_HALF_PERIOD_MS :: u32 where
  "LED_HALF_PERIOD_MS = 500"

record led_state =
  led_last_toggle_ms :: u32

definition led_reset :: led_state where
  "led_reset = \<lparr>led_last_toggle_ms = 0\<rparr>"

definition led_init :: "led_state \<Rightarrow> hw \<Rightarrow> led_state \<times> hw" where
  "led_init st h =
     (st\<lparr>led_last_toggle_ms := 0\<rparr>,
      issue (WritePin PB5 True) (issue (GpioInit PB5) (issue (Setup GpioBClkEnable) h)))"

definition led_tick :: "hal_env \<Rightarrow> led_state \<Rightarrow> hw \<Rightarrow> led_state \<times> hw" where
  "led_tick e st h =
     (let now = env_tick e h; h1 = issue GetTick h in
      if now - led_last_toggle_ms st \<ge> LED_HALF_PERIOD_MS
      then (st\<lparr>led_last_toggle_ms := now\<rparr>, issue (TogglePin PB5) h1)
      else (st, h1))"

definition led_toggle_from_isr :: "hw \<Rightarrow> hw" where
  "led_toggle_from_isr h = issue (TogglePin PB5) h"

text \<open>
  The LED is toggled exactly when 500 ms or more have passed since the last toggle, also when the
  32-bit millisecond counter wrapped in between: \<open>d\<close> is the true elapsed time, below 2^32 ms.
\<close>

lemma led_tick_correct:
  assumes "env_tick e h = led_last_toggle_ms st + of_nat d" and "d < 2 ^ 32"
  shows "(pin_level PB5 (snd (led_tick e st h)) \<longleftrightarrow> pin_level PB5 h \<noteq> (500 \<le> d)) \<and>
    led_last_toggle_ms (fst (led_tick e st h)) =
      (if 500 \<le> d then env_tick e h else led_last_toggle_ms st)"
proof -
  have "unat (of_nat d :: u32) = d"
    using assms(2) by (simp add: unsigned_of_nat take_bit_nat_eq_self)
  then have "LED_HALF_PERIOD_MS \<le> env_tick e h - led_last_toggle_ms st \<longleftrightarrow> 500 \<le> d"
    by (simp add: LED_HALF_PERIOD_MS_def assms(1) word_le_nat_alt)
  then show ?thesis
    by (simp add: led_tick_def Let_def pin_level_issue)
qed

end
