(* ===== verification/Radio_Phy.thy ===== *)
theory Radio_Phy
  imports Prelude
begin

text \<open>
  \<open>firmware/Radio/radio_phy.h\<close> and \<open>radio_phy.c\<close>: the table of driver operations and the dispatch to
  the registered driver or to the built-in stub. The driver's state is the type parameter \<open>'s\<close>; an
  operation that may not return is in the \<open>run\<close> type. The locale \<open>radio_driver\<close> is the contract the
  layers above rely on.
\<close>

record 's radio_phy_ops =
  op_init :: "'s \<Rightarrow> bool \<times> 's"
  op_set_freq :: "u32 \<Rightarrow> 's \<Rightarrow> bool \<times> 's"
  op_set_lora :: "u8 \<Rightarrow> u32 \<Rightarrow> u8 \<Rightarrow> 's \<Rightarrow> bool \<times> 's"
  op_tx :: "u8 list ptr \<Rightarrow> nat \<Rightarrow> 's \<Rightarrow> (bool \<times> 's) run"
  op_rx_poll :: "u8 list ptr \<Rightarrow> nat \<Rightarrow> 's \<Rightarrow> nat \<times> u8 list ptr \<times> 's"
  op_get_last_rssi_snr :: "u16 ptr \<Rightarrow> u8 ptr \<Rightarrow> 's \<Rightarrow> u16 ptr \<times> u8 ptr"

section \<open>The stub driver\<close>

definition default_init :: "'s \<Rightarrow> bool \<times> 's" where
  "default_init s = (True, s)"

definition default_set_freq :: "u32 \<Rightarrow> 's \<Rightarrow> bool \<times> 's" where
  "default_set_freq f s = (True, s)"

definition default_set_lora :: "u8 \<Rightarrow> u32 \<Rightarrow> u8 \<Rightarrow> 's \<Rightarrow> bool \<times> 's" where
  "default_set_lora a b c s = (True, s)"

definition default_tx :: "u8 list ptr \<Rightarrow> nat \<Rightarrow> 's \<Rightarrow> (bool \<times> 's) run" where
  "default_tx d l s = Inr (True, s)"

definition default_rx_poll :: "u8 list ptr \<Rightarrow> nat \<Rightarrow> 's \<Rightarrow> nat \<times> u8 list ptr \<times> 's" where
  "default_rx_poll b m s = (0, b, s)"

definition default_rssi_snr :: "u16 ptr \<Rightarrow> u8 ptr \<Rightarrow> 's \<Rightarrow> u16 ptr \<times> u8 ptr" where
  "default_rssi_snr r sn s = (map_option (\<lambda>_. 0) r, map_option (\<lambda>_. 0) sn)"

definition default_ops :: "'s radio_phy_ops" where
  "default_ops = \<lparr>op_init = default_init, op_set_freq = default_set_freq,
     op_set_lora = default_set_lora, op_tx = default_tx, op_rx_poll = default_rx_poll,
     op_get_last_rssi_snr = default_rssi_snr\<rparr>"

section \<open>Dispatch\<close>

text \<open>\<open>s_ops\<close> is the registered table, \<open>NULL\<close> at reset.\<close>

definition radio_phy_set_ops :: "'s radio_phy_ops ptr \<Rightarrow> 's radio_phy_ops ptr \<Rightarrow> 's radio_phy_ops ptr" where
  "radio_phy_set_ops ops s_ops = ops"

definition current_ops :: "'s radio_phy_ops ptr \<Rightarrow> 's radio_phy_ops" where
  "current_ops s_ops = (case s_ops of None \<Rightarrow> default_ops | Some ops \<Rightarrow> ops)"

definition radio_phy_init :: "'s radio_phy_ops ptr \<Rightarrow> 's \<Rightarrow> bool \<times> 's" where
  "radio_phy_init s_ops s = op_init (current_ops s_ops) s"

definition radio_phy_set_freq :: "'s radio_phy_ops ptr \<Rightarrow> u32 \<Rightarrow> 's \<Rightarrow> bool \<times> 's" where
  "radio_phy_set_freq s_ops freq_hz s = op_set_freq (current_ops s_ops) freq_hz s"

definition radio_phy_set_lora :: "'s radio_phy_ops ptr \<Rightarrow> u8 \<Rightarrow> u32 \<Rightarrow> u8 \<Rightarrow> 's \<Rightarrow> bool \<times> 's" where
  "radio_phy_set_lora s_ops sf bw_hz cr s = op_set_lora (current_ops s_ops) sf bw_hz cr s"

definition radio_phy_tx :: "'s radio_phy_ops ptr \<Rightarrow> u8 list ptr \<Rightarrow> nat \<Rightarrow> 's \<Rightarrow> (bool \<times> 's) run" where
  "radio_phy_tx s_ops data len s = op_tx (current_ops s_ops) data len s"

definition radio_phy_rx_poll ::
  "'s radio_phy_ops ptr \<Rightarrow> u8 list ptr \<Rightarrow> nat \<Rightarrow> 's \<Rightarrow> nat \<times> u8 list ptr \<times> 's" where
  "radio_phy_rx_poll s_ops buf max_len s = op_rx_poll (current_ops s_ops) buf max_len s"

definition radio_phy_get_last_rssi_snr ::
  "'s radio_phy_ops ptr \<Rightarrow> u16 ptr \<Rightarrow> u8 ptr \<Rightarrow> 's \<Rightarrow> u16 ptr \<times> u8 ptr" where
  "radio_phy_get_last_rssi_snr s_ops rssi snr s = op_get_last_rssi_snr (current_ops s_ops) rssi snr s"

section \<open>The contract of a driver\<close>

text \<open>
  A received packet fits the caller's buffer and only its bytes are stored; the operations keep the
  driver's invariant; the signal values are written through non-null pointers.
\<close>

locale radio_driver =
  fixes ops :: "'s radio_phy_ops" and inv :: "'s \<Rightarrow> bool"
  assumes init_inv: "inv s \<Longrightarrow> op_init ops s = (r, s') \<Longrightarrow> inv s'"
    and set_freq_inv: "inv s \<Longrightarrow> op_set_freq ops f s = (r, s') \<Longrightarrow> inv s'"
    and set_lora_inv: "inv s \<Longrightarrow> op_set_lora ops sf bw cr s = (r, s') \<Longrightarrow> inv s'"
    and tx_inv: "inv s \<Longrightarrow> op_tx ops d l s = Inr (r, s') \<Longrightarrow> inv s'"
    and rx_inv: "inv s \<Longrightarrow> op_rx_poll ops b m s = (n, b', s') \<Longrightarrow> inv s'"
    and rx_bound: "inv s \<Longrightarrow> op_rx_poll ops (Some buf) m s = (n, b', s') \<Longrightarrow> n \<le> m \<and> n < 256"
    and rx_frame: "inv s \<Longrightarrow> op_rx_poll ops (Some buf) m s = (n, b', s') \<Longrightarrow> m \<le> length buf \<Longrightarrow>
      \<exists>buf'. b' = Some buf' \<and> length buf' = length buf \<and> drop n buf' = drop n buf"
    and rssi_written: "\<exists>rssi' snr'. op_get_last_rssi_snr ops (Some rssi) (Some snr) s = (Some rssi', Some snr')"
begin

lemma phy_rx_in_buffer:
  assumes "inv s" and "radio_phy_rx_poll (Some ops) (Some buf) m s = (n, b', s')" and "m \<le> length buf"
  shows "n \<le> m \<and> n < 256 \<and> inv s' \<and>
    (\<exists>buf'. b' = Some buf' \<and> length buf' = length buf \<and> drop n buf' = drop n buf)"
  using assms rx_bound rx_frame rx_inv
  unfolding radio_phy_rx_poll_def current_ops_def option.case by meson

end

interpretation stub_driver: radio_driver default_ops "\<lambda>_. True"
  by unfold_locales
    (auto simp: default_ops_def default_rx_poll_def default_rssi_snr_def)

end
