(* ===== verification/Radio_Stm32wl.thy ===== *)
theory Radio_Stm32wl
  imports Board_Io Radio_Phy "HOL-Library.Signed_Division"
begin

text \<open>
  \<open>firmware/Radio/radio_stm32wl.c\<close>: the SX126x driver over the SubGHz HAL. Every HAL call of the
  code, in its order, is an entry of the history; the volatile delay loops after a radio reset make
  no HAL call and are left out. The operations act on the driver's static variables and the history.
\<close>

section \<open>State\<close>

record subghz_handle =
  hs_prescaler_2 :: bool
  hs_deep_sleep :: nat
  hs_error_code :: nat
  hs_ready :: bool

record radio_drv =
  hsubghz :: subghz_handle
  last_rssi :: u16
  last_snr :: u8
  rx_buf :: "u8 list"
  rx_len :: nat
  rx_pending :: bool
  tx_done_flag :: bool

type_synonym radio = "radio_drv \<times> hw"

definition hsubghz_zero :: subghz_handle where
  "hsubghz_zero = \<lparr>hs_prescaler_2 = False, hs_deep_sleep = 0, hs_error_code = 0, hs_ready = False\<rparr>"

definition radio_drv_reset :: radio_drv where
  "radio_drv_reset = \<lparr>hsubghz = hsubghz_zero, last_rssi = 0, last_snr = 0, rx_buf = replicate 256 0,
     rx_len = 0, rx_pending = False, tx_done_flag = False\<rparr>"

section \<open>Helpers\<close>

definition XTAL_FREQ_HZ :: u64 where
  "XTAL_FREQ_HZ = 32000000"

definition MESHTASTIC_LORA_PREAMBLE_LEN :: u16 where
  "MESHTASTIC_LORA_PREAMBLE_LEN = 16"

definition REG_LR_SYNCWORD :: u16 where "REG_LR_SYNCWORD = 0x0740"

definition REG_OCP :: u16 where "REG_OCP = 0x08E7"

definition REG_TX_CLAMP :: u16 where "REG_TX_CLAMP = 0x08D8"

definition DEFAULT_FREQ_HZ :: u32 where "DEFAULT_FREQ_HZ = 868100000"

definition DEFAULT_SF :: u8 where "DEFAULT_SF = 11"

definition DEFAULT_BW_HZ :: u32 where "DEFAULT_BW_HZ = 250000"

definition DEFAULT_CR :: u8 where "DEFAULT_CR = 5"

definition set_cmd :: "radio_cmd \<Rightarrow> u8 list \<Rightarrow> hw \<Rightarrow> hw" where
  "set_cmd c bs h = issue (ExecSetCmd c bs) h"

text \<open>\<open>subghz_wait_busy\<close>: at most a million polls of the busy flag.\<close>

primrec wait_busy_loop :: "hal_env \<Rightarrow> nat \<Rightarrow> hw \<Rightarrow> hw" where
  "wait_busy_loop e 0 h = h"
| "wait_busy_loop e (Suc n) h =
     (if \<not> env_flag e h RfBusys then issue (PollFlag RfBusys) h
      else wait_busy_loop e n (issue (PollFlag RfBusys) h))"

definition subghz_wait_busy :: "hal_env \<Rightarrow> hw \<Rightarrow> hw" where
  "subghz_wait_busy e h = wait_busy_loop e 1000000 h"

definition freq_to_rf_reg :: "u32 \<Rightarrow> u32" where
  "freq_to_rf_reg freq_hz = ucast (push_bit 25 (ucast freq_hz :: u64) div XTAL_FREQ_HZ)"

definition bw_to_param :: "u32 \<Rightarrow> u8" where
  "bw_to_param bw_hz =
     (if bw_hz \<le> 7810 then 0x00
      else if bw_hz \<le> 10420 then 0x08
      else if bw_hz \<le> 15630 then 0x01
      else if bw_hz \<le> 20830 then 0x09
      else if bw_hz \<le> 31250 then 0x02
      else if bw_hz \<le> 41670 then 0x0A
      else if bw_hz \<le> 62500 then 0x03
      else if bw_hz \<le> 125000 then 0x04
      else if bw_hz \<le> 250000 then 0x05
      else 0x06)"

definition cr_to_param :: "u8 \<Rightarrow> u8" where
  "cr_to_param cr = (if cr \<le> 5 then 1 else if cr \<le> 6 then 2 else if cr \<le> 7 then 3 else 4)"

definition rf_freq_bytes :: "u32 \<Rightarrow> u8 list" where
  "rf_freq_bytes freq_hz =
     (let rf = freq_to_rf_reg freq_hz in [byte_n rf 3, byte_n rf 2, byte_n rf 1, byte_n rf 0])"

definition modulation_bytes :: "u8 \<Rightarrow> u32 \<Rightarrow> u8 \<Rightarrow> u8 list" where
  "modulation_bytes sf bw_hz cr =
     [sf, bw_to_param bw_hz, cr_to_param cr, if sf \<ge> 11 \<and> bw_hz \<le> 125000 then 1 else 0]"

definition packet_bytes :: "u8 \<Rightarrow> u8 list" where
  "packet_bytes payload_len =
     [ucast (drop_bit 8 MESHTASTIC_LORA_PREAMBLE_LEN), ucast MESHTASTIC_LORA_PREAMBLE_LEN,
      0x00, payload_len, 0x01, 0x00]"

text \<open>\<open>RADIO_SET_RX\<close> with the endless timeout.\<close>

definition set_rx :: "hw \<Rightarrow> hw" where
  "set_rx h = set_cmd RADIO_SET_RX [0xFF, 0xFF, 0xFF] h"

definition clr_irq :: "hw \<Rightarrow> hw" where
  "clr_irq h = set_cmd RADIO_CLR_IRQSTATUS [0xFF, 0xFF] h"

section \<open>Configuration\<close>

text \<open>\<open>apply_pa_tx_params\<close>, also the PA part of \<open>radio_apply_lora_params\<close>.\<close>

definition apply_pa_tx_params :: "hal_env \<Rightarrow> hw \<Rightarrow> hw" where
  "apply_pa_tx_params e h =
     (if opt_use_lp e then
        let h1 = set_cmd RADIO_SET_PACONFIG [0x04, 0x00, 0x01, 0x01] h;
            h2 = issue (WriteRegisters REG_OCP [0x18]) h1
        in set_cmd RADIO_SET_TXPARAMS [0x0E, 0x04] h2
      else
        let h1 = set_cmd RADIO_SET_PACONFIG [0x02, 0x02, 0x00, 0x01] h;
            v = hd (call_bytes e (ReadRegister REG_TX_CLAMP) 1 h1);
            h2 = issue (ReadRegister REG_TX_CLAMP) h1;
            h3 = issue (WriteRegisters REG_TX_CLAMP [v OR push_bit 1 0x0F]) h2;
            h4 = issue (WriteRegisters REG_OCP [0x38]) h3
        in set_cmd RADIO_SET_TXPARAMS [14, 0x04] h4)"

text \<open>The TCXO attempt with its fall-back to the crystal.\<close>

definition tcxo_start :: "hal_env \<Rightarrow> hw \<Rightarrow> hw" where
  "tcxo_start e h =
     (if opt_no_tcxo e then h
      else let h1 = subghz_wait_busy e (set_cmd RADIO_CLR_ERROR [0, 0] h);
               h2 = subghz_wait_busy e (set_cmd RADIO_SET_TCXOMODE [0x01, 0x00, 0x02, 0x80] h1);
               err = call_bytes e (ExecGetCmd RADIO_GET_ERROR 2) 2 h2;
               h3 = issue (ExecGetCmd RADIO_GET_ERROR 2) h2;
               dev_err = push_bit 8 (ucast (err ! 0)) OR ucast (err ! 1) :: u16
        in if dev_err AND 0x0020 \<noteq> 0 then
             let h4 = issue (Delay 5) (issue (RfReset False) (issue (RfReset True) h3));
                 h5 = subghz_wait_busy e h4;
                 h6 = subghz_wait_busy e (set_cmd RADIO_SET_STANDBY [0x00] h5)
             in subghz_wait_busy e (set_cmd RADIO_SET_REGULATORMODE [0x01] h6)
           else h3)"

definition radio_apply_lora_params :: "hal_env \<Rightarrow> u32 \<Rightarrow> u8 \<Rightarrow> u32 \<Rightarrow> u8 \<Rightarrow> hw \<Rightarrow> hw" where
  "radio_apply_lora_params e freq_hz sf bw_hz cr h =
     (let h1 = subghz_wait_busy e (set_cmd RADIO_SET_STANDBY [0x00] h);
          h2 = subghz_wait_busy e (set_cmd RADIO_SET_REGULATORMODE [0x01] h1);
          h3 = tcxo_start e h2;
          h4 = issue (Delay 10) (subghz_wait_busy e (set_cmd RADIO_CALIBRATE [0x7F] h3));
          h5 = set_cmd RADIO_CALIBRATEIMAGE [0xD7, 0xDB] h4;
          h6 = set_cmd RADIO_SET_TXFALLBACKMODE [0x20] h5;
          h7 = set_cmd RADIO_SET_PACKETTYPE [0x01] h6;
          h8 = set_cmd RADIO_SET_RFFREQUENCY (rf_freq_bytes freq_hz) h7;
          h9 = set_cmd RADIO_SET_MODULATIONPARAMS (modulation_bytes sf bw_hz cr) h8;
          h10 = set_cmd RADIO_SET_PACKETPARAMS (packet_bytes 0xFF) h9;
          h11 = issue (WriteRegisters REG_LR_SYNCWORD [0x2B, 0x44]) h10;
          h12 = set_cmd RADIO_SET_BUFFERBASEADDRESS [0x00, 0x80] h11;
          h13 = set_cmd RADIO_SET_RFSWITCHMODE [0x01] h12;
          h14 = apply_pa_tx_params e h13
      in set_cmd RADIO_CFG_DIOIRQ [0x02, 0x03, 0x02, 0x03, 0x00, 0x00, 0x00, 0x00] h14)"

definition subghz_spi_init_before_reset :: "hw \<Rightarrow> hw" where
  "subghz_spi_init_before_reset h =
     issue (Setup SubghzNssUnselect) (issue (Setup SubghzSpiConfig)
       (issue (Setup DataSyncBarrier) (issue (Setup SubghzSpiClkEnable) h)))"

definition stm32wl_radio_init :: "hal_env \<Rightarrow> radio \<Rightarrow> bool \<times> radio" where
  "stm32wl_radio_init e s =
     (case s of (d, h) \<Rightarrow>
      let h1 = rf_ctrl_init e h;
          d1 = d\<lparr>hsubghz := hsubghz_zero\<lparr>hs_prescaler_2 := True\<rparr>, rx_pending := False, rx_len := 0,
                 last_rssi := 0, last_snr := 0\<rparr>;
          h2 = subghz_spi_init_before_reset h1;
          h3 = issue (Delay 5) (issue (RfReset False) (issue (RfReset True) h2));
          h4 = subghz_wait_busy e h3;
          h5 = issue (NvicEnable SUBGHZ_Radio_IRQn) (issue (NvicSetPriority SUBGHZ_Radio_IRQn 2) h4);
          h6 = issue (Setup ClearFlagRfBusy) (issue (Setup RadioBusyTriggerWuIt)
                 (issue (Setup ExtiEnableIT44) (issue (Setup ExtiRisingTrig44) h5)));
          d2 = d1\<lparr>hsubghz := (hsubghz d1)\<lparr>hs_deep_sleep := 0, hs_error_code := 0, hs_ready := True\<rparr>\<rparr>;
          h7 = rf_ctrl_set_off e h6;
          h8 = radio_apply_lora_params e DEFAULT_FREQ_HZ DEFAULT_SF DEFAULT_BW_HZ DEFAULT_CR h7;
          h9 = subghz_wait_busy e (clr_irq h8);
          h10 = issue (Delay 5) (set_rx (rf_ctrl_set_rx e h9))
      in (True, (d2, h10)))"

definition stm32wl_radio_set_freq :: "hal_env \<Rightarrow> u32 \<Rightarrow> radio \<Rightarrow> bool \<times> radio" where
  "stm32wl_radio_set_freq e freq_hz s =
     (case s of (d, h) \<Rightarrow>
      let h1 = set_cmd RADIO_SET_STANDBY [0x00] h;
          c = ExecSetCmd RADIO_SET_RFFREQUENCY (rf_freq_bytes freq_hz)
      in if \<not> call_ok e c h1 then (False, (d, issue c h1))
         else (True, (d, set_rx (rf_ctrl_set_rx e (subghz_wait_busy e (issue c h1))))))"

definition stm32wl_radio_set_lora :: "hal_env \<Rightarrow> u8 \<Rightarrow> u32 \<Rightarrow> u8 \<Rightarrow> radio \<Rightarrow> bool \<times> radio" where
  "stm32wl_radio_set_lora e sf bw_hz cr s =
     (case s of (d, h) \<Rightarrow>
      let h1 = set_cmd RADIO_SET_STANDBY [0x00] h;
          c1 = ExecSetCmd RADIO_SET_MODULATIONPARAMS (modulation_bytes sf bw_hz cr)
      in if \<not> call_ok e c1 h1 then (False, (d, issue c1 h1))
         else let h2 = issue c1 h1; c2 = ExecSetCmd RADIO_SET_PACKETPARAMS (packet_bytes 0xFF) in
           if \<not> call_ok e c2 h2 then (False, (d, issue c2 h2))
           else let h3 = issue (WriteRegisters REG_LR_SYNCWORD [0x2B, 0x44]) (issue c2 h2) in
             (True, (d, set_rx (rf_ctrl_set_rx e (subghz_wait_busy e h3)))))"

section \<open>Transmission\<close>

definition irq_word :: "u8 list \<Rightarrow> u16" where
  "irq_word irq = push_bit 8 (ucast (irq ! 0)) OR ucast (irq ! 1)"

text \<open>The loop \<open>while ((HAL_GetTick() - t0) < 4000u)\<close>: \<open>tx_ok\<close> and the history; \<open>None\<close> if it never ends.\<close>

partial_function (option) tx_poll :: "hal_env \<Rightarrow> u32 \<Rightarrow> hw \<Rightarrow> (bool \<times> hw) option" where
  "tx_poll e t0 h =
     (let now = env_tick e h; h1 = issue GetTick h in
      if now - t0 < 4000 then
        (let c = ExecGetCmd RADIO_GET_IRQSTATUS 2;
             final_irq = irq_word (call_bytes e c 2 h1);
             h2 = issue c h1
         in if call_ok e c h1 \<and> final_irq AND 0x0201 \<noteq> 0
            then Some (final_irq AND 0x01 \<noteq> 0, h2)
            else tx_poll e t0 h2)
      else Some (False, h1))"

text \<open>Back to reception after the transmission, and the interrupt re-enabled.\<close>

definition return_to_rx :: "hal_env \<Rightarrow> hw \<Rightarrow> hw" where
  "return_to_rx e h =
     (let h1 = subghz_wait_busy e (set_cmd RADIO_SET_STANDBY [0x00] h);
          h2 = clr_irq (rf_ctrl_set_off e h1);
          h3 = subghz_wait_busy e (set_cmd RADIO_SET_PACKETPARAMS (packet_bytes 0xFF) h2);
          h4 = set_rx (rf_ctrl_set_rx e h3)
      in issue (NvicEnable SUBGHZ_Radio_IRQn) (issue (NvicClearPending SUBGHZ_Radio_IRQn) h4))"

text \<open>The calls up to \<open>RADIO_SET_PACKETPARAMS\<close>.\<close>

definition tx_prepare :: "hal_env \<Rightarrow> nat \<Rightarrow> hw \<Rightarrow> hw" where
  "tx_prepare e len h =
     (let h1 = issue (NvicDisable SUBGHZ_Radio_IRQn) h;
          h2 = subghz_wait_busy e (set_cmd RADIO_SET_STANDBY [0x00] h1);
          h3 = subghz_wait_busy e (apply_pa_tx_params e h2);
          h4 = clr_irq (rf_ctrl_set_off e h3)
      in set_cmd RADIO_SET_PACKETPARAMS (packet_bytes (of_nat len)) h4)"

definition stm32wl_radio_tx :: "hal_env \<Rightarrow> u8 list ptr \<Rightarrow> nat \<Rightarrow> radio \<Rightarrow> (bool \<times> radio) run" where
  "stm32wl_radio_tx e data len s =
     (case s of (d, h) \<Rightarrow>
      case data of None \<Rightarrow> Inr (False, (d, h))
      | Some bs \<Rightarrow>
        if len > 256 then Inr (False, (d, h))
        else let h1 = tx_prepare e len h; c1 = WriteBuffer 0 (take len bs) in
          if \<not> call_ok e c1 h1
          then Inr (False, (d, issue (NvicEnable SUBGHZ_Radio_IRQn) (issue c1 h1)))
          else let h2 = subghz_wait_busy e (issue c1 h1);
                   h3 = subghz_wait_busy e (rf_ctrl_set_tx e h2);
                   c2 = ExecSetCmd RADIO_SET_TX [0x02, 0xEE, 0x00]
            in if \<not> call_ok e c2 h3
               then Inr (False, (d, issue (NvicEnable SUBGHZ_Radio_IRQn)
                                  (rf_ctrl_set_rx e (issue c2 h3))))
               else let h4 = issue c2 h3; t0 = env_tick e h4 in
                 case tx_poll e t0 (issue GetTick h4) of
                   None \<Rightarrow> Inl Hang
                 | Some (tx_ok, h5) \<Rightarrow> Inr (tx_ok, (d, return_to_rx e h5)))"

section \<open>Reception\<close>

definition rearm_rx :: "hal_env \<Rightarrow> hw \<Rightarrow> hw" where
  "rearm_rx e h = set_rx (rf_ctrl_set_rx e (subghz_wait_busy e h))"

definition unlock_irq :: "hw \<Rightarrow> hw" where
  "unlock_irq h = issue (NvicEnable SUBGHZ_Radio_IRQn) (issue (NvicClearPending SUBGHZ_Radio_IRQn) h)"

text \<open>\<open>(int16_t)(-(int8_t)b / 2)\<close> and \<open>(int8_t)b / 4\<close>, with C's division towards zero.\<close>

definition rssi_of :: "u8 \<Rightarrow> u16" where
  "rssi_of b = word_of_int ((- sint b) sdiv 2)"

definition snr_of :: "u8 \<Rightarrow> u8" where
  "snr_of b = word_of_int (sint b sdiv 4)"

definition stm32wl_radio_rx_poll ::
  "hal_env \<Rightarrow> u8 list ptr \<Rightarrow> nat \<Rightarrow> radio \<Rightarrow> nat \<times> u8 list ptr \<times> radio" where
  "stm32wl_radio_rx_poll e buf max_len s =
     (case s of (d, h) \<Rightarrow>
      case buf of None \<Rightarrow> (0, buf, (d, h))
      | Some b \<Rightarrow>
        if max_len = 0 then (0, buf, (d, h))
        else if \<not> rx_pending d then (0, buf, (d, h))
        else let h1 = issue (NvicDisable SUBGHZ_Radio_IRQn) h;
                 d1 = d\<lparr>rx_pending := False\<rparr>;
                 c1 = ExecGetCmd RADIO_GET_RXBUFFERSTATUS 2
          in if \<not> call_ok e c1 h1 then (0, buf, (d1, unlock_irq (issue c1 h1)))
             else let status = call_bytes e c1 2 h1;
                      payload_len = unat (status ! 0);
                      offset = status ! 1;
                      h2 = issue c1 h1
               in if payload_len = 0 \<or> payload_len > max_len \<or> payload_len > 256
                  then (0, buf, (d1, unlock_irq (rearm_rx e h2)))
                  else let c2 = ReadBuffer offset payload_len;
                           d2 = d1\<lparr>rx_buf := memcpy_at (rx_buf d1) 0 (call_bytes e c2 payload_len h2)\<rparr>;
                           h3 = issue c2 h2
                    in if \<not> call_ok e c2 h2 then (0, buf, (d2, unlock_irq (rearm_rx e h3)))
                       else let b' = memcpy_at b 0 (take payload_len (rx_buf d2));
                                d3 = d2\<lparr>rx_len := payload_len\<rparr>;
                                h4 = clr_irq h3;
                                c3 = ExecGetCmd RADIO_GET_PACKETSTATUS 3;
                                pkt_status = call_bytes e c3 3 h4;
                                d4 = (if call_ok e c3 h4
                                      then d3\<lparr>last_rssi := rssi_of (pkt_status ! 1),
                                              last_snr := snr_of (pkt_status ! 2)\<rparr>
                                      else d3)
                         in (payload_len, Some b', (d4, unlock_irq (rearm_rx e (issue c3 h4)))))"

definition stm32wl_radio_get_rssi_snr :: "u16 ptr \<Rightarrow> u8 ptr \<Rightarrow> radio \<Rightarrow> u16 ptr \<times> u8 ptr" where
  "stm32wl_radio_get_rssi_snr rssi snr s =
     (map_option (\<lambda>_. last_rssi (fst s)) rssi, map_option (\<lambda>_. last_snr (fst s)) snr)"

definition stm32wl_ops :: "hal_env \<Rightarrow> radio radio_phy_ops" where
  "stm32wl_ops e = \<lparr>op_init = stm32wl_radio_init e, op_set_freq = stm32wl_radio_set_freq e,
     op_set_lora = stm32wl_radio_set_lora e, op_tx = stm32wl_radio_tx e,
     op_rx_poll = stm32wl_radio_rx_poll e, op_get_last_rssi_snr = stm32wl_radio_get_rssi_snr\<rparr>"

definition radio_stm32wl_register ::
  "hal_env \<Rightarrow> radio radio_phy_ops ptr \<Rightarrow> radio radio_phy_ops ptr" where
  "radio_stm32wl_register e s_ops = radio_phy_set_ops (Some (stm32wl_ops e)) s_ops"

section \<open>Callbacks from the HAL\<close>

definition HAL_SUBGHZ_MspInit :: "hw \<Rightarrow> hw" where
  "HAL_SUBGHZ_MspInit h =
     issue (NvicEnable SUBGHZ_Radio_IRQn) (issue (NvicSetPriority SUBGHZ_Radio_IRQn 2)
       (issue (Setup DataSyncBarrier) (issue (Setup SubghzSpiClkEnable) h)))"

definition HAL_SUBGHZ_MspDeInit :: "hw \<Rightarrow> hw" where
  "HAL_SUBGHZ_MspDeInit h = issue (Setup SubghzSpiClkDisable) (issue (NvicDisable SUBGHZ_Radio_IRQn) h)"

definition HAL_SUBGHZ_RxCpltCallback :: "radio_drv \<Rightarrow> radio_drv" where
  "HAL_SUBGHZ_RxCpltCallback d = d\<lparr>rx_pending := True\<rparr>"

definition HAL_SUBGHZ_TxCpltCallback :: "radio_drv \<Rightarrow> radio_drv" where
  "HAL_SUBGHZ_TxCpltCallback d = d\<lparr>tx_done_flag := True\<rparr>"

definition HAL_SUBGHZ_RxTxTimeoutCallback :: "radio_drv \<Rightarrow> radio_drv" where
  "HAL_SUBGHZ_RxTxTimeoutCallback d = d"

end
