(* ===== verification/Lora_Meshtastic.thy ===== *)
theory Lora_Meshtastic
  imports Radio_Phy
begin

text \<open>
  \<open>firmware/Radio/lora_meshtastic.h\<close> and \<open>lora_meshtastic.c\<close>: regions, modem presets, the current
  parameters, and the calls into the driver layer. The two enumerations are ordered as in C, by
  \<open>instantiation\<close> of the library's \<open>linorder\<close> class.
\<close>

section \<open>Enumerations\<close>

datatype lora_region = REGION_EU_868 | REGION_US_915 | REGION_EU_433 | REGION_LORA_24 | REGION_COUNT

fun region_index :: "lora_region \<Rightarrow> nat" where
  "region_index REGION_EU_868 = 0"
| "region_index REGION_US_915 = 1"
| "region_index REGION_EU_433 = 2"
| "region_index REGION_LORA_24 = 3"
| "region_index REGION_COUNT = 4"

lemma region_index_inject: "region_index a = region_index b \<Longrightarrow> a = b"
  by (cases a; cases b) simp_all

instantiation lora_region :: linorder
begin

definition less_eq_lora_region :: "lora_region \<Rightarrow> lora_region \<Rightarrow> bool" where
  "less_eq_lora_region a b \<longleftrightarrow> region_index a \<le> region_index b"

definition less_lora_region :: "lora_region \<Rightarrow> lora_region \<Rightarrow> bool" where
  "less_lora_region a b \<longleftrightarrow> region_index a < region_index b"

instance
  by standard (auto simp: less_eq_lora_region_def less_lora_region_def intro: region_index_inject)

end

datatype lora_modem_preset =
    MODEM_SHORT_FAST | MODEM_SHORT_SLOW | MODEM_MEDIUM_FAST | MODEM_MEDIUM_SLOW
  | MODEM_LONG_FAST | MODEM_LONG_SLOW | MODEM_VERY_LONG_SLOW | MODEM_COUNT

fun preset_index :: "lora_modem_preset \<Rightarrow> nat" where
  "preset_index MODEM_SHORT_FAST = 0"
| "preset_index MODEM_SHORT_SLOW = 1"
| "preset_index MODEM_MEDIUM_FAST = 2"
| "preset_index MODEM_MEDIUM_SLOW = 3"
| "preset_index MODEM_LONG_FAST = 4"
| "preset_index MODEM_LONG_SLOW = 5"
| "preset_index MODEM_VERY_LONG_SLOW = 6"
| "preset_index MODEM_COUNT = 7"

lemma preset_index_inject: "preset_index a = preset_index b \<Longrightarrow> a = b"
  by (cases a; cases b) simp_all

instantiation lora_modem_preset :: linorder
begin

definition less_eq_lora_modem_preset :: "lora_modem_preset \<Rightarrow> lora_modem_preset \<Rightarrow> bool" where
  "less_eq_lora_modem_preset a b \<longleftrightarrow> preset_index a \<le> preset_index b"

definition less_lora_modem_preset :: "lora_modem_preset \<Rightarrow> lora_modem_preset \<Rightarrow> bool" where
  "less_lora_modem_preset a b \<longleftrightarrow> preset_index a < preset_index b"

instance
  by standard
    (auto simp: less_eq_lora_modem_preset_def less_lora_modem_preset_def intro: preset_index_inject)

end

section \<open>Tables and state\<close>

definition region_freq_default :: "u32 list" where
  "region_freq_default = [869525000, 906875000, 433875000, 2403000000]"

record modem_preset_t =
  mp_sf :: u8
  mp_bw :: u32
  mp_cr :: u8

definition modem_presets :: "modem_preset_t list" where
  "modem_presets =
    [\<lparr>mp_sf = 7, mp_bw = 250000, mp_cr = 5\<rparr>,
     \<lparr>mp_sf = 8, mp_bw = 250000, mp_cr = 5\<rparr>,
     \<lparr>mp_sf = 9, mp_bw = 250000, mp_cr = 5\<rparr>,
     \<lparr>mp_sf = 10, mp_bw = 250000, mp_cr = 5\<rparr>,
     \<lparr>mp_sf = 11, mp_bw = 250000, mp_cr = 5\<rparr>,
     \<lparr>mp_sf = 12, mp_bw = 125000, mp_cr = 8\<rparr>,
     \<lparr>mp_sf = 12, mp_bw = 125000, mp_cr = 8\<rparr>]"

record lora_params =
  sf :: u8
  bw_hz :: u32
  cr :: u8
  freq_hz :: u32

record lora_state =
  s_params :: lora_params
  s_inited :: bool

definition lora_reset :: lora_state where
  "lora_reset = \<lparr>s_params = \<lparr>sf = 0, bw_hz = 0, cr = 0, freq_hz = 0\<rparr>, s_inited = False\<rparr>"

section \<open>Operations\<close>

definition lora_init :: "'s radio_phy_ops ptr \<Rightarrow> lora_state \<Rightarrow> 's \<Rightarrow> bool \<times> lora_state \<times> 's" where
  "lora_init s_ops st s =
     (if s_inited st then (True, st, s)
      else let st1 = st\<lparr>s_params := \<lparr>sf = 11, bw_hz = 250000, cr = 5,
                 freq_hz = region_freq_default ! region_index REGION_EU_868\<rparr>\<rparr>;
               (ok, s1) = radio_phy_init s_ops s
        in if \<not> ok then (False, st1, s1) else (True, st1\<lparr>s_inited := True\<rparr>, s1))"

definition lora_set_region_preset ::
  "'s radio_phy_ops ptr \<Rightarrow> lora_region \<Rightarrow> lora_modem_preset \<Rightarrow> lora_state \<Rightarrow> 's \<Rightarrow> bool \<times> lora_state \<times> 's" where
  "lora_set_region_preset s_ops region preset st s =
     (if region \<ge> REGION_COUNT \<or> preset \<ge> MODEM_COUNT then (False, st, s)
      else let m = modem_presets ! preset_index preset;
               p = \<lparr>sf = mp_sf m, bw_hz = mp_bw m, cr = mp_cr m,
                    freq_hz = region_freq_default ! region_index region\<rparr>;
               st1 = st\<lparr>s_params := p\<rparr>;
               (ok1, s1) = radio_phy_set_freq s_ops (freq_hz p) s
        in if \<not> ok1 then (False, st1, s1)
           else let (ok2, s2) = radio_phy_set_lora s_ops (sf p) (bw_hz p) (cr p) s1
             in if \<not> ok2 then (False, st1, s2) else (True, st1, s2))"

definition lora_get_params :: "lora_params ptr \<Rightarrow> lora_state \<Rightarrow> lora_params ptr" where
  "lora_get_params out st = (if out = NULL then NULL else Some (s_params st))"

definition lora_tx :: "'s radio_phy_ops ptr \<Rightarrow> u8 list ptr \<Rightarrow> nat \<Rightarrow> 's \<Rightarrow> (bool \<times> 's) run" where
  "lora_tx s_ops data len s =
     (if data = NULL then Inr (False, s) else radio_phy_tx s_ops data len s)"

definition lora_rx_poll ::
  "'s radio_phy_ops ptr \<Rightarrow> u8 list ptr \<Rightarrow> nat \<Rightarrow> 's \<Rightarrow> nat \<times> u8 list ptr \<times> 's" where
  "lora_rx_poll s_ops buf max_len s =
     (if buf = NULL \<or> max_len = 0 then (0, buf, s) else radio_phy_rx_poll s_ops buf max_len s)"

text \<open>
  \<open>r\<close> and \<open>s\<close> of the code are uninitialised locals that the driver stores to; \<open>r0\<close>, \<open>s0\<close> are what
  they held.
\<close>

definition lora_last_rssi :: "'s radio_phy_ops ptr \<Rightarrow> u16 \<Rightarrow> u8 \<Rightarrow> 's \<Rightarrow> u16" where
  "lora_last_rssi s_ops r0 s0 s =
     (case radio_phy_get_last_rssi_snr s_ops (Some r0) (Some s0) s of
        (Some r, _) \<Rightarrow> r | (None, _) \<Rightarrow> r0)"

definition lora_last_snr :: "'s radio_phy_ops ptr \<Rightarrow> u16 \<Rightarrow> u8 \<Rightarrow> 's \<Rightarrow> u8" where
  "lora_last_snr s_ops r0 s0 s =
     (case radio_phy_get_last_rssi_snr s_ops (Some r0) (Some s0) s of
        (_, Some sn) \<Rightarrow> sn | (_, None) \<Rightarrow> s0)"

section \<open>Lemmas\<close>

text \<open>Every parameter set a preset can select is in the ranges \<open>lora_params_t\<close> documents.\<close>

definition lora_params_ok :: "lora_params \<Rightarrow> bool" where
  "lora_params_ok p \<longleftrightarrow> 7 \<le> unat (sf p) \<and> unat (sf p) \<le> 12 \<and> bw_hz p \<in> {125000, 250000, 500000} \<and>
     5 \<le> unat (cr p) \<and> unat (cr p) \<le> 8 \<and> freq_hz p \<in> set region_freq_default"

lemma region_less_count: "\<not> REGION_COUNT \<le> r \<Longrightarrow> region_index r < 4"
  by (cases r) (simp_all add: less_eq_lora_region_def)

lemma preset_less_count: "\<not> MODEM_COUNT \<le> p \<Longrightarrow> preset_index p < 7"
  by (cases p) (simp_all add: less_eq_lora_modem_preset_def)

lemma set_region_preset_params:
  assumes "region < REGION_COUNT" and "preset < MODEM_COUNT"
    and "lora_set_region_preset s_ops region preset st s = (r, st', s')"
  shows "s_params st' = \<lparr>sf = mp_sf (modem_presets ! preset_index preset), bw_hz = mp_bw (modem_presets ! preset_index preset),
      cr = mp_cr (modem_presets ! preset_index preset), freq_hz = region_freq_default ! region_index region\<rparr> \<and>
    lora_params_ok (s_params st')"
proof -
  let ?m = "modem_presets ! preset_index preset"
  have p: "s_params st' = \<lparr>sf = mp_sf ?m, bw_hz = mp_bw ?m, cr = mp_cr ?m,
      freq_hz = region_freq_default ! region_index region\<rparr>"
    using assms by (auto simp: lora_set_region_preset_def Let_def not_le [symmetric] split: prod.splits if_splits)
  have "region_index region < length region_freq_default"
    using assms(1) region_less_count [of region] by (simp add: region_freq_default_def not_le)
  then have "lora_params_ok (s_params st')"
    unfolding p lora_params_ok_def using assms(2)
    by (cases preset) (simp_all add: modem_presets_def less_lora_modem_preset_def)
  with p show ?thesis by blast
qed

end
