(* ===== verification/Radio_Facts.thy ===== *)
theory Radio_Facts
  imports Radio_Stm32wl Lora_Meshtastic
begin

text \<open>
  What the SX126x driver guarantees, read off the history of HAL calls: the radio's mode, the radio
  interrupt, the antenna switch and the frames handed to the transmitter. The section on the contract
  interprets the locale \<open>radio_driver\<close> on the driver.
\<close>

section \<open>Reading the history\<close>

datatype radio_mode = StandbyMode | RxMode | TxMode

fun mode_step :: "radio_mode \<Rightarrow> hal_call \<Rightarrow> radio_mode" where
  "mode_step m (ExecSetCmd c bs) =
     (if c = RADIO_SET_STANDBY then StandbyMode else if c = RADIO_SET_RX then RxMode
      else if c = RADIO_SET_TX then TxMode else m)"
| "mode_step m (RfReset b) = StandbyMode"
| "mode_step m _ = m"

definition radio_mode_of :: "hw \<Rightarrow> radio_mode" where
  "radio_mode_of h = foldl mode_step StandbyMode h"

fun irq_step :: "bool \<Rightarrow> hal_call \<Rightarrow> bool" where
  "irq_step i (NvicEnable q) = (if q = SUBGHZ_Radio_IRQn then True else i)"
| "irq_step i (NvicDisable q) = (if q = SUBGHZ_Radio_IRQn then False else i)"
| "irq_step i _ = i"

definition irq_enabled :: "hw \<Rightarrow> bool" where
  "irq_enabled h = foldl irq_step False h"

text \<open>
  The transmit buffer, the payload length last configured, and the frames for which \<open>RADIO_SET_TX\<close>
  was issued, also where the radio refused the command or the driver cut the transmission off. \<open>Air_Done\<close>
  tells those whose transmission was completed.
\<close>

fun air_step :: "u8 list \<times> nat \<times> u8 list list \<Rightarrow> hal_call \<Rightarrow> u8 list \<times> nat \<times> u8 list list" where
  "air_step (buf, n, fs) (WriteBuffer off bs) = (memcpy_at buf (unat off) bs, n, fs)"
| "air_step (buf, n, fs) (ExecSetCmd c ps) =
     (if c = RADIO_SET_PACKETPARAMS then (buf, unat (ps ! 3), fs)
      else if c = RADIO_SET_TX then (buf, n, fs @ [take n buf]) else (buf, n, fs))"
| "air_step a _ = a"

definition air :: "hw \<Rightarrow> u8 list \<times> nat \<times> u8 list list" where
  "air h = foldl air_step (replicate 256 0, 0, []) h"

definition frames_sent :: "hw \<Rightarrow> u8 list list" where
  "frames_sent h = snd (snd (air h))"

text \<open>Every transmission was started from standby, with the switch on TX and the interrupt masked.\<close>

definition tx_guarded :: "hal_env \<Rightarrow> hw \<Rightarrow> bool" where
  "tx_guarded e h \<longleftrightarrow>
     (\<forall>i < length h. \<forall>bs. h ! i = ExecSetCmd RADIO_SET_TX bs \<longrightarrow>
        rf_levels (take i h) = rf_tx_levels e \<and> \<not> irq_enabled (take i h) \<and>
        radio_mode_of (take i h) = StandbyMode)"

lemma radio_mode_issue [mon_simps]: "radio_mode_of (issue c h) = mode_step (radio_mode_of h) c"
  by (simp add: radio_mode_of_def issue_def)

lemma irq_enabled_issue [mon_simps]: "irq_enabled (issue c h) = irq_step (irq_enabled h) c"
  by (simp add: irq_enabled_def issue_def)

lemma air_issue [mon_simps]: "air (issue c h) = air_step (air h) c"
  by (simp add: air_def issue_def)

lemma tx_guarded_issue [mon_simps]:
  "tx_guarded e (issue c h) \<longleftrightarrow> tx_guarded e h \<and>
     (\<forall>bs. c = ExecSetCmd RADIO_SET_TX bs \<longrightarrow>
        rf_levels h = rf_tx_levels e \<and> \<not> irq_enabled h \<and> radio_mode_of h = StandbyMode)"
  by (auto simp: tx_guarded_def issue_def nth_append less_Suc_eq)

lemma uart_out_rf [mon_simps, simp]:
  "radio_mode_of (rf_ctrl_set_off e h) = radio_mode_of h" "irq_enabled (rf_ctrl_set_off e h) = irq_enabled h"
  "air (rf_ctrl_set_off e h) = air h" "tx_guarded g (rf_ctrl_set_off e h) = tx_guarded g h"
  "radio_mode_of (rf_ctrl_set_rx e h) = radio_mode_of h" "irq_enabled (rf_ctrl_set_rx e h) = irq_enabled h"
  "air (rf_ctrl_set_rx e h) = air h" "tx_guarded g (rf_ctrl_set_rx e h) = tx_guarded g h"
  "radio_mode_of (rf_ctrl_set_tx e h) = radio_mode_of h" "irq_enabled (rf_ctrl_set_tx e h) = irq_enabled h"
  "air (rf_ctrl_set_tx e h) = air h" "tx_guarded g (rf_ctrl_set_tx e h) = tx_guarded g h"
  by (cases "air h";
      simp add: rf_ctrl_set_off_def rf_ctrl_set_rx_def rf_ctrl_set_tx_def radio_mode_issue
        irq_enabled_issue air_issue tx_guarded_issue)+

lemma air_step_other [simp]:
  "air_step a (PollFlag f) = a" "air_step a GetTick = a" "air_step a (Delay n) = a"
  "air_step a (NvicEnable q) = a" "air_step a (NvicDisable q) = a" "air_step a (NvicClearPending q) = a"
  "air_step a (ExecGetCmd c n) = a" "air_step a (WriteRegisters r bs) = a" "air_step a (ReadRegister r) = a"
  by (cases a; simp)+

lemma wait_busy_invariant:
  assumes "\<And>h. f (issue (PollFlag RfBusys) h) = f h"
  shows "f (subghz_wait_busy e h) = f h"
proof -
  have "f (wait_busy_loop e n h) = f h" for n
    by (induction n arbitrary: h) (simp_all add: assms)
  then show ?thesis by (simp add: subghz_wait_busy_def)
qed

lemma wait_busy_mon [mon_simps, simp]:
  "rf_levels (subghz_wait_busy e h) = rf_levels h"
  "radio_mode_of (subghz_wait_busy e h) = radio_mode_of h"
  "irq_enabled (subghz_wait_busy e h) = irq_enabled h"
  "air (subghz_wait_busy e h) = air h"
  "tx_guarded g (subghz_wait_busy e h) = tx_guarded g h"
  by (rule wait_busy_invariant; simp add: rf_levels_issue radio_mode_issue irq_enabled_issue air_issue
      tx_guarded_issue)+

lemma wait_busy_extends [simp, intro]: "extends g h \<Longrightarrow> extends g (subghz_wait_busy e h)"
proof -
  have "extends g (wait_busy_loop e n h)" if "extends g h" for n h
    using that by (induction n arbitrary: h) auto
  then show "extends g h \<Longrightarrow> extends g (subghz_wait_busy e h)"
    by (simp add: subghz_wait_busy_def)
qed

lemma apply_pa_mon [mon_simps, simp]:
  "rf_levels (apply_pa_tx_params e h) = rf_levels h"
  "radio_mode_of (apply_pa_tx_params e h) = radio_mode_of h"
  "irq_enabled (apply_pa_tx_params e h) = irq_enabled h"
  "air (apply_pa_tx_params e h) = air h"
  "tx_guarded g (apply_pa_tx_params e h) = tx_guarded g h"
  by (cases "air h"; simp add: apply_pa_tx_params_def set_cmd_def Let_def mon_simps)+

lemma tx_prepare_mon [mon_simps]:
  "rf_levels (tx_prepare e n h) = rf_off_levels e"
  "radio_mode_of (tx_prepare e n h) = StandbyMode"
  "\<not> irq_enabled (tx_prepare e n h)"
  "fst (air (tx_prepare e n h)) = fst (air h)"
  "fst (snd (air (tx_prepare e n h))) = n mod 256"
  "snd (snd (air (tx_prepare e n h))) = snd (snd (air h))"
  "tx_guarded g (tx_prepare e n h) = tx_guarded g h"
  by (cases "air h"; simp add: tx_prepare_def set_cmd_def clr_irq_def Let_def mon_simps packet_bytes_def
      unsigned_of_nat take_bit_eq_mod)+

lemma return_to_rx_mon [mon_simps]:
  "rf_levels (return_to_rx e h) = rf_rx_levels e"
  "radio_mode_of (return_to_rx e h) = RxMode"
  "irq_enabled (return_to_rx e h)"
  "frames_sent (return_to_rx e h) = frames_sent h"
  "tx_guarded g (return_to_rx e h) = tx_guarded g h"
  by (cases "air h"; simp add: return_to_rx_def set_cmd_def clr_irq_def set_rx_def Let_def mon_simps
      frames_sent_def)+

section \<open>The transmit poll\<close>

text \<open>
  One turn of the poll reads the clock and then the interrupt status; \<open>polled k h\<close> is the history after
  \<open>k\<close> turns. \<open>in_time\<close> is the condition of the loop, and \<open>tx_report\<close> what the status read of a turn tells:
  nothing, when the command fails or neither TX_DONE (bit 0) nor TIMEOUT (bit 9) is set, or whether
  TX_DONE is.
\<close>

abbreviation irq_status_call :: hal_call where
  "irq_status_call \<equiv> ExecGetCmd RADIO_GET_IRQSTATUS 2"

abbreviation set_tx_call :: hal_call where
  "set_tx_call \<equiv> ExecSetCmd RADIO_SET_TX [0x02, 0xEE, 0x00]"

definition poll_turn :: "hw \<Rightarrow> hw" where
  "poll_turn h = issue irq_status_call (issue GetTick h)"

primrec polled :: "nat \<Rightarrow> hw \<Rightarrow> hw" where
  "polled 0 h = h"
| "polled (Suc k) h = poll_turn (polled k h)"

definition in_time :: "hal_env \<Rightarrow> u32 \<Rightarrow> hw \<Rightarrow> bool" where
  "in_time e t0 h \<longleftrightarrow> env_tick e h - t0 < 4000"

definition tx_report :: "hal_env \<Rightarrow> hw \<Rightarrow> bool option" where
  "tx_report e h =
     (let irq = irq_word (call_bytes e irq_status_call 2 (issue GetTick h)) in
      if call_ok e irq_status_call (issue GetTick h) \<and> irq AND 0x0201 \<noteq> 0 then Some (irq AND 0x01 \<noteq> 0) else None)"

lemma polled_first: "polled (Suc k) h = polled k (poll_turn h)"
  by (induction k) simp_all

lemma tx_poll_turn:
  "tx_poll e t0 h =
     (if in_time e t0 h then
        (case tx_report e h of Some ok \<Rightarrow> Some (ok, poll_turn h) | None \<Rightarrow> tx_poll e t0 (poll_turn h))
      else Some (False, issue GetTick h))"
  by (subst tx_poll.simps) (simp add: Let_def in_time_def tx_report_def poll_turn_def)

text \<open>The poll goes on while it is in time and nothing is reported; how it ends.\<close>

definition poll_ends :: "hal_env \<Rightarrow> u32 \<Rightarrow> hw \<Rightarrow> nat \<Rightarrow> bool \<Rightarrow> hw \<Rightarrow> bool" where
  "poll_ends e t0 h k ok h' \<longleftrightarrow>
     (\<forall>j < k. in_time e t0 (polled j h) \<and> tx_report e (polled j h) = None) \<and>
     (if in_time e t0 (polled k h) then tx_report e (polled k h) = Some ok \<and> h' = polled (Suc k) h
      else \<not> ok \<and> h' = issue GetTick (polled k h))"

lemma poll_ends_later:
  assumes "in_time e t0 h" and "tx_report e h = None" and "poll_ends e t0 (poll_turn h) k ok h'"
  shows "poll_ends e t0 h (Suc k) ok h'"
  using assms unfolding poll_ends_def polled_first [symmetric] by (auto simp: less_Suc_eq_0_disj)

lemma tx_poll_ends:
  assumes "tx_poll e t0 h = Some (ok, h')"
  obtains k where "poll_ends e t0 h k ok h'"
proof -
  have "\<exists>k. poll_ends e t0 h k (fst r) (snd r)" if "tx_poll e t0 h = Some r" for e t0 h r
  proof (rule tx_poll.raw_induct [where P = "\<lambda>e t0 h r. \<exists>k. poll_ends e t0 h k (fst r) (snd r)", OF _ that])
    fix p :: "hal_env \<Rightarrow> u32 \<Rightarrow> hw \<Rightarrow> (bool \<times> hw) option" and e t0 h r
    assume IH: "\<And>e t0 h r. p e t0 h = Some r \<Longrightarrow> \<exists>k. poll_ends e t0 h k (fst r) (snd r)"
      and eq: "(let now = env_tick e h; h1 = issue GetTick h in
        if now - t0 < 4000 then
          (let c = ExecGetCmd RADIO_GET_IRQSTATUS 2;
               final_irq = irq_word (call_bytes e c 2 h1);
               h2 = issue c h1
           in if call_ok e c h1 \<and> final_irq AND 0x0201 \<noteq> 0
              then Some (final_irq AND 0x01 \<noteq> 0, h2)
              else p e t0 h2)
        else Some (False, h1)) = Some r"
    from eq [unfolded Let_def] have "(if in_time e t0 h then
        (case tx_report e h of Some ok \<Rightarrow> Some (ok, poll_turn h) | None \<Rightarrow> p e t0 (poll_turn h))
      else Some (False, issue GetTick h)) = Some r"
      by (auto simp: Let_def in_time_def tx_report_def poll_turn_def split: if_splits)
    then consider "poll_ends e t0 h 0 (fst r) (snd r)"
      | "in_time e t0 h" "tx_report e h = None" "p e t0 (poll_turn h) = Some r"
      by (auto simp: poll_ends_def split: if_splits option.splits)
    then show "\<exists>k. poll_ends e t0 h k (fst r) (snd r)"
    proof cases
      case 2
      then show ?thesis using IH [OF 2(3)] poll_ends_later by blast
    qed blast
  qed
  from this [OF assms] show ?thesis using that by auto
qed

lemma tx_poll_invariant:
  assumes "tx_poll e t0 h = Some (ok, h')"
    and f: "\<And>h. f (issue GetTick h) = f h" "\<And>h. f (issue irq_status_call h) = f h"
  shows "f h' = f h"
proof -
  have p: "f (polled k h) = f h" for k
    by (induction k) (simp_all add: poll_turn_def f)
  obtain k where "poll_ends e t0 h k ok h'" by (rule tx_poll_ends [OF assms(1)])
  then show ?thesis
    using p by (auto simp: poll_ends_def poll_turn_def f split: if_splits)
qed

lemma tx_poll_mon:
  assumes "tx_poll e t0 h = Some (ok, h')"
  shows "rf_levels h' = rf_levels h" and "radio_mode_of h' = radio_mode_of h"
    and "irq_enabled h' = irq_enabled h" and "air h' = air h" and "tx_guarded g h' = tx_guarded g h"
  by (rule tx_poll_invariant [OF assms]; simp add: mon_simps)+

text \<open>
  A transmission, case by case. \<open>tx_ready\<close> is the history before \<open>RADIO_SET_TX\<close>, with the frame written,
  \<open>tx_started\<close> the one after it.
\<close>

definition tx_ready :: "hal_env \<Rightarrow> u8 list \<Rightarrow> nat \<Rightarrow> hw \<Rightarrow> hw" where
  "tx_ready e bs len h =
     subghz_wait_busy e (rf_ctrl_set_tx e (subghz_wait_busy e (issue (WriteBuffer 0 (take len bs)) (tx_prepare e len h))))"

definition tx_started :: "hal_env \<Rightarrow> u8 list \<Rightarrow> nat \<Rightarrow> hw \<Rightarrow> hw" where
  "tx_started e bs len h = issue set_tx_call (tx_ready e bs len h)"

lemma tx_run:
  assumes "len \<le> 256"
  shows "stm32wl_radio_tx e (Some bs) len (d, h) =
    (if \<not> call_ok e (WriteBuffer 0 (take len bs)) (tx_prepare e len h)
     then Inr (False, (d, issue (NvicEnable SUBGHZ_Radio_IRQn) (issue (WriteBuffer 0 (take len bs)) (tx_prepare e len h))))
     else if \<not> call_ok e set_tx_call (tx_ready e bs len h)
     then Inr (False, (d, issue (NvicEnable SUBGHZ_Radio_IRQn) (rf_ctrl_set_rx e (tx_started e bs len h))))
     else case tx_poll e (env_tick e (tx_started e bs len h)) (issue GetTick (tx_started e bs len h)) of
         None \<Rightarrow> Inl Hang
       | Some (ok, h5) \<Rightarrow> Inr (ok, (d, return_to_rx e h5)))"
  using assms by (simp add: stm32wl_radio_tx_def Let_def tx_ready_def tx_started_def)

lemma tx_cases:
  assumes "stm32wl_radio_tx e (Some bs) len (d, h) = Inr (ok, (d', h'))" and "len \<le> 256"
  obtains (write_fails) c where "c = WriteBuffer 0 (take len bs)" "\<not> call_ok e c (tx_prepare e len h)"
      "\<not> ok" "d' = d" "h' = issue (NvicEnable SUBGHZ_Radio_IRQn) (issue c (tx_prepare e len h))"
  | (tx_fails) "call_ok e (WriteBuffer 0 (take len bs)) (tx_prepare e len h)"
      "\<not> call_ok e set_tx_call (tx_ready e bs len h)" "\<not> ok" "d' = d"
      "h' = issue (NvicEnable SUBGHZ_Radio_IRQn) (rf_ctrl_set_rx e (tx_started e bs len h))"
  | (polled) h5 where "call_ok e (WriteBuffer 0 (take len bs)) (tx_prepare e len h)"
      "call_ok e set_tx_call (tx_ready e bs len h)"
      "tx_poll e (env_tick e (tx_started e bs len h)) (issue GetTick (tx_started e bs len h)) = Some (ok, h5)"
      "d' = d" "h' = return_to_rx e h5"
  using assms by (auto simp: tx_run split: if_splits option.splits)

lemma tx_started_mon [mon_simps]:
  "radio_mode_of (tx_ready e bs len h) = StandbyMode"
  "rf_levels (tx_started e bs len h) = rf_tx_levels e"
  "\<not> irq_enabled (tx_started e bs len h)"
  "radio_mode_of (tx_started e bs len h) = TxMode"
  "air (tx_started e bs len h) =
     air_step (air_step (air (tx_prepare e len h)) (WriteBuffer 0 (take len bs))) set_tx_call"
  "tx_guarded e (tx_started e bs len h) = tx_guarded e h"
  by (simp_all add: tx_started_def tx_ready_def mon_simps)

text \<open>
  C22. Every transmission the driver starts is started from standby, with the antenna switch on the
  transmit path and the radio interrupt masked, on every outcome of every HAL call; and the interrupt
  is enabled again on every return.
\<close>

theorem stm32wl_tx_guarded:
  assumes "stm32wl_radio_tx e (Some bs) len (d, h) = Inr (ok, (d', h'))" and "len \<le> 256"
    and "tx_guarded e h"
  shows "tx_guarded e h' \<and> irq_enabled h' \<and> d' = d"
  using assms(1,2)
proof (cases rule: tx_cases)
  case (write_fails c)
  then show ?thesis using assms(3) by (simp add: mon_simps)
next
  case tx_fails
  then show ?thesis using assms(3) by (simp add: mon_simps)
next
  case (polled h5)
  then show ?thesis using assms(3) tx_poll_mon(5) [OF polled(3), of e] by (simp add: mon_simps)
qed


section \<open>The clock and the transmitter\<close>

text \<open>
  The millisecond clock \<open>t\<close> behind \<open>HAL_GetTick\<close>: it never goes back, the two calls of the poll take
  less than a second each, and any \<open>n\<close> of them take at least the four seconds of the time-out.
\<close>

definition poll_call :: "hal_call \<Rightarrow> bool" where
  "poll_call c \<longleftrightarrow> c = GetTick \<or> c = ExecGetCmd RADIO_GET_IRQSTATUS 2"

definition clock_runs :: "hal_env \<Rightarrow> (hw \<Rightarrow> nat) \<Rightarrow> nat \<Rightarrow> bool" where
  "clock_runs e t n \<longleftrightarrow> (\<forall>h. env_tick e h = of_nat (t h)) \<and>
     (\<forall>h c. poll_call c \<longrightarrow> t h \<le> t (h @ [c]) \<and> t (h @ [c]) < t h + 1000) \<and>
     (\<forall>h cs. n \<le> length cs \<and> list_all poll_call cs \<longrightarrow> t h + 4000 \<le> t (h @ cs))"

lemma poll_calls [simp]: "poll_call GetTick" "poll_call (ExecGetCmd RADIO_GET_IRQSTATUS 2)"
  by (simp_all add: poll_call_def)

lemma clock_step:
  assumes "clock_runs e t n" and "poll_call c"
  shows "t h \<le> t (issue c h)" and "t (issue c h) < t h + 1000"
  using assms by (simp_all add: clock_runs_def issue_def)

lemma clock_in_time:
  assumes "clock_runs e t n" and "t0 \<le> t h" and "t h < t0 + 2 ^ 32"
  shows "in_time e (of_nat t0) h \<longleftrightarrow> t h < t0 + 4000"
proof -
  have "env_tick e h - of_nat t0 = of_nat (t h - t0)"
    using assms by (simp add: clock_runs_def of_nat_diff)
  moreover have "unat (of_nat (t h - t0) :: u32) = t h - t0"
    using assms(2,3) by (simp add: unsigned_of_nat take_bit_nat_eq_self del: of_nat_diff)
  ultimately have u: "unat (env_tick e h - of_nat t0) = t h - t0"
    by (simp only: )
  show ?thesis using assms(2,3) unfolding in_time_def word_less_nat_alt u by auto
qed

lemma polled_calls:
  obtains cs where "issue GetTick (polled k h) = h @ cs" and "list_all poll_call cs" and "length cs = 2 * k + 1"
proof -
  have "\<exists>cs. polled k h = h @ cs \<and> list_all poll_call cs \<and> length cs = 2 * k"
    by (induction k) (auto simp: poll_turn_def issue_def)
  then show ?thesis using that by (auto simp: issue_def)
qed

text \<open>
  What the clock shows during a poll that began at the time \<open>t g\<close>: as long as the turns are in time,
  \<open>t\<close> is below the limit, and the next turn begins less than a second after a status read.
\<close>

lemma polled_clock:
  assumes clk: "clock_runs e t n" and turns: "\<And>j. j < k \<Longrightarrow> in_time e (of_nat (t g)) (polled j (issue GetTick g))"
  shows "t g \<le> t (polled k (issue GetTick g)) \<and>
    (in_time e (of_nat (t g)) (polled k (issue GetTick g)) \<longleftrightarrow> t (polled k (issue GetTick g)) < t g + 4000)"
  using turns
proof (induction k)
  case 0
  have "t g \<le> t (issue GetTick g)" "t (issue GetTick g) < t g + 1000"
    by (rule clock_step [OF clk], simp)+
  then show ?case using clock_in_time [OF clk, of "t g" "issue GetTick g"] by simp
next
  case (Suc k)
  let ?p = "polled k (issue GetTick g)"
  have p: "t g \<le> t ?p" "t ?p < t g + 4000" using Suc by simp_all
  have "t ?p \<le> t (issue GetTick ?p)" "t (issue GetTick ?p) < t ?p + 1000"
    "t (issue GetTick ?p) \<le> t (poll_turn ?p)" "t (poll_turn ?p) < t (issue GetTick ?p) + 1000"
    unfolding poll_turn_def by (rule clock_step [OF clk], simp)+
  then show ?case using p clock_in_time [OF clk, of "t g" "poll_turn ?p"] by simp
qed

lemma in_time_turns:
  assumes "clock_runs e t n" and "\<And>j. j < k \<Longrightarrow> in_time e (of_nat (t g)) (polled j (issue GetTick g))"
  shows "2 * k \<le> n"
proof (cases k)
  case (Suc m)
  obtain cs where cs: "issue GetTick (polled m (issue GetTick g)) = issue GetTick g @ cs" "list_all poll_call cs"
    "length cs = 2 * m + 1" by (rule polled_calls)
  then obtain ds where ds: "polled m (issue GetTick g) = g @ GetTick # ds" "list_all poll_call ds" "length ds = 2 * m"
    by (cases cs rule: rev_cases) (auto simp: issue_def)
  have "t (g @ GetTick # ds) < t g + 4000"
    using polled_clock [OF assms(1), of m g] assms(2) [of m] assms(2) Suc ds(1) by simp
  moreover have "t g + 4000 \<le> t (g @ GetTick # ds)" if "n \<le> 2 * m + 1"
  proof -
    have "n \<le> length (GetTick # ds) \<and> list_all poll_call (GetTick # ds)" using that ds(2,3) by simp
    then show ?thesis using assms(1) unfolding clock_runs_def by blast
  qed
  ultimately show ?thesis using Suc by fastforce
qed simp

lemma tx_poll_returns:
  assumes "clock_runs e t n"
  shows "\<exists>r. tx_poll e (env_tick e g) (issue GetTick g) = Some r"
proof (rule ccontr)
  assume hangs: "\<nexists>r. tx_poll e (env_tick e g) (issue GetTick g) = Some r"
  have t0: "env_tick e g = of_nat (t g)" using assms by (simp add: clock_runs_def)
  have "tx_poll e (env_tick e g) (polled k (issue GetTick g)) = None \<and>
      (\<forall>j < k. in_time e (of_nat (t g)) (polled j (issue GetTick g)))" for k
  proof (induction k)
    case 0
    show ?case using hangs by (cases "tx_poll e (env_tick e g) (issue GetTick g)") auto
  next
    case (Suc k)
    then show ?case
      by (subst (asm) tx_poll_turn) (auto simp: t0 less_Suc_eq split: if_splits option.splits)
  qed
  then have "2 * Suc n \<le> n" using in_time_turns [OF assms, of "Suc n"] by blast
  then show False by simp
qed

text \<open>
  A transmitter that works, for frames whose time on air is within the three seconds that the driver
  gives \<open>RADIO_SET_TX\<close> (0x02EE00 steps of 15.625 us): in standby the buffer can be written and the
  transmission started, and while the driver polls, neither TX_DONE nor TIMEOUT is reported before the
  time on air is over; from then on every status read succeeds and shows TX_DONE alone.
\<close>

definition tx_works :: "hal_env \<Rightarrow> bool" where
  "tx_works e \<longleftrightarrow>
     (\<forall>h bs. radio_mode_of h = StandbyMode \<and> length bs \<le> 256 \<longrightarrow> call_ok e (WriteBuffer 0 bs) h \<and> call_ok e set_tx_call h) \<and>
     (\<exists>t n. clock_runs e t n \<and>
        (\<forall>h. radio_mode_of h = StandbyMode \<longrightarrow>
          (\<exists>air_time \<le> 3000. \<forall>cs. list_all poll_call cs \<longrightarrow>
             (let g = issue set_tx_call h @ cs; irq = irq_word (call_bytes e irq_status_call 2 g) in
              if t g < t (issue set_tx_call h) + air_time then \<not> call_ok e irq_status_call g \<or> irq AND 0x0201 = 0
              else call_ok e irq_status_call g \<and> irq AND 0x0201 = 0x0001))))"

lemma tx_done_alone:
  assumes "(w :: u16) AND 0x0201 = 1"
  shows "w AND 1 \<noteq> 0"
proof -
  have "w AND 1 = (w AND 0x0201) AND 1" by (simp add: and.assoc)
  then show ?thesis using assms by simp
qed

lemma tx_works_poll:
  assumes "tx_works e" and "radio_mode_of h = StandbyMode"
  obtains h' where "tx_poll e (env_tick e (issue set_tx_call h)) (issue GetTick (issue set_tx_call h)) = Some (True, h')"
proof -
  let ?g = "issue set_tx_call h" and ?irq = "\<lambda>g. irq_word (call_bytes e irq_status_call 2 g)"
  let ?p = "\<lambda>k. polled k (issue GetTick ?g)"
  from assms obtain t n air_time where clk: "clock_runs e t n" and air: "air_time \<le> 3000"
    and chip: "\<And>cs. list_all poll_call cs \<Longrightarrow>
        if t (?g @ cs) < t ?g + air_time then \<not> call_ok e irq_status_call (?g @ cs) \<or> ?irq (?g @ cs) AND 0x0201 = 0
        else call_ok e irq_status_call (?g @ cs) \<and> ?irq (?g @ cs) AND 0x0201 = 1"
    unfolding tx_works_def Let_def by metis
  have t0: "env_tick e ?g = of_nat (t ?g)" using clk by (simp add: clock_runs_def)
  have report: "if t (issue GetTick (?p k)) < t ?g + air_time then tx_report e (?p k) = None
      else tx_report e (?p k) = Some True" for k
  proof -
    obtain cs where cs: "issue GetTick (?p k) = issue GetTick ?g @ cs" "list_all poll_call cs"
      by (rule polled_calls)
    from chip [of "GetTick # cs"] cs show ?thesis
      by (auto simp: tx_report_def Let_def issue_def tx_done_alone split: if_splits)
  qed
  obtain ok h' where r: "tx_poll e (env_tick e ?g) (issue GetTick ?g) = Some (ok, h')"
    using tx_poll_returns [OF clk, of ?g] by auto
  then obtain k where k: "poll_ends e (env_tick e ?g) (issue GetTick ?g) k ok h'" by (rule tx_poll_ends)
  then have turns: "in_time e (of_nat (t ?g)) (?p j)" "tx_report e (?p j) = None" if "j < k" for j
    using that by (simp_all add: poll_ends_def t0)
  have ok: "ok" if "in_time e (of_nat (t ?g)) (?p k)"
    using k that report [of k] by (auto simp: poll_ends_def t0 split: if_splits)
  have "in_time e (of_nat (t ?g)) (?p k)"
  proof (cases k)
    case 0
    have "t (issue GetTick ?g) < t ?g + 1000" by (rule clock_step [OF clk]) simp
    then show ?thesis using polled_clock [OF clk, of k ?g] 0 by simp
  next
    case (Suc m)
    have "t (issue GetTick (?p m)) < t ?g + air_time"
      using turns(2) [of m] report [of m] Suc by (auto split: if_splits)
    moreover have "t (?p k) < t (issue GetTick (?p m)) + 1000"
      unfolding Suc polled.simps poll_turn_def by (rule clock_step [OF clk]) simp
    ultimately show ?thesis using polled_clock [OF clk turns(1)] air by simp
  qed
  with ok r that show ?thesis by simp
qed

lemma tx_works_runs:
  assumes "tx_works e" and "len \<le> 256"
  obtains h' where "stm32wl_radio_tx e (Some bs) len (d, h) = Inr (True, (d, h'))"
proof -
  have "radio_mode_of (tx_ready e bs len h) = StandbyMode" "radio_mode_of (tx_prepare e len h) = StandbyMode"
    by (simp_all add: mon_simps)
  with assms(1) have ok: "call_ok e (WriteBuffer 0 (take len bs)) (tx_prepare e len h)"
    "call_ok e set_tx_call (tx_ready e bs len h)"
    unfolding tx_works_def using assms(2) by (metis length_take min.coboundedI2 min.cobounded2 order_trans, metis list.size(3) zero_le)
  obtain h' where "tx_poll e (env_tick e (tx_started e bs len h)) (issue GetTick (tx_started e bs len h)) = Some (True, h')"
    using tx_works_poll [OF assms(1), of "tx_ready e bs len h"] by (auto simp: mon_simps tx_started_def)
  then show ?thesis using that tx_run [OF assms(2)] ok by simp
qed

text \<open>Whether the transmitter works depends on the clock and on its own answers only.\<close>

lemma tx_works_cong:
  assumes "tx_works e" and "env_tick e' = env_tick e"
    and "\<And>h i. env_byte e' h irq_status_call i = env_byte e h irq_status_call i"
    and "\<And>h c. c = irq_status_call \<or> c = set_tx_call \<or> (\<exists>bs. c = WriteBuffer 0 bs) \<Longrightarrow> env_status e' h c = env_status e h c"
  shows "tx_works e'"
proof -
  have "call_ok e' irq_status_call = call_ok e irq_status_call" "call_ok e' set_tx_call = call_ok e set_tx_call"
    "call_ok e' (WriteBuffer 0 bs) = call_ok e (WriteBuffer 0 bs)" for bs
    using assms(4) by (simp_all add: fun_eq_iff call_ok_def)
  moreover have "call_bytes e' irq_status_call 2 = call_bytes e irq_status_call 2"
    using assms(3) by (simp add: fun_eq_iff call_bytes_def)
  moreover have "clock_runs e' = clock_runs e" using assms(2) by (simp add: fun_eq_iff clock_runs_def)
  ultimately have "tx_works e' = tx_works e" by (simp only: tx_works_def)
  then show ?thesis using assms(1) by simp
qed

text \<open>
  The environment of \<open>demo_env\<close> with a transmitter that is on the air for five milliseconds: TX_DONE is
  set that long after \<open>RADIO_SET_TX\<close>, and not after it was cleared.
\<close>

fun tx_age_step :: "nat option \<Rightarrow> hal_call \<Rightarrow> nat option" where
  "tx_age_step a (ExecSetCmd c bs) =
     (if c = RADIO_SET_TX then Some 0 else if c = RADIO_SET_STANDBY \<or> c = RADIO_CLR_IRQSTATUS then None
      else map_option Suc a)"
| "tx_age_step a _ = map_option Suc a"

definition demo_tx_done :: "hw \<Rightarrow> bool" where
  "demo_tx_done h = (case foldl tx_age_step None h of Some n \<Rightarrow> 5 \<le> n | None \<Rightarrow> False)"

definition demo_tx_env :: hal_env where
  "demo_tx_env = demo_env\<lparr>env_byte := (\<lambda>h c i. if c = ExecGetCmd RADIO_GET_IRQSTATUS 2 \<and> i = 1 \<and> demo_tx_done h then 1 else 0)\<rparr>"

lemma demo_tx_env_simps [simp]:
  "env_status demo_tx_env h c = HAL_OK"
  "env_byte demo_tx_env h c i = (if c = ExecGetCmd RADIO_GET_IRQSTATUS 2 \<and> i = 1 \<and> demo_tx_done h then 1 else 0)"
  "env_flag demo_tx_env h f = (f \<noteq> RfBusys \<and> f \<noteq> VosBusy)"
  "env_tick demo_tx_env h = of_nat (length h)"
  "env_ecb demo_tx_env k b i = (k ! i) XOR (b ! i) + of_nat i"
  "\<not> opt_use_lp demo_tx_env" "\<not> opt_no_tcxo demo_tx_env" "\<not> opt_rf_swap demo_tx_env"
  by (simp_all add: demo_tx_env_def)

lemma tick_clock: "env_tick e = (\<lambda>h. of_nat (length h)) \<Longrightarrow> clock_runs e length 4000"
  by (simp add: clock_runs_def)

lemma demo_age: "list_all poll_call cs \<Longrightarrow> foldl tx_age_step (Some n) cs = Some (n + length cs)"
  by (induction cs arbitrary: n) (auto simp: poll_call_def)

lemma demo_tx_works: "tx_works demo_tx_env"
  unfolding tx_works_def
proof (intro conjI exI)
  show "clock_runs demo_tx_env length 4000" by (rule tick_clock) (simp add: fun_eq_iff)
  have "demo_tx_done (issue set_tx_call h @ cs) \<longleftrightarrow> 5 \<le> length cs" if "list_all poll_call cs" for h cs
    using demo_age [OF that, of 0] by (simp add: demo_tx_done_def issue_def)
  then show "\<forall>h. radio_mode_of h = StandbyMode \<longrightarrow>
      (\<exists>air_time \<le> 3000. \<forall>cs. list_all poll_call cs \<longrightarrow>
         (let g = issue set_tx_call h @ cs; irq = irq_word (call_bytes demo_tx_env irq_status_call 2 g) in
          if length g < length (issue set_tx_call h) + air_time
          then \<not> call_ok demo_tx_env irq_status_call g \<or> irq AND 0x0201 = 0
          else call_ok demo_tx_env irq_status_call g \<and> irq AND 0x0201 = 0x0001))"
    by (intro allI impI exI [of _ 5]) (simp add: Let_def call_bytes_few irq_word_def call_ok_def)
qed (simp add: call_ok_def)

lemmas demo_tx_runs = tx_works_runs [OF demo_tx_works]

theorem stm32wl_tx_guarded_witness:
  "\<exists>h'. stm32wl_radio_tx demo_tx_env (Some [1, 2, 3]) 3 (radio_drv_reset, []) =
      Inr (True, (radio_drv_reset, h')) \<and> tx_guarded demo_tx_env h' \<and> irq_enabled h'"
proof -
  obtain h' where "stm32wl_radio_tx demo_tx_env (Some [1, 2, 3]) 3 (radio_drv_reset, []) =
      Inr (True, (radio_drv_reset, h'))"
    by (rule demo_tx_runs [where len = 3]) simp
  then show ?thesis
    using stm32wl_tx_guarded [of demo_tx_env "[1, 2, 3]" 3 radio_drv_reset "[]" True radio_drv_reset h']
    by (simp add: tx_guarded_def)
qed

section \<open>The outcome of a transmission\<close>

lemma tx_outcome:
  assumes "stm32wl_radio_tx e (Some bs) len (d, h) = Inr (ok, (d', h'))" and "len \<le> 255" and "len \<le> length bs"
  shows "if \<not> call_ok e (WriteBuffer 0 (take len bs)) (tx_prepare e len h)
    then \<not> ok \<and> frames_sent h' = frames_sent h \<and> rf_levels h' = rf_off_levels e \<and> radio_mode_of h' = StandbyMode
    else frames_sent h' = frames_sent h @ [take len bs] \<and> rf_levels h' = rf_rx_levels e \<and>
      (if \<not> call_ok e set_tx_call (tx_ready e bs len h) then \<not> ok \<and> radio_mode_of h' = TxMode
       else radio_mode_of h' = RxMode \<and>
         (let g = tx_started e bs len h in
          \<exists>k h5. poll_ends e (env_tick e g) (issue GetTick g) k ok h5 \<and> h' = return_to_rx e h5))"
proof -
  have len: "len \<le> 256" using assms(2) by simp
  have prep: "air (tx_prepare e len h) = (fst (air h), len, frames_sent h)"
    using tx_prepare_mon(4,5,6) [of e len h] assms(2)
    by (cases "air (tx_prepare e len h)") (simp add: frames_sent_def)
  from assms(1) len show ?thesis
  proof (cases rule: tx_cases)
    case (write_fails c)
    then show ?thesis by (simp add: mon_simps frames_sent_def prep)
  next
    case tx_fails
    then show ?thesis using assms(3) by (simp add: mon_simps frames_sent_def prep)
  next
    case (polled h5)
    from polled(3) obtain k where
      "poll_ends e (env_tick e (tx_started e bs len h)) (issue GetTick (tx_started e bs len h)) k ok h5"
      by (rule tx_poll_ends)
    then show ?thesis using polled assms(3) tx_poll_mon(4) [OF polled(3)]
      by (simp add: Let_def return_to_rx_mon) (simp add: mon_simps frames_sent_def prep, blast)
  qed
qed

lemma tx_frames:
  assumes "stm32wl_radio_tx e (Some bs) len (d, h) = Inr (ok, (d', h'))" and "len \<le> 255" and "len \<le> length bs"
  shows "frames_sent h' = frames_sent h @ [take len bs] \<and> rf_levels h' = rf_rx_levels e \<and>
      (radio_mode_of h' = RxMode \<or> \<not> ok \<and> radio_mode_of h' = TxMode) \<or>
    \<not> ok \<and> frames_sent h' = frames_sent h \<and> rf_levels h' = rf_off_levels e \<and>
      radio_mode_of h' = StandbyMode"
  using tx_outcome [OF assms] by (auto simp: Let_def split: if_splits)

text \<open>
  C21. What a transmission of at most 255 bytes returns, by the answers of the HAL. If the buffer cannot
  be written it returns false, no transmission is started, and the radio is left in standby with the
  antenna switch off. Otherwise \<open>RADIO_SET_TX\<close> is issued with exactly the caller's bytes as the frame, and
  the switch ends on receive. If that command is refused, the result is false and no command follows that
  would start reception. If not, the radio receives again, and the status was polled for some number \<open>k\<close> of
  turns in time that reported nothing; then either the next turn is in time as well and reports TX_DONE,
  for the result true, or TIMEOUT without it, for the result false; or the 4000 ms are over and the
  result is false.
\<close>

theorem stm32wl_tx_outcome:
  assumes "stm32wl_radio_tx e (Some bs) (length bs) (d, h) = Inr (ok, (d', h'))" and "length bs \<le> 255"
  shows "if \<not> call_ok e (WriteBuffer 0 bs) (tx_prepare e (length bs) h)
    then \<not> ok \<and> frames_sent h' = frames_sent h \<and> rf_levels h' = rf_off_levels e \<and> radio_mode_of h' = StandbyMode
    else frames_sent h' = frames_sent h @ [bs] \<and> rf_levels h' = rf_rx_levels e \<and>
      (if \<not> call_ok e set_tx_call (tx_ready e bs (length bs) h) then \<not> ok \<and> radio_mode_of h' = TxMode
       else radio_mode_of h' = RxMode \<and>
         (let g = tx_started e bs (length bs) h; turn = (\<lambda>j. polled j (issue GetTick g)) in
          \<exists>k. (\<forall>j < k. in_time e (env_tick e g) (turn j) \<and> tx_report e (turn j) = None) \<and>
            (if in_time e (env_tick e g) (turn k) then tx_report e (turn k) = Some ok else \<not> ok)))"
  using tx_outcome [OF assms(1,2)] by (auto simp: Let_def poll_ends_def split: if_splits)

theorem stm32wl_tx_outcome_witness:
  "\<exists>h'. stm32wl_radio_tx demo_tx_env (Some [1, 2, 3]) (length [1 :: u8, 2, 3]) (radio_drv_reset, []) =
      Inr (True, (radio_drv_reset, h')) \<and> frames_sent h' = [[1, 2, 3]] \<and> radio_mode_of h' = RxMode"
proof -
  obtain h' where r: "stm32wl_radio_tx demo_tx_env (Some [1, 2, 3]) (length [1 :: u8, 2, 3]) (radio_drv_reset, []) =
      Inr (True, (radio_drv_reset, h'))"
    by (rule demo_tx_runs [where len = "length [1 :: u8, 2, 3]"]) simp
  from stm32wl_tx_outcome [OF r] have "frames_sent h' = [[1, 2, 3]] \<and> radio_mode_of h' = RxMode"
    by (simp add: air_def frames_sent_def call_ok_def)
  with r show ?thesis by blast
qed


text \<open>
  The length check accepts 256 bytes, whose length byte is 0: the driver may report success, and
  the frame it put on the air is empty.
\<close>

lemma stm32wl_tx_256_sends_empty:
  assumes "stm32wl_radio_tx e (Some bs) 256 (d, h) = Inr (True, (d', h'))"
  shows "frames_sent h' = frames_sent h @ [[]]"
proof -
  have prep: "fst (snd (air (tx_prepare e 256 h))) = 0" "snd (snd (air (tx_prepare e 256 h))) = frames_sent h"
    using tx_prepare_mon(5,6) [of e 256 h] by (simp_all add: frames_sent_def)
  have "(256 :: nat) \<le> 256" by simp
  with assms show ?thesis
  proof (cases rule: tx_cases)
    case (polled h5)
    then show ?thesis using tx_poll_mon(4) [OF polled(3)] prep
      by (cases "air (tx_prepare e 256 h)") (simp add: return_to_rx_mon, simp add: mon_simps frames_sent_def)
  qed simp_all
qed

section \<open>The transmit poll is bounded\<close>

text \<open>The status reads of a history, each by the history it was made in.\<close>

definition status_reads :: "hw \<Rightarrow> hw list" where
  "status_reads h = map (\<lambda>i. take i h) (filter (\<lambda>i. h ! i = irq_status_call) [0..<length h])"

lemma status_reads_issue [mon_simps]:
  "status_reads (issue c h) = status_reads h @ (if c = irq_status_call then [h] else [])"
proof -
  have "filter (\<lambda>i. (h @ [c]) ! i = irq_status_call) [0..<length h] = filter (\<lambda>i. h ! i = irq_status_call) [0..<length h]"
    by (rule filter_cong) (simp_all add: nth_append)
  moreover have "map (\<lambda>i. take i (h @ [c])) (filter p [0..<length h]) = map (\<lambda>i. take i h) (filter p [0..<length h])" for p
    by simp
  ultimately show ?thesis by (simp add: status_reads_def issue_def)
qed

lemma status_reads_frame [mon_simps]:
  "status_reads (subghz_wait_busy e h) = status_reads h"
  "status_reads (rf_ctrl_set_off e h) = status_reads h" "status_reads (rf_ctrl_set_rx e h) = status_reads h"
  "status_reads (rf_ctrl_set_tx e h) = status_reads h" "status_reads (apply_pa_tx_params e h) = status_reads h"
  by (rule wait_busy_invariant, simp add: status_reads_issue)
    (simp_all add: rf_ctrl_set_off_def rf_ctrl_set_rx_def rf_ctrl_set_tx_def apply_pa_tx_params_def set_cmd_def
      Let_def status_reads_issue)

lemma status_reads_tx [mon_simps]:
  "status_reads (tx_prepare e len h) = status_reads h"
  "status_reads (tx_started e bs len h) = status_reads h"
  "status_reads (return_to_rx e h) = status_reads h"
  by (simp_all add: tx_prepare_def tx_started_def tx_ready_def return_to_rx_def set_cmd_def clr_irq_def set_rx_def
      Let_def status_reads_issue status_reads_frame)

lemma status_reads_polled:
  "status_reads (polled k h) = status_reads h @ map (\<lambda>j. issue GetTick (polled j h)) [0..<k]"
  by (induction k) (simp_all add: poll_turn_def status_reads_issue)

lemma tx_returns_reads:
  assumes clk: "clock_runs e t n"
  obtains ok d' h' rs where "stm32wl_radio_tx e (Some bs) len (d, h) = Inr (ok, (d', h'))"
    and "status_reads h' = status_reads h @ rs" and "length rs \<le> n"
    and "\<And>g. g \<in> set rs \<Longrightarrow> \<exists>g0. g = issue GetTick g0 \<and> t g0 < t (tx_started e bs len h) + 4000"
proof (cases "len \<le> 256 \<and> call_ok e (WriteBuffer 0 (take len bs)) (tx_prepare e len h) \<and>
    call_ok e set_tx_call (tx_ready e bs len h)")
  case False
  have "\<exists>h'. stm32wl_radio_tx e (Some bs) len (d, h) = Inr (False, (d, h')) \<and> status_reads h' = status_reads h"
  proof (cases "len \<le> 256")
    case True
    with False show ?thesis by (auto simp: tx_run mon_simps)
  qed (simp add: stm32wl_radio_tx_def)
  then show ?thesis using that [of _ _ _ "[]"] by auto
next
  case True
  let ?g = "tx_started e bs len h"
  let ?p = "\<lambda>k. polled k (issue GetTick ?g)"
  have t0: "env_tick e ?g = of_nat (t ?g)" using clk by (simp add: clock_runs_def)
  obtain ok h5 where r: "tx_poll e (env_tick e ?g) (issue GetTick ?g) = Some (ok, h5)"
    using tx_poll_returns [OF clk, of ?g] by auto
  then obtain k where k: "poll_ends e (env_tick e ?g) (issue GetTick ?g) k ok h5" by (rule tx_poll_ends)
  then have before: "in_time e (of_nat (t ?g)) (?p j)" if "j < k" for j using that by (simp add: poll_ends_def t0)
  define m where "m = (if in_time e (of_nat (t ?g)) (?p k) then Suc k else k)"
  have turns: "in_time e (of_nat (t ?g)) (?p j)" if "j < m" for j
    using that before by (auto simp: m_def less_Suc_eq split: if_splits)
  have "status_reads h5 = status_reads (?p m)"
    using k by (auto simp: poll_ends_def t0 m_def status_reads_issue split: if_splits)
  then have reads: "status_reads (return_to_rx e h5) = status_reads h @ map (\<lambda>j. issue GetTick (?p j)) [0..<m]"
    by (simp only: status_reads_polled) (simp add: mon_simps)
  show ?thesis
  proof (rule that [OF _ reads])
    show "stm32wl_radio_tx e (Some bs) len (d, h) = Inr (ok, (d, return_to_rx e h5))"
      using True r by (simp add: tx_run)
    show "length (map (\<lambda>j. issue GetTick (?p j)) [0..<m]) \<le> n"
    proof -
      have "2 * m \<le> n" by (rule in_time_turns [OF clk]) (rule turns)
      then show ?thesis by simp
    qed
    show "\<exists>g0. g = issue GetTick g0 \<and> t g0 < t ?g + 4000" if "g \<in> set (map (\<lambda>j. issue GetTick (?p j)) [0..<m])" for g
    proof -
      from that obtain j where j: "j < m" "g = issue GetTick (?p j)" by auto
      then have "t (?p j) < t ?g + 4000"
        using polled_clock [OF clk turns, of j] turns [OF j(1)] by simp
      with j(2) show ?thesis by blast
    qed
  qed
qed

lemma tx_returns:
  assumes "clock_runs e t n"
  shows "\<exists>ok s'. stm32wl_radio_tx e data len s = Inr (ok, s')"
proof (cases data)
  case None
  then show ?thesis by (intro exI [of _ False] exI [of _ s]) (cases s, simp add: stm32wl_radio_tx_def)
next
  case (Some bs)
  then show ?thesis using tx_returns_reads [OF assms, of bs len "fst s" "snd s"] by (metis prod.collapse)
qed

text \<open>
  C23. A transmission always returns, and its poll ends after 4000 ms at the latest: while the millisecond
  clock \<open>t\<close> runs, whatever the radio answers and also across a wrap of the 32-bit tick counter, the
  interrupt status is read only after a reading of the clock that is less than 4000 ms past the start of
  the transmission, and at most \<open>n\<close> times, where \<open>n\<close> calls are enough for 4000 ms to pass. A null pointer
  is refused without a call.
\<close>

theorem stm32wl_tx_returns:
  assumes "clock_runs e t n"
  shows "stm32wl_radio_tx e None len (d, h) = Inr (False, (d, h)) \<and>
    (\<exists>ok d' h' rs. stm32wl_radio_tx e (Some bs) len (d, h) = Inr (ok, (d', h')) \<and>
      status_reads h' = status_reads h @ rs \<and> length rs \<le> n \<and>
      list_all (\<lambda>g. \<exists>g0. g = issue GetTick g0 \<and> t g0 < t (tx_started e bs len h) + 4000) rs)"
proof -
  obtain ok d' h' rs where "stm32wl_radio_tx e (Some bs) len (d, h) = Inr (ok, (d', h'))"
    "status_reads h' = status_reads h @ rs" "length rs \<le> n"
    "\<And>g. g \<in> set rs \<Longrightarrow> \<exists>g0. g = issue GetTick g0 \<and> t g0 < t (tx_started e bs len h) + 4000"
    by (rule tx_returns_reads [OF assms, where bs = bs and len = len and d = d and h = h]) (rule that)
  then show ?thesis
    by (intro conjI) (simp add: stm32wl_radio_tx_def, unfold list_all_iff, blast)
qed

theorem stm32wl_tx_returns_witness:
  "\<exists>ok d' h' rs. stm32wl_radio_tx demo_env (Some [1]) 1 (radio_drv_reset, []) = Inr (ok, (d', h')) \<and>
     status_reads h' = rs \<and> length rs \<le> 4000"
proof -
  have "clock_runs demo_env length 4000" by (rule tick_clock) (simp add: fun_eq_iff)
  from stm32wl_tx_returns [OF this, of 1 radio_drv_reset "[]" "[1]"] show ?thesis
    by (auto simp: status_reads_def)
qed


section \<open>Reception\<close>

lemma rearm_mon [mon_simps]:
  "rf_levels (unlock_irq h) = rf_levels h" "radio_mode_of (unlock_irq h) = radio_mode_of h"
  "irq_enabled (unlock_irq h)" "frames_sent (unlock_irq h) = frames_sent h"
  "rf_levels (rearm_rx e h) = rf_rx_levels e" "radio_mode_of (rearm_rx e h) = RxMode"
  "frames_sent (rearm_rx e h) = frames_sent h"
  by (cases "air h"; simp add: unlock_irq_def rearm_rx_def set_rx_def set_cmd_def mon_simps frames_sent_def)+

text \<open>The driver keeps its contract: its receive buffer stays 256 bytes long.\<close>

definition radio_inv :: "radio \<Rightarrow> bool" where
  "radio_inv s \<longleftrightarrow> length (rx_buf (fst s)) = 256"

lemma rx_poll_bound:
  "stm32wl_radio_rx_poll e (Some buf) m (d, h) = (n, b', s') \<Longrightarrow> n \<le> m \<and> n < 256"
  using unsigned_less [of _, where 'a = nat and 'b = 8]
  by (auto simp: stm32wl_radio_rx_poll_def Let_def split: if_splits)

lemma rx_poll_inv:
  "stm32wl_radio_rx_poll e b m (d, h) = (n, b', s') \<Longrightarrow> length (rx_buf d) = 256 \<Longrightarrow> length (rx_buf (fst s')) = 256"
  by (auto simp: stm32wl_radio_rx_poll_def Let_def split: if_splits option.splits)

lemma rx_poll_buffer:
  assumes "stm32wl_radio_rx_poll e (Some buf) m (d, h) = (n, b', s')"
    and "m \<le> length buf" and "length (rx_buf d) = 256"
  shows "\<exists>buf'. b' = Some buf' \<and> length buf' = length buf \<and> drop n buf' = drop n buf"
  using assms by (auto simp: stm32wl_radio_rx_poll_def Let_def split: if_splits)

interpretation stm32wl_driver: radio_driver "stm32wl_ops e" radio_inv for e
proof
  show "op_rx_poll (stm32wl_ops e) (Some buf) m s = (n, b', s') \<Longrightarrow> n \<le> m \<and> n < 256"
    for s :: radio and buf m n b' s'
    by (cases s) (auto simp: stm32wl_ops_def dest!: rx_poll_bound)
  show "radio_inv s \<Longrightarrow> op_rx_poll (stm32wl_ops e) (Some buf) m s = (n, b', s') \<Longrightarrow> m \<le> length buf \<Longrightarrow>
      \<exists>buf'. b' = Some buf' \<and> length buf' = length buf \<and> drop n buf' = drop n buf"
    for s :: radio and buf m n b' s'
    by (cases s) (auto simp: stm32wl_ops_def radio_inv_def dest!: rx_poll_buffer)
  show "radio_inv s \<Longrightarrow> op_rx_poll (stm32wl_ops e) b m s = (n, b', s') \<Longrightarrow> radio_inv s'"
    for s :: radio and b m n b' s'
    by (cases s) (auto simp: stm32wl_ops_def radio_inv_def dest!: rx_poll_inv)
  show "radio_inv s \<Longrightarrow> op_tx (stm32wl_ops e) d l s = Inr (r, s') \<Longrightarrow> radio_inv s'"
    for s :: radio and d l r s'
    by (cases s) (auto simp: stm32wl_ops_def radio_inv_def stm32wl_radio_tx_def Let_def
        split: if_splits option.splits)
qed (auto simp: stm32wl_ops_def radio_inv_def stm32wl_radio_init_def stm32wl_radio_set_freq_def
    stm32wl_radio_set_lora_def stm32wl_radio_get_rssi_snr_def Let_def split: prod.splits if_splits)

text \<open>
  C24. Polling with a pending packet, by the answers of the HAL. The pending flag is cleared and on
  return the interrupt is enabled. If the radio tells the length and the offset of the packet, it is
  receiving again afterwards; and if the length is positive and within the caller's bound and the packet
  can be read, exactly its bytes are stored at the start of the caller's buffer, the rest of which keeps
  its contents, and its length is returned. In every other case 0 is returned and the buffer is left
  alone.
\<close>

theorem stm32wl_rx_poll_correct:
  assumes "stm32wl_radio_rx_poll e (Some b) m (d, h) = (n, b', (d', h'))" and "rx_pending d" and "0 < m"
    and "m \<le> length b" and "length (rx_buf d) = 256"
    and h1: "h1 = issue (NvicDisable SUBGHZ_Radio_IRQn) h" and c: "c = ExecGetCmd RADIO_GET_RXBUFFERSTATUS 2"
    and st: "st = call_bytes e c 2 h1" and r: "r = ReadBuffer (st ! 1) (unat (st ! 0))"
  shows "\<not> rx_pending d' \<and> irq_enabled h' \<and>
    (call_ok e c h1 \<longrightarrow> radio_mode_of h' = RxMode \<and> rf_levels h' = rf_rx_levels e) \<and>
    (if call_ok e c h1 \<and> 0 < unat (st ! 0) \<and> unat (st ! 0) \<le> m \<and> call_ok e r (issue c h1)
     then n = unat (st ! 0) \<and> b' = Some (call_bytes e r n (issue c h1) @ drop n b)
     else n = 0 \<and> b' = Some b)"
proof -
  have "unat (st ! 0) < 256" using unsigned_less [of "st ! 0", where 'a = nat] by simp
  then have l: "\<not> 256 < unat (st ! 0)" by simp
  show ?thesis
    using assms(1-5) l unfolding r st c h1
    by (auto simp: stm32wl_radio_rx_poll_def Let_def mon_simps memcpy_at_def split: if_splits)
qed

theorem stm32wl_rx_poll_correct_witness:
  "let e = demo_env\<lparr>env_byte := (\<lambda>h c i. if c = ExecGetCmd RADIO_GET_RXBUFFERSTATUS 2 then 2 else 9)\<rparr>;
       d = radio_drv_reset\<lparr>rx_pending := True\<rparr>;
       (n, b', (d', h')) = stm32wl_radio_rx_poll e (Some [1, 2, 3]) 3 (d, [])
   in n = 2 \<and> b' = Some [9, 9, 3] \<and> \<not> rx_pending d' \<and> radio_mode_of h' = RxMode"
proof -
  let ?e = "demo_env\<lparr>env_byte := (\<lambda>h c i. if c = ExecGetCmd RADIO_GET_RXBUFFERSTATUS 2 then 2 else 9)\<rparr>"
  let ?d = "radio_drv_reset\<lparr>rx_pending := True\<rparr>"
  obtain n b' d' h' where r: "stm32wl_radio_rx_poll ?e (Some [1, 2, 3]) 3 (?d, []) = (n, b', (d', h'))"
    by (metis prod_cases4)
  moreover have "n = 2"
    using r by (auto simp: stm32wl_radio_rx_poll_def Let_def call_ok_def call_bytes_few radio_drv_reset_def)
  ultimately show ?thesis
    using stm32wl_rx_poll_correct [OF r]
    by (simp add: radio_drv_reset_def call_ok_def call_bytes_few)
qed


section \<open>Signal values and radio parameters\<close>

lemma sint_u8: "sint (b :: u8) = (if unat b < 128 then int (unat b) else int (unat b) - 256)"
proof -
  have "uint b < 256" using unsigned_less [of b, where 'a = int] by simp
  have u: "int (unat b) = uint b" by simp
  have "unat b < 128 \<longleftrightarrow> uint b < 128" using u by linarith
  moreover have "bit (uint b) 7 \<longleftrightarrow> 128 \<le> uint b"
  proof -
    have "bit (uint b) 7 \<longleftrightarrow> odd (uint b div 128)"
      by (simp add: bit_iff_odd)
    moreover have "uint b div 128 = (if uint b < 128 then 0 else 1)"
      using \<open>uint b < 256\<close> by (auto simp: div_pos_pos_trivial)
    ultimately show ?thesis by simp
  qed
  ultimately show ?thesis
    using \<open>uint b < 256\<close> by (auto simp: sint_uint signed_take_bit_eq_take_bit_minus take_bit_eq_mod)
qed

lemma sint_u16_of_int: "- (2 ^ 15) \<le> k \<Longrightarrow> k < 2 ^ 15 \<Longrightarrow> sint (word_of_int k :: u16) = k"
  by (simp add: signed_of_int signed_take_bit_int_eq_self)

text \<open>
  The signal strength the driver stores for a packet-status byte \<open>b\<close>. The radio's value is minus
  half the unsigned byte, in dBm; because the byte is read as a signed one, every signal weaker than
  -64 dBm is stored as a positive number.
\<close>

lemma rssi_of_sign:
  "sint (rssi_of b) = (if unat b < 128 then - int (unat b div 2) else int ((256 - unat b) div 2))"
proof -
  define n where "n = unat b"
  have b: "n < 256" using unsigned_less [of b, where 'a = nat] by (simp add: n_def)
  have s: "sint b = (if n < 128 then int n else int n - 256)"
    by (simp add: sint_u8 n_def)
  let ?v = "(- sint b) sdiv 2"
  have v: "?v = (if n < 128 then - int (n div 2) else int ((256 - n) div 2))"
    using b by (auto simp: s signed_divide_int_def zdiv_int of_nat_diff sgn_if)
  have "sint (word_of_int ?v :: u16) = ?v"
  proof -
    have "- (2 ^ 15) \<le> ?v" "?v < 2 ^ 15" using b unfolding v by auto
    then show ?thesis by (rule sint_u16_of_int)
  qed
  then have "sint (rssi_of b) = ?v" by (simp only: rssi_of_def)
  then show ?thesis unfolding v n_def .
qed

text \<open>
  The frequency register holds \<open>f * 2^25 / 32 MHz\<close> rounded down, for every frequency whose
  register value fits in 32 bits, and its four bytes are sent most significant first.
\<close>

lemma freq_register_exact:
  assumes "unat f < 4096000000"
  shows "unat (freq_to_rf_reg f) = unat f * 2 ^ 25 div 32000000 \<and>
    unat (freq_to_rf_reg f) * 32000000 \<le> unat f * 2 ^ 25 \<and>
    unat f * 2 ^ 25 < (unat (freq_to_rf_reg f) + 1) * 32000000 \<and>
    (let bs = rf_freq_bytes f in be32 (bs ! 0) (bs ! 1) (bs ! 2) (bs ! 3)) = freq_to_rf_reg f"
proof -
  have f: "unat f < 2 ^ 32" using unsigned_less [of f, where 'a = nat] by simp
  have "unat (push_bit 25 (ucast f :: u64)) = unat f * 2 ^ 25"
  proof -
    have "unat (ucast f :: u64) = unat f"
      using f by (simp add: unsigned_ucast_eq take_bit_nat_eq_self)
    then show ?thesis
      using f by (simp add: push_bit_eq_mult unat_word_ariths)
  qed
  then have q: "unat (push_bit 25 (ucast f :: u64) div XTAL_FREQ_HZ) = unat f * 2 ^ 25 div 32000000"
    by (simp add: unat_div XTAL_FREQ_HZ_def)
  have "unat f * 2 ^ 25 div 32000000 < 2 ^ 32"
    using assms by (simp add: div_less_iff_less_mult)
  then have r: "unat (freq_to_rf_reg f) = unat f * 2 ^ 25 div 32000000"
    unfolding freq_to_rf_reg_def by (simp add: unsigned_ucast_eq q take_bit_nat_eq_self)
  have "unat f * 2 ^ 25 div 32000000 * 32000000 \<le> unat f * 2 ^ 25"
    "unat f * 2 ^ 25 < (unat f * 2 ^ 25 div 32000000 + 1) * 32000000"
    by (simp_all add: div_times_less_eq_dividend dividend_less_div_times)
  moreover have "(let bs = rf_freq_bytes f in be32 (bs ! 0) (bs ! 1) (bs ! 2) (bs ! 3)) = freq_to_rf_reg f"
    using le32_byte_n [of "freq_to_rf_reg f"] by (simp add: rf_freq_bytes_def be32_le32 Let_def)
  ultimately show ?thesis
    unfolding r by blast
qed

text \<open>The parameters last sent with a command.\<close>

fun cmd_step :: "radio_cmd \<Rightarrow> u8 list option \<Rightarrow> hal_call \<Rightarrow> u8 list option" where
  "cmd_step c r (ExecSetCmd c' bs) = (if c' = c then Some bs else r)"
| "cmd_step c r _ = r"

definition last_cmd :: "radio_cmd \<Rightarrow> hw \<Rightarrow> u8 list option" where
  "last_cmd c h = foldl (cmd_step c) None h"

lemma last_cmd_issue [mon_simps]: "last_cmd c (issue x h) = cmd_step c (last_cmd c h) x"
  by (simp add: last_cmd_def issue_def)

lemma last_cmd_frame [mon_simps, simp]:
  "last_cmd c (subghz_wait_busy e h) = last_cmd c h"
  "last_cmd c (rf_ctrl_set_rx e h) = last_cmd c h"
  by (rule wait_busy_invariant, simp add: last_cmd_issue) (simp add: rf_ctrl_set_rx_def last_cmd_issue)

lemma set_freq_result:
  assumes "stm32wl_radio_set_freq e f (d, h) = (ok, (d', h'))"
  shows "if ok then last_cmd RADIO_SET_RFFREQUENCY h' = Some (rf_freq_bytes f) \<and>
      radio_mode_of h' = RxMode \<and> rf_levels h' = rf_rx_levels e
    else radio_mode_of h' = StandbyMode"
  using assms by (auto simp: stm32wl_radio_set_freq_def Let_def set_cmd_def set_rx_def mon_simps split: if_splits)

lemma set_lora_result:
  assumes "stm32wl_radio_set_lora e sfv bw crv (d, h) = (ok, (d', h'))"
  shows "last_cmd RADIO_SET_RFFREQUENCY h' = last_cmd RADIO_SET_RFFREQUENCY h \<and>
    (if ok then last_cmd RADIO_SET_MODULATIONPARAMS h' = Some (modulation_bytes sfv bw crv) \<and>
      last_cmd RADIO_SET_PACKETPARAMS h' = Some (packet_bytes 0xFF) \<and>
      radio_mode_of h' = RxMode \<and> rf_levels h' = rf_rx_levels e
    else radio_mode_of h' = StandbyMode)"
  using assms by (auto simp: stm32wl_radio_set_lora_def Let_def set_cmd_def set_rx_def mon_simps split: if_splits)

text \<open>
  C34. Selecting a region and a preset: the parameters kept are the entries of the two tables for this
  region and this preset; on success the frequency and modulation last sent to the radio are these
  parameters and the radio is receiving; on failure the radio is left in standby although the new
  parameters are already stored.
\<close>

theorem set_region_preset_programs_radio:
  assumes "lora_set_region_preset (Some (stm32wl_ops e)) region preset st (d, h) = (ok, st', (d', h'))"
    and "region < REGION_COUNT" and "preset < MODEM_COUNT"
    and m: "m = modem_presets ! preset_index preset" and f: "f = region_freq_default ! region_index region"
  shows "s_params st' = \<lparr>sf = mp_sf m, bw_hz = mp_bw m, cr = mp_cr m, freq_hz = f\<rparr> \<and> lora_params_ok (s_params st') \<and>
    (if ok then
       last_cmd RADIO_SET_RFFREQUENCY h' = Some (rf_freq_bytes f) \<and>
       last_cmd RADIO_SET_MODULATIONPARAMS h' = Some (modulation_bytes (mp_sf m) (mp_bw m) (mp_cr m)) \<and>
       radio_mode_of h' = RxMode \<and> rf_levels h' = rf_rx_levels e
     else radio_mode_of h' = StandbyMode)"
proof -
  have lt: "\<not> region \<ge> REGION_COUNT" "\<not> preset \<ge> MODEM_COUNT"
    using assms(2,3) by simp_all
  have "if ok then
       last_cmd RADIO_SET_RFFREQUENCY h' = Some (rf_freq_bytes f) \<and>
       last_cmd RADIO_SET_MODULATIONPARAMS h' = Some (modulation_bytes (mp_sf m) (mp_bw m) (mp_cr m)) \<and>
       radio_mode_of h' = RxMode \<and> rf_levels h' = rf_rx_levels e
     else radio_mode_of h' = StandbyMode"
    using assms(1) lt unfolding m f
    by (auto simp: lora_set_region_preset_def radio_phy_set_freq_def radio_phy_set_lora_def current_ops_def
        stm32wl_ops_def Let_def split: prod.splits if_splits dest!: set_freq_result set_lora_result)
  then show ?thesis
    using set_region_preset_params [OF assms(2,3,1)] unfolding m f by blast
qed

theorem set_region_preset_programs_radio_witness:
  "let (ok, st', (d', h')) = lora_set_region_preset (Some (stm32wl_ops demo_env)) REGION_EU_433 MODEM_LONG_SLOW
     lora_reset (radio_drv_reset, []) in
   ok \<and> freq_hz (s_params st') = 433875000 \<and> last_cmd RADIO_SET_MODULATIONPARAMS h' = Some [12, 4, 4, 1] \<and>
   radio_mode_of h' = RxMode"
proof -
  let ?r = "lora_set_region_preset (Some (stm32wl_ops demo_env)) REGION_EU_433 MODEM_LONG_SLOW
     lora_reset (radio_drv_reset, [])"
  obtain ok st' d' h' where r: "?r = (ok, st', (d', h'))"
    by (metis prod_cases4)
  have lt: "REGION_EU_433 < REGION_COUNT" "MODEM_LONG_SLOW < MODEM_COUNT"
    by (simp_all add: less_lora_region_def less_lora_modem_preset_def)
  have ok
    using r lt by (auto simp: lora_set_region_preset_def radio_phy_set_freq_def radio_phy_set_lora_def
        current_ops_def stm32wl_ops_def stm32wl_radio_set_freq_def stm32wl_radio_set_lora_def call_ok_def
        less_le_not_le Let_def)
  then show ?thesis
    using set_region_preset_programs_radio [OF r lt refl refl]
    by (simp add: r modulation_bytes_def bw_to_param_def cr_to_param_def modem_presets_def region_freq_default_def)
qed

end
