(* ===== verification/Config_Store.thy ===== *)
theory Config_Store
  imports Hal
begin

text \<open>
  \<open>firmware/Config/config_store.h\<close> and \<open>config_store.c\<close>: the device configuration, its defaults and its
  storage in the last flash page. The HAL's flash operations and the memory-mapped flash are a
  parameter, \<open>flash_hal\<close>, over an abstract flash state; what the code relies on is the predicate
  \<open>flash_ok\<close>, which states how NOR flash behaves: an erased page reads \<open>0xFF\<close>, programming an erased
  doubleword stores it, a failed programming step changes nothing.
\<close>

section \<open>The configuration and its bytes\<close>

text \<open>\<open>device_config_t\<close>; \<open>cfg_pad\<close> is the two bytes of padding that \<open>sizeof\<close> counts and \<open>memcpy\<close> copies.\<close>

record device_config =
  node_id :: u32
  cfg_region :: u8
  cfg_modem_preset :: u8
  channel_psk :: "u8 list"
  short_name :: "u8 list"
  long_name :: "u8 list"
  cfg_pad :: "u8 list"

definition config_bytes :: "device_config \<Rightarrow> u8 list" where
  "config_bytes c = le_bytes (node_id c) @ [cfg_region c, cfg_modem_preset c] @ channel_psk c @
     short_name c @ long_name c @ cfg_pad c"

definition config_of_bytes :: "u8 list \<Rightarrow> device_config" where
  "config_of_bytes bs = \<lparr>node_id = le32 (bs ! 0) (bs ! 1) (bs ! 2) (bs ! 3), cfg_region = bs ! 4,
     cfg_modem_preset = bs ! 5, channel_psk = bytes_at bs 6 16, short_name = bytes_at bs 22 4,
     long_name = bytes_at bs 26 32, cfg_pad = bytes_at bs 58 2\<rparr>"

definition config_wf :: "device_config \<Rightarrow> bool" where
  "config_wf c \<longleftrightarrow> length (channel_psk c) = 16 \<and> length (short_name c) = 4 \<and>
     length (long_name c) = 32 \<and> length (cfg_pad c) = 2"

lemma length_config_bytes: "config_wf c \<Longrightarrow> length (config_bytes c) = 60"
  by (simp add: config_wf_def config_bytes_def)

lemma config_of_bytes_wf: "length bs = 60 \<Longrightarrow> config_wf (config_of_bytes bs)"
  by (simp add: config_wf_def config_of_bytes_def)

lemma config_of_config_bytes: "config_wf c \<Longrightarrow> config_of_bytes (config_bytes c) = c"
  by (cases c) (simp add: config_wf_def config_of_bytes_def config_bytes_def le_bytes_def bytes_at_def
      le32_byte_n [simplified])

lemma config_bytes_of_bytes:
  assumes "length bs = 60"
  shows "config_bytes (config_of_bytes bs) = bs"
proof -
  have four: "take 4 bs = [bs ! 0, bs ! 1, bs ! 2, bs ! 3]"
    using assms by (simp add: take_Suc_conv_app_nth numeral_eq_Suc)
  have two: "bytes_at bs 4 2 = [bs ! 4, bs ! 5]"
    using assms by (simp add: bytes_at_def take_Suc_conv_app_nth numeral_eq_Suc)
  have split: "bytes_at bs i n @ drop (i + n) bs = drop i bs" for i n
    using append_take_drop_id [of n "drop i bs"] by (simp add: bytes_at_def add.commute)
  have "config_bytes (config_of_bytes bs) = take 4 bs @ bytes_at bs 4 2 @ bytes_at bs 6 16 @
      bytes_at bs 22 4 @ bytes_at bs 26 32 @ bytes_at bs 58 2"
    by (simp add: config_bytes_def config_of_bytes_def four two)
  also have "bytes_at bs 58 2 = drop 58 bs"
    using assms by (simp add: bytes_at_def)
  also have "bytes_at bs 26 32 @ drop 58 bs = drop 26 bs"
    using split [of 26 32] by simp
  also have "bytes_at bs 22 4 @ drop 26 bs = drop 22 bs"
    using split [of 22 4] by simp
  also have "bytes_at bs 6 16 @ drop 22 bs = drop 6 bs"
    using split [of 6 16] by simp
  also have "bytes_at bs 4 2 @ drop 6 bs = drop 4 bs"
    using split [of 4 2] by simp
  finally show ?thesis by simp
qed

section \<open>Defaults\<close>

definition meshtastic_default_psk :: "u8 list" where
  "meshtastic_default_psk =
    [0xd4, 0xf1, 0xbb, 0x3a, 0x20, 0x29, 0x05, 0x13, 0xf0, 0x08, 0x8a, 0xa3, 0x5a, 0xd3, 0x4a, 0x1c]"

definition config_zero :: device_config where
  "config_zero = \<lparr>node_id = 0, cfg_region = 0, cfg_modem_preset = 0, channel_psk = replicate 16 0,
     short_name = replicate 4 0, long_name = replicate 32 0, cfg_pad = replicate 2 0\<rparr>"

definition config_set_defaults :: "device_config ptr \<Rightarrow> device_config ptr" where
  "config_set_defaults cfg = (case cfg of None \<Rightarrow> None
     | Some _ \<Rightarrow> Some (config_zero\<lparr>node_id := 1, cfg_region := 0, cfg_modem_preset := 4,
         channel_psk := meshtastic_default_psk\<rparr>))"

section \<open>The flash\<close>

definition CONFIG_MAGIC :: u32 where "CONFIG_MAGIC = 0x4D434647"

definition CONFIG_FLASH_PAGE :: nat where "CONFIG_FLASH_PAGE = 127"

definition FLASH_BASE :: nat where "FLASH_BASE = 0x08000000"

definition FLASH_PAGE_SIZE :: nat where "FLASH_PAGE_SIZE = 2048"

definition CONFIG_FLASH_ADDR :: nat where
  "CONFIG_FLASH_ADDR = FLASH_BASE + CONFIG_FLASH_PAGE * FLASH_PAGE_SIZE"

record 'f flash_hal =
  HAL_FLASH_Unlock :: "'f \<Rightarrow> hal_status \<times> 'f"
  HAL_FLASH_Lock :: "'f \<Rightarrow> hal_status \<times> 'f"
  HAL_FLASHEx_Erase :: "nat \<Rightarrow> nat \<Rightarrow> 'f \<Rightarrow> hal_status \<times> 'f"
  HAL_FLASH_Program :: "nat \<Rightarrow> u64 \<Rightarrow> 'f \<Rightarrow> hal_status \<times> 'f"
  flash_byte :: "'f \<Rightarrow> nat \<Rightarrow> u8"

definition flash_bytes :: "'f flash_hal \<Rightarrow> 'f \<Rightarrow> nat \<Rightarrow> nat \<Rightarrow> u8 list" where
  "flash_bytes hal f a n = map (flash_byte hal f) [a..<a + n]"

text \<open>The doubleword at \<open>bs\<close> as a little-endian \<open>uint64_t\<close>, and its bytes.\<close>

definition le64 :: "u8 list \<Rightarrow> u64" where
  "le64 bs = foldr (\<lambda>b w. ucast b OR push_bit 8 w) bs 0"

definition dw_byte :: "u64 \<Rightarrow> nat \<Rightarrow> u8" where
  "dw_byte w k = ucast (drop_bit (8 * k) w)"

definition doublewords :: "u8 list \<Rightarrow> u64 list" where
  "doublewords bs = map (\<lambda>i. le64 (bytes_at bs (8 * i) 8)) [0..<(length bs + 7) div 8]"

section \<open>Load and save\<close>

definition config_from_flash :: "'f flash_hal \<Rightarrow> 'f \<Rightarrow> device_config \<Rightarrow> bool \<times> device_config" where
  "config_from_flash hal f cfg =
     (let p = flash_bytes hal f CONFIG_FLASH_ADDR 64 in
      if le32 (p ! 0) (p ! 1) (p ! 2) (p ! 3) \<noteq> CONFIG_MAGIC then (False, cfg)
      else (True, config_of_bytes (bytes_at p 4 60)))"

definition config_load :: "'f flash_hal \<Rightarrow> 'f \<Rightarrow> device_config ptr \<Rightarrow> bool \<times> device_config ptr" where
  "config_load hal f cfg =
     (case cfg of None \<Rightarrow> (False, None)
      | Some c \<Rightarrow>
        let (found, c') = config_from_flash hal f c in
        if found then (True, Some c') else (True, config_set_defaults (Some c')))"

fun program_loop :: "'f flash_hal \<Rightarrow> nat \<Rightarrow> u64 list \<Rightarrow> 'f \<Rightarrow> bool \<times> 'f" where
  "program_loop hal addr [] f = (True, f)"
| "program_loop hal addr (w # ws) f =
     (let (st, f1) = HAL_FLASH_Program hal addr w f in
      if st \<noteq> HAL_OK then (False, snd (HAL_FLASH_Lock hal f1))
      else program_loop hal (addr + 8) ws f1)"

definition config_save :: "'f flash_hal \<Rightarrow> device_config ptr \<Rightarrow> 'f \<Rightarrow> bool \<times> 'f" where
  "config_save hal cfg f =
     (case cfg of None \<Rightarrow> (False, f)
      | Some c \<Rightarrow>
        let (st, f1) = HAL_FLASH_Unlock hal f in
        if st \<noteq> HAL_OK then (False, f1)
        else let (st, f2) = HAL_FLASHEx_Erase hal CONFIG_FLASH_PAGE 1 f1 in
          if st \<noteq> HAL_OK then (False, snd (HAL_FLASH_Lock hal f2))
          else let buf = le_bytes CONFIG_MAGIC @ config_bytes c;
                   (ok, f3) = program_loop hal CONFIG_FLASH_ADDR (doublewords buf) f2
            in if \<not> ok then (False, f3) else (True, snd (HAL_FLASH_Lock hal f3)))"


section \<open>What the code relies on\<close>

text \<open>
  The state \<open>unlocked\<close> admits erasing and programming. The last clause is about operations that the flash
  controller rejects (busy, wrong alignment, write protection, a doubleword that is not erased); a loss of
  power in the middle of an operation ends the program and is outside the model.
\<close>

definition flash_ok :: "'f flash_hal \<Rightarrow> ('f \<Rightarrow> bool) \<Rightarrow> bool" where
  "flash_ok hal unlocked \<longleftrightarrow>
     (\<forall>f f'. HAL_FLASH_Unlock hal f = (HAL_OK, f') \<longrightarrow> unlocked f' \<and> flash_byte hal f' = flash_byte hal f) \<and>
     (\<forall>f. \<not> unlocked (snd (HAL_FLASH_Lock hal f)) \<and>
        flash_byte hal (snd (HAL_FLASH_Lock hal f)) = flash_byte hal f) \<and>
     (\<forall>f f' p n. unlocked f \<longrightarrow> HAL_FLASHEx_Erase hal p n f = (HAL_OK, f') \<longrightarrow> unlocked f' \<and>
        (\<forall>a. flash_byte hal f' a =
           (if FLASH_BASE + p * FLASH_PAGE_SIZE \<le> a \<and> a < FLASH_BASE + (p + n) * FLASH_PAGE_SIZE
            then 0xFF else flash_byte hal f a))) \<and>
     (\<forall>f f' a w. unlocked f \<longrightarrow> HAL_FLASH_Program hal a w f = (HAL_OK, f') \<longrightarrow>
        (\<forall>k<8. flash_byte hal f (a + k) = 0xFF) \<longrightarrow> unlocked f' \<and>
        (\<forall>b. flash_byte hal f' b = (if a \<le> b \<and> b < a + 8 then dw_byte w (b - a) else flash_byte hal f b))) \<and>
     (\<forall>f f' a w st. unlocked f \<longrightarrow> HAL_FLASH_Program hal a w f = (st, f') \<longrightarrow> st \<noteq> HAL_OK \<longrightarrow>
        flash_byte hal f' = flash_byte hal f)"

lemma flash_okD:
  assumes "flash_ok hal u"
  shows "HAL_FLASH_Unlock hal f = (HAL_OK, f') \<Longrightarrow> u f'"
    and "HAL_FLASH_Unlock hal f = (HAL_OK, f') \<Longrightarrow> flash_byte hal f' = flash_byte hal f"
    and "\<not> u (snd (HAL_FLASH_Lock hal f))"
    and "flash_byte hal (snd (HAL_FLASH_Lock hal f)) = flash_byte hal f"
    and "u f \<Longrightarrow> HAL_FLASHEx_Erase hal p n f = (HAL_OK, f') \<Longrightarrow> u f'"
    and "u f \<Longrightarrow> HAL_FLASHEx_Erase hal p n f = (HAL_OK, f') \<Longrightarrow>
      FLASH_BASE + p * FLASH_PAGE_SIZE \<le> a \<Longrightarrow> a < FLASH_BASE + (p + n) * FLASH_PAGE_SIZE \<Longrightarrow>
      flash_byte hal f' a = 0xFF"
    and "u f \<Longrightarrow> HAL_FLASH_Program hal a w f = (HAL_OK, f') \<Longrightarrow>
      (\<And>k. k < 8 \<Longrightarrow> flash_byte hal f (a + k) = 0xFF) \<Longrightarrow> u f'"
    and "u f \<Longrightarrow> HAL_FLASH_Program hal a w f = (HAL_OK, f') \<Longrightarrow>
      (\<And>k. k < 8 \<Longrightarrow> flash_byte hal f (a + k) = 0xFF) \<Longrightarrow>
      flash_byte hal f' b = (if a \<le> b \<and> b < a + 8 then dw_byte w (b - a) else flash_byte hal f b)"
    and "u f \<Longrightarrow> HAL_FLASH_Program hal a w f = (st, f') \<Longrightarrow> st \<noteq> HAL_OK \<Longrightarrow>
      flash_byte hal f' = flash_byte hal f"
proof -
  note law = assms [unfolded flash_ok_def]
  note l1 = law [THEN conjunct1] and r1 = law [THEN conjunct2]
  note l2 = r1 [THEN conjunct1] and r2 = r1 [THEN conjunct2]
  note l3 = r2 [THEN conjunct1] and r3 = r2 [THEN conjunct2]
  note l4 = r3 [THEN conjunct1] and l5 = r3 [THEN conjunct2]
  show "HAL_FLASH_Unlock hal f = (HAL_OK, f') \<Longrightarrow> u f'"
    "HAL_FLASH_Unlock hal f = (HAL_OK, f') \<Longrightarrow> flash_byte hal f' = flash_byte hal f"
    using l1 by simp_all
  show "\<not> u (snd (HAL_FLASH_Lock hal f))" "flash_byte hal (snd (HAL_FLASH_Lock hal f)) = flash_byte hal f"
    using l2 by simp_all
  show "u f'" if a: "u f" "HAL_FLASHEx_Erase hal p n f = (HAL_OK, f')"
    using l3 [rule_format, OF a] by simp
  show "flash_byte hal f' a = 0xFF" if a: "u f" "HAL_FLASHEx_Erase hal p n f = (HAL_OK, f')"
    and "FLASH_BASE + p * FLASH_PAGE_SIZE \<le> a" "a < FLASH_BASE + (p + n) * FLASH_PAGE_SIZE"
    using l3 [rule_format, OF a] that by simp
  have prog: "u f' \<and> flash_byte hal f' b = (if a \<le> b \<and> b < a + 8 then dw_byte w (b - a) else flash_byte hal f b)"
    if a: "u f" "HAL_FLASH_Program hal a w f = (HAL_OK, f')" "\<And>k. k < 8 \<Longrightarrow> flash_byte hal f (a + k) = 0xFF"
    using l4 [rule_format, OF a(1,2)] a(3) by blast
  show "u f'" if a: "u f" "HAL_FLASH_Program hal a w f = (HAL_OK, f')" "\<And>k. k < 8 \<Longrightarrow> flash_byte hal f (a + k) = 0xFF"
    using prog [OF a] by simp
  show "flash_byte hal f' b = (if a \<le> b \<and> b < a + 8 then dw_byte w (b - a) else flash_byte hal f b)"
    if a: "u f" "HAL_FLASH_Program hal a w f = (HAL_OK, f')" "\<And>k. k < 8 \<Longrightarrow> flash_byte hal f (a + k) = 0xFF"
    using prog [OF a] by blast
  show "u f \<Longrightarrow> HAL_FLASH_Program hal a w f = (st, f') \<Longrightarrow> st \<noteq> HAL_OK \<Longrightarrow>
      flash_byte hal f' = flash_byte hal f"
    using l5 by simp
qed

section \<open>Doublewords\<close>

lemma bit_le64: "bit (le64 bs) i \<longleftrightarrow> i < 64 \<and> i div 8 < length bs \<and> bit (bs ! (i div 8)) (i mod 8)"
proof (induction bs arbitrary: i)
  case Nil
  then show ?case by (simp add: le64_def)
next
  case (Cons b bs)
  have step: "le64 (b # bs) = ucast b OR push_bit 8 (le64 bs)"
    by (simp add: le64_def)
  show ?case
  proof (cases "i < 8")
    case True
    then show ?thesis
      by (simp add: step bit_or_iff bit_push_bit_iff bit_unsigned_iff)
  next
    case False
    then have "i div 8 = Suc ((i - 8) div 8)" "(i - 8) mod 8 = i mod 8"
      by (simp_all add: le_div_geq le_mod_geq)
    moreover have "\<not> bit b i"
      using False bit_imp_le_length [of b i] by auto
    ultimately show ?thesis
      using False by (auto simp: step bit_or_iff bit_push_bit_iff bit_unsigned_iff Cons.IH)
  qed
qed

lemma dw_byte_le64:
  assumes "k < 8" and "k < length bs"
  shows "dw_byte (le64 bs) k = bs ! k"
proof (rule bit_word_eqI)
  fix i assume "i < LENGTH(8)"
  then show "bit (dw_byte (le64 bs) k) i \<longleftrightarrow> bit (bs ! k) i"
    using assms by (simp add: dw_byte_def bit_unsigned_iff bit_drop_bit_eq bit_le64)
qed

lemma doublewords_byte:
  assumes "i < length bs"
  shows "dw_byte (doublewords bs ! (i div 8)) (i mod 8) = bs ! i"
proof -
  have "i div 8 < (length bs + 7) div 8" using assms by linarith
  then have "doublewords bs ! (i div 8) = le64 (bytes_at bs (8 * (i div 8)) 8)"
    by (simp add: doublewords_def)
  moreover have "i mod 8 < length (bytes_at bs (8 * (i div 8)) 8)"
  proof -
    have "8 * (i div 8) + i mod 8 = i" by simp
    then have "i mod 8 < length bs - 8 * (i div 8)" using assms by linarith
    then show ?thesis by (simp add: bytes_at_def)
  qed
  moreover have "bytes_at bs (8 * (i div 8)) 8 ! (i mod 8) = bs ! i"
    using assms by (simp add: bytes_at_def)
  ultimately show ?thesis by (simp add: dw_byte_le64)
qed

section \<open>The programming loop\<close>

lemma program_loop_result:
  assumes law: "flash_ok hal u" and "u f"
    and "\<And>b. addr \<le> b \<Longrightarrow> b < addr + 8 * length ws \<Longrightarrow> flash_byte hal f b = 0xFF"
    and "program_loop hal addr ws f = (ok, f')"
  shows "\<exists>k \<le> length ws. (ok \<longleftrightarrow> k = length ws) \<and> (\<not> ok \<longrightarrow> \<not> u f') \<and>
    (\<forall>b. flash_byte hal f' b = (if addr \<le> b \<and> b < addr + 8 * k
       then dw_byte (ws ! ((b - addr) div 8)) ((b - addr) mod 8) else flash_byte hal f b))"
  using assms(2-)
proof (induction ws arbitrary: addr f)
  case Nil
  then show ?case by auto
next
  case (Cons w ws)
  obtain st f1 where p: "HAL_FLASH_Program hal addr w f = (st, f1)" by fastforce
  show ?case
  proof (cases "st = HAL_OK")
    case False
    then have "f' = snd (HAL_FLASH_Lock hal f1)" "\<not> ok" "flash_byte hal f1 = flash_byte hal f"
      using Cons.prems(1,3) p flash_okD(9) [OF law] by auto
    then show ?thesis
      using flash_okD(3,4) [OF law] by (intro exI [of _ 0]) auto
  next
    case True
    have ff: "k < 8 \<Longrightarrow> flash_byte hal f (addr + k) = 0xFF" for k
      by (rule Cons.prems(2)) simp_all
    have u1: "u f1"
      using flash_okD(7) [OF law Cons.prems(1)] p True ff by blast
    have b1: "flash_byte hal f1 b = (if addr \<le> b \<and> b < addr + 8 then dw_byte w (b - addr) else flash_byte hal f b)" for b
      using flash_okD(8) [OF law Cons.prems(1)] p True ff by blast
    have e1: "flash_byte hal f1 b = 0xFF" if "addr + 8 \<le> b" "b < addr + 8 + 8 * length ws" for b
      using that Cons.prems(2) [of b] by (simp add: b1)
    have "program_loop hal (addr + 8) ws f1 = (ok, f')"
      using Cons.prems(3) p True by simp
    from Cons.IH [OF u1 e1 this] obtain k where k: "k \<le> length ws" "ok \<longleftrightarrow> k = length ws" "\<not> ok \<longrightarrow> \<not> u f'"
      and bs: "\<And>b. flash_byte hal f' b = (if addr + 8 \<le> b \<and> b < addr + 8 + 8 * k
        then dw_byte (ws ! ((b - (addr + 8)) div 8)) ((b - (addr + 8)) mod 8) else flash_byte hal f1 b)"
      by blast
    have "flash_byte hal f' b = (if addr \<le> b \<and> b < addr + 8 * Suc k
        then dw_byte ((w # ws) ! ((b - addr) div 8)) ((b - addr) mod 8) else flash_byte hal f b)" for b
    proof (cases "addr + 8 \<le> b")
      case True
      then have "(b - addr) div 8 = Suc ((b - (addr + 8)) div 8)" "(b - addr) mod 8 = (b - (addr + 8)) mod 8"
        by (simp_all add: le_div_geq le_mod_geq)
      with True show ?thesis by (simp add: bs b1)
    next
      case False
      then show ?thesis by (simp add: bs b1)
    qed
    with k show ?thesis by (intro exI [of _ "Suc k"]) auto
  qed
qed

definition config_image :: "device_config \<Rightarrow> u8 list" where
  "config_image c = le_bytes CONFIG_MAGIC @ config_bytes c"

text \<open>A save that got past the erase leaves a prefix of the image in an erased page.\<close>

lemma config_save_flash:
  assumes law: "flash_ok hal u" and wf: "config_wf c"
    and "HAL_FLASH_Unlock hal f = (HAL_OK, f1)"
    and "HAL_FLASHEx_Erase hal CONFIG_FLASH_PAGE 1 f1 = (HAL_OK, f2)"
    and save: "config_save hal (Some c) f = (ok, f')"
  shows "\<exists>k \<le> 8. (ok \<longleftrightarrow> k = 8) \<and> \<not> u f' \<and>
    flash_bytes hal f' CONFIG_FLASH_ADDR 64 = take (8 * k) (config_image c) @ replicate (64 - 8 * k) 0xFF"
proof -
  let ?ws = "doublewords (config_image c)"
  have len: "length (config_image c) = 64" "length ?ws = 8"
    using length_config_bytes [OF wf] by (simp_all add: config_image_def doublewords_def)
  have u2: "u f2"
    using flash_okD(1,5) [OF law] assms(3,4) by blast
  have er: "flash_byte hal f2 b = 0xFF" if "CONFIG_FLASH_ADDR \<le> b" "b < CONFIG_FLASH_ADDR + 64" for b
  proof (rule flash_okD(6) [OF law _ assms(4)])
    show "u f1" using flash_okD(1) [OF law] assms(3) by blast
  qed (use that in \<open>simp_all add: CONFIG_FLASH_ADDR_def FLASH_PAGE_SIZE_def CONFIG_FLASH_PAGE_def\<close>)
  obtain ok3 f3 where loop: "program_loop hal CONFIG_FLASH_ADDR ?ws f2 = (ok3, f3)" by fastforce
  have f': "ok = ok3" "f' = (if ok3 then snd (HAL_FLASH_Lock hal f3) else f3)"
    using save loop assms(3,4) by (auto simp: config_save_def config_image_def split: if_splits)
  obtain k where k: "k \<le> 8" "ok3 \<longleftrightarrow> k = 8" "\<not> ok3 \<longrightarrow> \<not> u f3"
    and bs: "\<And>b. flash_byte hal f3 b = (if CONFIG_FLASH_ADDR \<le> b \<and> b < CONFIG_FLASH_ADDR + 8 * k
       then dw_byte (?ws ! ((b - CONFIG_FLASH_ADDR) div 8)) ((b - CONFIG_FLASH_ADDR) mod 8) else flash_byte hal f2 b)"
    using program_loop_result [OF law u2 _ loop] er len(2) by auto
  have same: "flash_byte hal f' = flash_byte hal f3"
    using flash_okD(4) [OF law] by (simp add: f')
  have "\<not> u f'" using k(3) flash_okD(3) [OF law] by (simp add: f')
  moreover have "flash_bytes hal f' CONFIG_FLASH_ADDR 64 = take (8 * k) (config_image c) @ replicate (64 - 8 * k) 0xFF"
  proof (rule nth_equalityI)
    show "length (flash_bytes hal f' CONFIG_FLASH_ADDR 64) =
        length (take (8 * k) (config_image c) @ replicate (64 - 8 * k) 0xFF)"
      using k(1) len(1) by (simp add: flash_bytes_def)
    fix i assume "i < length (flash_bytes hal f' CONFIG_FLASH_ADDR 64)"
    then have i: "i < 64" by (simp add: flash_bytes_def)
    then have "flash_bytes hal f' CONFIG_FLASH_ADDR 64 ! i = flash_byte hal f3 (CONFIG_FLASH_ADDR + i)"
      by (simp add: flash_bytes_def same)
    also have "\<dots> = (if i < 8 * k then config_image c ! i else 0xFF)"
      using i er [of "CONFIG_FLASH_ADDR + i"] doublewords_byte [of i "config_image c"] len(1) by (simp add: bs)
    finally show "flash_bytes hal f' CONFIG_FLASH_ADDR 64 ! i =
        (take (8 * k) (config_image c) @ replicate (64 - 8 * k) 0xFF) ! i"
      using i k(1) len(1) by (simp add: nth_append)
  qed
  ultimately show ?thesis using k(1,2) f'(1) by blast
qed


section \<open>Round trip and interrupted saves\<close>

lemma config_load_image:
  assumes "flash_bytes hal f CONFIG_FLASH_ADDR 64 = img" and "length img = 64"
  shows "config_load hal f (Some c0) =
    (True, if take 4 img = le_bytes CONFIG_MAGIC then Some (config_of_bytes (drop 4 img))
           else config_set_defaults (Some c0))"
proof -
  have four: "take 4 img = [img ! 0, img ! 1, img ! 2, img ! 3]"
    using assms(2) by (simp add: take_Suc_conv_app_nth numeral_eq_Suc)
  have "le32 (img ! 0) (img ! 1) (img ! 2) (img ! 3) = CONFIG_MAGIC \<longleftrightarrow> take 4 img = le_bytes CONFIG_MAGIC"
  proof
    assume "le32 (img ! 0) (img ! 1) (img ! 2) (img ! 3) = CONFIG_MAGIC"
    then show "take 4 img = le_bytes CONFIG_MAGIC"
      unfolding four by (metis le_bytes_le32)
  next
    assume "take 4 img = le_bytes CONFIG_MAGIC"
    then show "le32 (img ! 0) (img ! 1) (img ! 2) (img ! 3) = CONFIG_MAGIC"
      unfolding four by (metis le_bytes_le32 le_bytes_inject)
  qed
  then show ?thesis
    using assms by (simp add: config_load_def config_from_flash_def Let_def bytes_at_def)
qed

lemma config_image_take:
  "length (config_image c) = length (config_bytes c) + 4" "take 4 (config_image c) = le_bytes CONFIG_MAGIC"
  "drop 4 (config_image c) = config_bytes c"
  by (simp_all add: config_image_def)

text \<open>
  C32. What \<open>config_save\<close> reports as saved is what the next \<open>config_load\<close> returns, whatever was in
  flash and in the caller's structure before, and the flash is locked again.
\<close>

theorem config_save_load_roundtrip:
  assumes law: "flash_ok hal u" and wf: "config_wf c" and save: "config_save hal (Some c) f = (True, f')"
  shows "config_load hal f' (Some c0) = (True, Some c) \<and> \<not> u f'"
proof -
  obtain f1 where un: "HAL_FLASH_Unlock hal f = (HAL_OK, f1)"
    using save by (auto simp: config_save_def split: prod.splits if_splits)
  obtain f2 where er: "HAL_FLASHEx_Erase hal CONFIG_FLASH_PAGE 1 f1 = (HAL_OK, f2)"
    using save un by (auto simp: config_save_def split: prod.splits if_splits)
  from config_save_flash [OF law wf un er save] length_config_bytes [OF wf]
  have "flash_bytes hal f' CONFIG_FLASH_ADDR 64 = config_image c" "\<not> u f'"
    by (auto simp: config_image_take)
  then show ?thesis
    using config_load_image [of hal f' "config_image c"] length_config_bytes [OF wf]
    by (simp add: config_image_take config_of_config_bytes [OF wf])
qed

text \<open>
  C33. A save that fails while programming keeps the flash locked but is not atomic: with \<open>k\<close> of the
  eight doublewords programmed the next load gives the defaults only if \<open>k = 0\<close>. Since the magic
  number is in the first doubleword, for any other \<open>k\<close> the load accepts a configuration that is the new
  one up to that point and erased flash, \<open>0xFF\<close>, from there on.
\<close>

theorem config_save_torn:
  assumes law: "flash_ok hal u" and wf: "config_wf c" and save: "config_save hal (Some c) f = (False, f')"
    and un: "HAL_FLASH_Unlock hal f = (HAL_OK, f1)"
    and er: "HAL_FLASHEx_Erase hal CONFIG_FLASH_PAGE 1 f1 = (HAL_OK, f2)"
  shows "\<not> u f' \<and> (\<exists>k < 8. config_load hal f' (Some c0) =
    (True, if k = 0 then config_set_defaults (Some c0)
           else Some (config_of_bytes (take (8 * k - 4) (config_bytes c) @ replicate (64 - 8 * k) 0xFF))))"
proof -
  obtain k where k: "k < 8" "\<not> u f'"
    and img: "flash_bytes hal f' CONFIG_FLASH_ADDR 64 = take (8 * k) (config_image c) @ replicate (64 - 8 * k) 0xFF"
    using config_save_flash [OF law wf un er save] by (auto simp: le_less)
  have len: "length (config_image c) = 64"
    using length_config_bytes [OF wf] by (simp add: config_image_take)
  have load: "config_load hal f' (Some c0) = (True,
     if take 4 (take (8 * k) (config_image c) @ replicate (64 - 8 * k) 0xFF) = le_bytes CONFIG_MAGIC
     then Some (config_of_bytes (drop 4 (take (8 * k) (config_image c) @ replicate (64 - 8 * k) 0xFF)))
     else config_set_defaults (Some c0))"
    using k(1) len by (intro config_load_image [OF img]) simp
  show ?thesis
  proof (cases "k = 0")
    case True
    have "byte_n CONFIG_MAGIC 0 = 0x47"
      by (simp add: byte_n_def CONFIG_MAGIC_def)
    moreover have "replicate 4 (0xFF :: u8) = [0xFF, 0xFF, 0xFF, 0xFF]"
      by (simp add: numeral_eq_Suc)
    ultimately have "replicate 4 (0xFF :: u8) \<noteq> le_bytes CONFIG_MAGIC"
      by (simp add: le_bytes_def)
    then show ?thesis
      using True k load by (intro conjI exI [of _ 0]) simp_all
  next
    case False
    then have "take 4 (take (8 * k) (config_image c)) = le_bytes CONFIG_MAGIC"
      by (simp add: min_def flip: config_image_take(2) [of c])
    moreover have "drop 4 (take (8 * k) (config_image c)) = take (8 * k - 4) (config_bytes c)"
      by (simp add: drop_take config_image_take(3))
    ultimately show ?thesis
      using False k load len by (intro conjI exI [of _ k]) auto
  qed
qed

section \<open>A concrete flash\<close>

text \<open>A flash whose state is the lock, the memory, and how many more doublewords will be programmed.\<close>

definition demo_flash :: "(bool \<times> (nat \<Rightarrow> u8) \<times> nat) flash_hal" where
  "demo_flash = \<lparr>
     HAL_FLASH_Unlock = (\<lambda>(l, m, n). (HAL_OK, (True, m, n))),
     HAL_FLASH_Lock = (\<lambda>(l, m, n). (HAL_OK, (False, m, n))),
     HAL_FLASHEx_Erase = (\<lambda>p k (l, m, n). (HAL_OK, (l, (\<lambda>a. if FLASH_BASE + p * FLASH_PAGE_SIZE \<le> a \<and>
       a < FLASH_BASE + (p + k) * FLASH_PAGE_SIZE then 0xFF else m a), n))),
     HAL_FLASH_Program = (\<lambda>a w (l, m, n). if n = 0 then (HAL_ERROR, (l, m, n))
       else (HAL_OK, (l, (\<lambda>b. if a \<le> b \<and> b < a + 8 then dw_byte w (b - a) else m b), n - 1))),
     flash_byte = (\<lambda>(l, m, n). m)\<rparr>"

lemma demo_flash_ok: "flash_ok demo_flash fst"
  by (auto simp: flash_ok_def demo_flash_def split: if_splits)

lemma demo_flash_simps:
  "HAL_FLASH_Unlock demo_flash (l, m, n) = (HAL_OK, (True, m, n))"
  "HAL_FLASHEx_Erase demo_flash p k (l, m, n) = (HAL_OK, (l, (\<lambda>a. if FLASH_BASE + p * FLASH_PAGE_SIZE \<le> a \<and>
     a < FLASH_BASE + (p + k) * FLASH_PAGE_SIZE then 0xFF else m a), n))"
  "HAL_FLASH_Program demo_flash a w (l, m, 0) = (HAL_ERROR, (l, m, 0))"
  "HAL_FLASH_Program demo_flash a w (l, m, Suc n) =
     (HAL_OK, (l, (\<lambda>b. if a \<le> b \<and> b < a + 8 then dw_byte w (b - a) else m b), n))"
  by (simp_all add: demo_flash_def)

lemma demo_flash_loop: "fst (program_loop demo_flash a ws (l, m, n)) \<longleftrightarrow> length ws \<le> n"
proof (induction ws arbitrary: a m n)
  case (Cons w ws)
  then show ?case by (cases n) (simp_all add: demo_flash_simps)
qed simp

lemma demo_flash_save:
  "fst (config_save demo_flash (Some c) (False, m, n)) \<longleftrightarrow> (length (config_bytes c) + 11) div 8 \<le> n"
  using demo_flash_loop [of CONFIG_FLASH_ADDR "doublewords (le_bytes CONFIG_MAGIC @ config_bytes c)"]
  by (simp add: config_save_def demo_flash_simps Let_def doublewords_def split_def add.commute)

lemma config_zero_wf: "config_wf config_zero"
  by (simp add: config_wf_def config_zero_def)

theorem config_save_load_roundtrip_witness:
  "\<exists>f'. config_save demo_flash (Some config_zero) (False, (\<lambda>_. 7), 8) = (True, f') \<and>
    config_load demo_flash f' (Some config_zero) = (True, Some config_zero)"
proof -
  obtain ok f' where r: "config_save demo_flash (Some config_zero) (False, (\<lambda>_. 7), 8) = (ok, f')"
    by (rule prod.exhaust)
  then have ok
    using demo_flash_save [of config_zero "\<lambda>_. 7" 8] length_config_bytes [OF config_zero_wf] by simp
  with r have s: "config_save demo_flash (Some config_zero) (False, (\<lambda>_. 7), 8) = (True, f')" by simp
  show ?thesis
    by (intro exI [of _ f'] conjI s
        config_save_load_roundtrip [OF demo_flash_ok config_zero_wf s, THEN conjunct1])
qed

theorem config_save_torn_witness:
  "\<exists>f'. config_save demo_flash (Some config_zero) (False, (\<lambda>_. 7), 3) = (False, f') \<and> \<not> fst f'"
proof -
  obtain ok f' where r: "config_save demo_flash (Some config_zero) (False, (\<lambda>_. 7), 3) = (ok, f')"
    by (rule prod.exhaust)
  then have "\<not> ok"
    using demo_flash_save [of config_zero "\<lambda>_. 7" 3] length_config_bytes [OF config_zero_wf] by simp
  with r have s: "config_save demo_flash (Some config_zero) (False, (\<lambda>_. 7), 3) = (False, f')" by simp
  then have "\<not> fst f'"
    using config_save_torn [OF demo_flash_ok config_zero_wf, of "(False, (\<lambda>_. 7), 3)" f']
    by (simp add: demo_flash_simps)
  with s show ?thesis by (intro exI [of _ f'] conjI)
qed

end
