(* ===== verification/Main_Loop.thy ===== *)
theory Main_Loop
  imports Flood_Router Serial_IO Pb_Data Aes_Meshtastic Radio_Facts Config_Store
begin

text \<open>
  \<open>firmware/Core/main_loop.c\<close>: sending a packet, the line editor of the terminal, one iteration of the
  main loop and the initialisation, over one record \<open>world\<close> of the static variables of all the
  components and the history of HAL calls. Interrupts do not occur inside an operation here: theory
  \<open>Loop_Phases\<close> lets them occur between the steps of the loop, and \<open>Preemption\<close> inside the operations.
\<close>

section \<open>State\<close>

definition LORA_BUF_SIZE :: nat where "LORA_BUF_SIZE = 256"

definition LINE_BUF_SIZE :: nat where "LINE_BUF_SIZE = 200"

definition PORTNUM_TEXT_MESSAGE :: u8 where "PORTNUM_TEXT_MESSAGE = 1"

lemma buf_sizes [simp]: "LORA_BUF_SIZE = 256" "LINE_BUF_SIZE = 200"
  by (simp_all add: LORA_BUF_SIZE_def LINE_BUF_SIZE_def)

record world =
  lora_rx_buf :: "u8 list"
  lora_tx_buf :: "u8 list"
  g_config :: device_config
  next_packet_id :: u32
  line_buf :: "u8 list"
  line_len :: nat
  flood_st :: flood_state
  serial_st :: serial_state
  aes_st :: aes_state
  lora_st :: lora_state
  led_st :: led_state
  phy :: "radio radio_phy_ops ptr"
  drv :: radio_drv
  hist :: hw

definition world_reset :: world where
  "world_reset = \<lparr>lora_rx_buf = replicate LORA_BUF_SIZE 0, lora_tx_buf = replicate LORA_BUF_SIZE 0,
     g_config = config_zero, next_packet_id = 0, line_buf = replicate LINE_BUF_SIZE 0, line_len = 0,
     flood_st = flood_reset, serial_st = serial_reset, aes_st = aes_reset, lora_st = lora_reset,
     led_st = led_reset, phy = NULL, drv = radio_drv_reset, hist = []\<rparr>"

text \<open>Output to the terminal.\<close>

definition crlf :: "u8 list" where "crlf = [0x0D, 0x0A]"

definition put_str :: "u8 list \<Rightarrow> world \<Rightarrow> world" where
  "put_str s w = w\<lparr>hist := serial_puts (Some s) (serial_st w) (hist w)\<rparr>"

definition put_num :: "u16 \<Rightarrow> world \<Rightarrow> world" where
  "put_num v w = w\<lparr>hist := serial_put_int16 v (serial_st w) (hist w)\<rparr>"

definition put_bytes :: "u8 list \<Rightarrow> nat \<Rightarrow> world \<Rightarrow> world" where
  "put_bytes d n w = w\<lparr>hist := serial_write (Some d) n (serial_st w) (hist w)\<rparr>"

section \<open>Sending\<close>

text \<open>The header \<open>send_lora_packet\<close> fills in.\<close>

definition own_header :: "u32 \<Rightarrow> world \<Rightarrow> mesh_lora_header" where
  "own_header to w = \<lparr>to_id = to, from_id = node_id (g_config w), packet_id = next_packet_id w,
     flags = 3, channel = 0, next_hop = 0, relay = 0\<rparr>"

text \<open>
  \<open>pb_buf\<close> is an uninitialised local; only the bytes the encoder wrote are read. The pointer
  \<open>lora_tx_buf + MESH_HEADER_SIZE\<close> is the buffer from offset 16 on.
\<close>

definition send_lora_packet :: "hal_env \<Rightarrow> u32 \<Rightarrow> u8 list \<Rightarrow> nat \<Rightarrow> world \<Rightarrow> (bool \<times> world) run" where
  "send_lora_packet e to text text_len w =
     (let (pb_buf, pb_len) = pb_encode_data (replicate (LORA_BUF_SIZE - MESH_HEADER_SIZE) 0)
            (LORA_BUF_SIZE - MESH_HEADER_SIZE) PORTNUM_TEXT_MESSAGE text text_len in
      if pb_len = 0 then Inr (False, w)
      else let h = own_header to w;
               w1 = w\<lparr>next_packet_id := next_packet_id w + 1\<rparr>;
               buf1 = the (mesh_header_to_buf (Some h) (Some (lora_tx_buf w1)));
               buf2 = memcpy_at buf1 MESH_HEADER_SIZE (take pb_len pb_buf)
        in run_bind (aes_ctr_crypt e (drop MESH_HEADER_SIZE buf2) pb_len (packet_id h) (from_id h)
                       (aes_st w1) (hist w1))
             (\<lambda>(payload, aes', hist').
                let buf3 = memcpy_at buf2 MESH_HEADER_SIZE payload;
                    w2 = w1\<lparr>lora_tx_buf := buf3, aes_st := aes',
                            flood_st := flood_seen (from_id h) (packet_id h) (flood_st w1)\<rparr>
                in run_bind (lora_tx (phy w2) (Some buf3) (MESH_HEADER_SIZE + pb_len) (drv w2, hist'))
                     (\<lambda>(ok, (drv', hist'')). Inr (ok, w2\<lparr>drv := drv', hist := hist''\<rparr>))))"

section \<open>The line editor\<close>

definition info_line :: "world \<Rightarrow> world" where
  "info_line w =
     (let params = (case lora_get_params (Some (s_params lora_reset)) (lora_st w) of
                      Some p \<Rightarrow> p | None \<Rightarrow> s_params lora_reset);
          w1 = put_num (ucast (freq_hz params div 1000000)) (put_str (bytes_of ''Freq: '') w);
          w2 = put_num (ucast (sf params)) (put_str (bytes_of '' MHz  SF: '') w1);
          w3 = put_num (ucast (node_id (g_config w2))) (put_str (bytes_of ''  NodeId: '') w2);
          w4 = put_str (bytes_of ''  Last RSSI: '') w3;
          w5 = put_num (lora_last_rssi (phy w4) 0 0 (drv w4, hist w4)) w4
      in put_str (bytes_of '' dBm'' @ crlf) w5)"

definition help_text :: "u8 list" where
  "help_text = bytes_of ''Commands: N1..N9, info, help. Any other text = send over LoRa.'' @ crlf"

text \<open>A complete line: the commands, and everything else sent as a broadcast.\<close>

definition handle_line :: "hal_env \<Rightarrow> world \<Rightarrow> world run" where
  "handle_line e w =
     (if line_len w \<ge> 2 \<and> (line_buf w ! 0 = of_char (CHR ''N'') \<or> line_buf w ! 0 = of_char (CHR ''n'')) then
        let c = line_buf w ! 1;
            w1 = (if c \<ge> of_char (CHR ''1'') \<and> c \<le> of_char (CHR ''9'')
                  then put_str (bytes_of ''node_id set'' @ crlf)
                         (w\<lparr>g_config := (g_config w)\<lparr>node_id := ucast (c - of_char (CHR ''0''))\<rparr>\<rparr>)
                  else w)
        in Inr (w1\<lparr>line_len := 0\<rparr>)
      else if line_len w = 4 \<and> take 4 (line_buf w) = bytes_of ''help'' then
        Inr ((put_str help_text w)\<lparr>line_len := 0\<rparr>)
      else if line_len w = 4 \<and> take 4 (line_buf w) = bytes_of ''info'' then
        Inr ((info_line w)\<lparr>line_len := 0\<rparr>)
      else run_bind (send_lora_packet e MESH_BROADCAST_ID (line_buf w) (line_len w) w)
             (\<lambda>(ok, w1). Inr ((put_str (bytes_of (if ok then ''Sent.'' else ''TX failed.'') @ crlf) w1)
                                \<lparr>line_len := 0\<rparr>)))"

text \<open>The body of the loop of \<open>uart_rx_line_poll\<close>, and the loop.\<close>

definition line_byte :: "hal_env \<Rightarrow> u8 \<Rightarrow> world \<Rightarrow> world run" where
  "line_byte e b w =
     (if b = 0x0D \<or> b = 0x0A then
        if line_len w = 0 then Inr w
        else handle_line e (w\<lparr>line_buf := (line_buf w)[line_len w := 0]\<rparr>)
      else if line_len w < LINE_BUF_SIZE - 1 then
        Inr (w\<lparr>line_buf := (line_buf w)[line_len w := b], line_len := line_len w + 1\<rparr>)
      else Inr w)"

partial_function (option) line_loop :: "hal_env \<Rightarrow> world \<Rightarrow> world run option" where
  "line_loop e w =
     (case serial_next (serial_st w) of
        None \<Rightarrow> Some (Inr w)
      | Some (b, st') \<Rightarrow>
          (case line_byte e b (w\<lparr>serial_st := st'\<rparr>) of
             Inl f \<Rightarrow> Some (Inl f)
           | Inr w' \<Rightarrow> line_loop e w'))"

definition uart_rx_line_poll :: "hal_env \<Rightarrow> world \<Rightarrow> world run" where
  "uart_rx_line_poll e w = (case line_loop e w of None \<Rightarrow> Inl Hang | Some r \<Rightarrow> r)"

section \<open>One iteration of the main loop\<close>

text \<open>The report of a received text, and the automatic reply.\<close>

definition show_text :: "u8 list \<Rightarrow> nat \<Rightarrow> world \<Rightarrow> world" where
  "show_text text text_len w =
     (let w1 = put_bytes text text_len (put_str (bytes_of ''RX: '') w);
          w2 = put_str (bytes_of ''  RSSI: '') w1;
          w3 = put_num (lora_last_rssi (phy w2) 0 0 (drv w2, hist w2)) w2;
          w4 = put_str (bytes_of '' dBm  SNR: '') w3;
          w5 = put_num (scast (lora_last_snr (phy w4) 0 0 (drv w4, hist w4))) w4
      in put_str (bytes_of '' dB'' @ crlf) w5)"

definition deliver_text :: "hal_env \<Rightarrow> mesh_lora_header \<Rightarrow> u8 list \<Rightarrow> nat \<Rightarrow> world \<Rightarrow> world run" where
  "deliver_text e h text text_len w =
     (let w1 = show_text text text_len w in
      if text_len \<noteq> 4 \<or> take 4 text \<noteq> bytes_of ''pong''
      then run_bind (send_lora_packet e (from_id h) (bytes_of ''pong'' @ [0]) 4 w1) (\<lambda>(_, w2). Inr w2)
      else Inr w1)"

definition receive_packet :: "hal_env \<Rightarrow> mesh_lora_header \<Rightarrow> nat \<Rightarrow> world \<Rightarrow> world run" where
  "receive_packet e h n w =
     (let enc_len = n - MESH_HEADER_SIZE;
          dec_buf = take enc_len (drop MESH_HEADER_SIZE (lora_rx_buf w))
      in run_bind (aes_ctr_crypt e dec_buf enc_len (packet_id h) (from_id h) (aes_st w) (hist w))
           (\<lambda>(dec_buf', aes', hist').
              let w1 = w\<lparr>aes_st := aes', hist := hist'\<rparr>
              in run_bind (pb_decode_data dec_buf' enc_len)
                   (\<lambda>(found, out).
                      if found \<and> pb_payload_len out > 0
                      then deliver_text e h (drop (the (pb_payload out)) dec_buf') (pb_payload_len out) w1
                      else Inr w1)))"

definition forward_packet :: "hal_env \<Rightarrow> nat \<Rightarrow> world \<Rightarrow> world run" where
  "forward_packet e n w =
     (let buf = the (flood_prepare_forward (Some (lora_rx_buf w)) n (ucast (node_id (g_config w) AND 0xFF)));
          w1 = w\<lparr>lora_rx_buf := buf\<rparr>
      in run_bind (lora_tx (phy w1) (Some buf) n (drv w1, hist w1))
           (\<lambda>(_, (drv', hist')). Inr (w1\<lparr>drv := drv', hist := hist'\<rparr>)))"

text \<open>The body after \<open>lora_rx_poll\<close> returned \<open>n\<close>.\<close>

definition handle_packet :: "hal_env \<Rightarrow> nat \<Rightarrow> world \<Rightarrow> world run" where
  "handle_packet e n w =
     (if n \<le> MESH_HEADER_SIZE then Inr w
      else let h = header_of (lora_rx_buf w);
               should_fwd = flood_should_forward (flood_st w) (Some (lora_rx_buf w)) n;
               w1 = w\<lparr>flood_st := flood_seen (from_id h) (packet_id h) (flood_st w)\<rparr>
        in run_bind
             (if to_id h = MESH_BROADCAST_ID \<or> to_id h = node_id (g_config w1)
              then receive_packet e h n w1 else Inr w1)
             (\<lambda>w2. if should_fwd then forward_packet e n w2 else Inr w2))"

definition mesh_mini_loop :: "hal_env \<Rightarrow> world \<Rightarrow> world run" where
  "mesh_mini_loop e w =
     (let (led', h1) = led_tick e (led_st w) (hist w) in
      run_bind (uart_rx_line_poll e (w\<lparr>led_st := led', hist := h1\<rparr>))
        (\<lambda>w1. case lora_rx_poll (phy w1) (Some (lora_rx_buf w1)) LORA_BUF_SIZE (drv w1, hist w1) of
           (n, buf, (drv', h2)) \<Rightarrow>
             handle_packet e n (w1\<lparr>lora_rx_buf := the buf, drv := drv', hist := h2\<rparr>)))"

section \<open>Initialisation\<close>

definition mesh_mini_init :: "hal_env \<Rightarrow> 'f flash_hal \<Rightarrow> 'f \<Rightarrow> world \<Rightarrow> world" where
  "mesh_mini_init e hal f w =
     (let (led', h1) = led_init (led_st w) (hist w);
          cfg1 = the (config_set_defaults (Some (g_config w)));
          cfg2 = the (snd (config_load hal f (Some cfg1)));
          (_, lora1, (drv1, h2)) = lora_init (phy w) (lora_st w) (drv w, h1);
          (_, lora2, (drv2, h3)) =
            lora_set_region_preset (phy w) REGION_EU_868 MODEM_LONG_FAST lora1 (drv1, h2)
      in w\<lparr>led_st := led', g_config := cfg2, lora_st := lora2, drv := drv2, hist := h3,
           aes_st := aes_set_channel_key (Some (channel_psk cfg2)) (aes_st w)\<rparr>)"

end
