(* ===== verification/Air_Done.thy ===== *)
theory Air_Done
  imports Radio_Facts
begin

text \<open>
  Transmissions that were completed. \<open>frames_sent\<close> counts a frame as soon as \<open>RADIO_SET_TX\<close> is issued;
  \<open>frames_done\<close> counts it only when TX_DONE was read while the frame was on the air, that is before
  the radio was put to standby, set to receive or reset. A driver that gives up too early cuts the frame
  off, and it is never counted.
\<close>

section \<open>The monitor\<close>

definition done_step :: "hal_env \<Rightarrow> hw \<Rightarrow> hal_call \<Rightarrow> u8 list option \<times> u8 list list \<Rightarrow> u8 list option \<times> u8 list list" where
  "done_step e h c m =
     (case c of
        ExecSetCmd k ps \<Rightarrow>
          if k = RADIO_SET_TX
          then (if call_ok e c h then Some (take (fst (snd (air h))) (fst (air h))) else None, snd m)
          else if k = RADIO_SET_STANDBY \<or> k = RADIO_SET_RX then (None, snd m) else m
      | RfReset b \<Rightarrow> (None, snd m)
      | _ \<Rightarrow>
          if c = irq_status_call \<and> call_ok e c h \<and> irq_word (call_bytes e c 2 h) AND 0x01 \<noteq> 0
          then (None, snd m @ (case fst m of None \<Rightarrow> [] | Some f \<Rightarrow> [f])) else m)"

text \<open>The calls are read in their order, each with the history before it.\<close>

primrec done_rev :: "hal_env \<Rightarrow> hw \<Rightarrow> u8 list option \<times> u8 list list" where
  "done_rev e [] = (None, [])"
| "done_rev e (c # r) = done_step e (rev r) c (done_rev e r)"

definition frame_on_air :: "hal_env \<Rightarrow> hw \<Rightarrow> u8 list option" where
  "frame_on_air e h = fst (done_rev e (rev h))"

definition frames_done :: "hal_env \<Rightarrow> hw \<Rightarrow> u8 list list" where
  "frames_done e h = snd (done_rev e (rev h))"

lemma frames_done_Nil [simp]: "frames_done e [] = []"
  by (simp add: frames_done_def)

lemma done_issue:
  "(frame_on_air e (issue c h), frames_done e (issue c h)) = done_step e h c (frame_on_air e h, frames_done e h)"
  by (simp add: frame_on_air_def frames_done_def issue_def)

lemma frames_done_issue: "c \<noteq> irq_status_call \<Longrightarrow> frames_done e (issue c h) = frames_done e h"
  using done_issue [of e c h] by (cases c) (auto simp: done_step_def split: if_splits)

lemma on_air_tick [simp]: "frame_on_air e (issue GetTick h) = frame_on_air e h"
  using done_issue [of e GetTick h] by (simp add: done_step_def)

lemma done_status_read:
  "(frame_on_air e (issue irq_status_call h), frames_done e (issue irq_status_call h)) =
     (if call_ok e irq_status_call h \<and> irq_word (call_bytes e irq_status_call 2 h) AND 0x01 \<noteq> 0
      then (None, frames_done e h @ (case frame_on_air e h of None \<Rightarrow> [] | Some f \<Rightarrow> [f]))
      else (frame_on_air e h, frames_done e h))"
  by (simp add: done_issue done_step_def)

lemma on_air_started:
  "call_ok e set_tx_call h \<Longrightarrow> frame_on_air e (issue set_tx_call h) = Some (take (fst (snd (air h))) (fst (air h)))"
  using done_issue [of e set_tx_call h] by (simp add: done_step_def)

section \<open>The driver\<close>

lemma frames_done_frame [simp]:
  "frames_done g (subghz_wait_busy e h) = frames_done g h"
  "frames_done g (rf_ctrl_set_off e h) = frames_done g h" "frames_done g (rf_ctrl_set_rx e h) = frames_done g h"
  "frames_done g (rf_ctrl_set_tx e h) = frames_done g h" "frames_done g (set_cmd k ps h) = frames_done g h"
  "frames_done g (clr_irq h) = frames_done g h" "frames_done g (set_rx h) = frames_done g h"
  by (rule wait_busy_invariant, simp add: frames_done_issue)
    (simp_all add: rf_ctrl_set_off_def rf_ctrl_set_rx_def rf_ctrl_set_tx_def set_cmd_def clr_irq_def set_rx_def
      frames_done_issue)

lemma frames_done_driver [simp]:
  "frames_done g (apply_pa_tx_params e h) = frames_done g h" "frames_done g (tx_prepare e n h) = frames_done g h"
  "frames_done g (tx_ready e bs n h) = frames_done g h" "frames_done g (tx_started e bs n h) = frames_done g h"
  "frames_done g (return_to_rx e h) = frames_done g h" "frames_done g (rearm_rx e h) = frames_done g h"
  "frames_done g (unlock_irq h) = frames_done g h"
proof -
  show pa: "frames_done g (apply_pa_tx_params e h) = frames_done g h" for h
    by (simp add: apply_pa_tx_params_def Let_def frames_done_issue)
  show prep: "frames_done g (tx_prepare e n h) = frames_done g h"
    by (simp add: tx_prepare_def Let_def pa frames_done_issue)
  show ready: "frames_done g (tx_ready e bs n h) = frames_done g h"
    by (simp add: tx_ready_def prep frames_done_issue)
  show "frames_done g (tx_started e bs n h) = frames_done g h"
    by (simp add: tx_started_def ready frames_done_issue)
qed (simp_all add: return_to_rx_def rearm_rx_def unlock_irq_def Let_def frames_done_issue)

text \<open>A poll that reports nothing completes nothing; one that reports TX_DONE completes the frame on the air.\<close>

lemma poll_turn_done:
  "frame_on_air e h = Some f \<Longrightarrow>
     (frame_on_air e (poll_turn h), frames_done e (poll_turn h)) =
     (if tx_report e h = Some True then (None, frames_done e h @ [f]) else (Some f, frames_done e h))"
proof -
  assume f: "frame_on_air e h = Some f"
  have g: "frame_on_air e (issue GetTick h) = Some f" "frames_done e (issue GetTick h) = frames_done e h"
    using f by (simp_all add: frames_done_issue)
  have "(w :: u16) AND 1 = (w AND 0x0201) AND 1" for w by (simp add: and.assoc)
  then have "w AND 0x0201 \<noteq> 0" if "(w :: u16) AND 1 \<noteq> 0" for w using that by (metis and_zero_eq and.commute)
  then show ?thesis
    unfolding poll_turn_def done_status_read g tx_report_def Let_def by (auto split: if_splits)
qed

lemma poll_done:
  assumes "poll_ends e t0 h k ok h'" and "frame_on_air e h = Some f"
  shows "frames_done e h' = frames_done e h @ (if ok then [f] else [])"
proof -
  have "frame_on_air e (polled j h) = Some f \<and> frames_done e (polled j h) = frames_done e h" if "j \<le> k" for j
    using that
  proof (induction j)
    case (Suc j)
    then have "tx_report e (polled j h) = None" using assms(1) by (simp add: poll_ends_def)
    with Suc poll_turn_done [of e "polled j h" f] show ?case by simp
  qed (simp add: assms(2))
  then have k: "frame_on_air e (polled k h) = Some f" "frames_done e (polled k h) = frames_done e h" by simp_all
  from assms(1) poll_turn_done [OF k(1)] show ?thesis
    by (auto simp: poll_ends_def k(2) frames_done_issue split: if_splits)
qed

text \<open>A transmission is completed exactly when the driver reports success.\<close>

lemma tx_done:
  assumes "stm32wl_radio_tx e (Some bs) len (d, h) = Inr (ok, (d', h'))" and "len \<le> 255" and "len \<le> length bs"
  shows "frames_done e h' = frames_done e h @ (if ok then [take len bs] else [])"
proof -
  have len: "len \<le> 256" using assms(2) by simp
  from assms(1) len show ?thesis
  proof (cases rule: tx_cases)
    case (polled h5)
    have "frame_on_air e (tx_started e bs len h) = Some (take len bs)"
      using polled(2) assms(2,3) tx_prepare_mon(4,5,6) [of e len h]
      by (cases "air (tx_prepare e len h)") (simp add: tx_started_def on_air_started, simp add: tx_ready_def mon_simps memcpy_at_def)
    then have "frame_on_air e (issue GetTick (tx_started e bs len h)) = Some (take len bs)" by simp
    moreover obtain k where
      "poll_ends e (env_tick e (tx_started e bs len h)) (issue GetTick (tx_started e bs len h)) k ok h5"
      by (rule tx_poll_ends [OF polled(3)])
    ultimately have "frames_done e h5 = frames_done e (issue GetTick (tx_started e bs len h)) @ (if ok then [take len bs] else [])"
      by (intro poll_done)
    then show ?thesis by (simp add: polled(5) frames_done_issue)
  qed (simp_all add: frames_done_issue)
qed

text \<open>
  What a piece of code puts on the air between two histories: the transmissions it completes are among
  those it starts, and all of them where the transmitter works.
\<close>

definition air_ok :: "hal_env \<Rightarrow> hw \<Rightarrow> hw \<Rightarrow> bool" where
  "air_ok e h h' \<longleftrightarrow> (\<exists>fs ds. frames_sent h' = frames_sent h @ fs \<and> frames_done e h' = frames_done e h @ ds \<and>
     set ds \<subseteq> set fs \<and> (tx_works e \<longrightarrow> ds = fs))"

lemma air_ok_refl [simp, intro]: "air_ok e h h"
  by (simp add: air_ok_def)

lemma air_ok_none: "frames_sent h' = frames_sent h \<Longrightarrow> frames_done e h' = frames_done e h \<Longrightarrow> air_ok e h h'"
  by (simp add: air_ok_def)

lemma air_ok_trans [trans]: "air_ok e h h' \<Longrightarrow> air_ok e h' h'' \<Longrightarrow> air_ok e h h''"
  unfolding air_ok_def by (elim exE conjE, rule_tac x = "fs @ fsa" in exI, rule_tac x = "ds @ dsa" in exI) auto

lemma air_ok_done: "air_ok e h h' \<Longrightarrow> tx_works e \<Longrightarrow> frames_sent h' = frames_sent h @ fs \<Longrightarrow> frames_done e h' = frames_done e h @ fs"
  by (auto simp: air_ok_def)

lemma tx_air_ok:
  assumes "stm32wl_radio_tx e (Some bs) len (d, h) = Inr (ok, (d', h'))" and "len \<le> 255" and "len \<le> length bs"
  shows "air_ok e h h'"
proof -
  have ok if "tx_works e"
    using tx_works_runs [OF that, of len bs d h] assms(1,2) by auto
  then show ?thesis
    using tx_done [OF assms] tx_frames [OF assms] unfolding air_ok_def by (cases ok) auto
qed

end
