(* ===== verification/Main_Facts.thy ===== *)
theory Main_Facts
  imports Main_Loop Air_Done
begin

text \<open>
  What the main loop guarantees: the invariant of the static variables, the packets it sends
  and what the line editor makes of the bytes of the terminal.
\<close>

section \<open>The radio driver does not touch the terminal\<close>

lemma uart_out_radio [simp]:
  "uart_out (subghz_wait_busy e h) = uart_out h" "uart_out (rf_ctrl_set_off e h) = uart_out h"
  "uart_out (rf_ctrl_set_rx e h) = uart_out h" "uart_out (rf_ctrl_set_tx e h) = uart_out h"
  by (rule wait_busy_invariant) (simp_all add: rf_ctrl_set_off_def rf_ctrl_set_rx_def rf_ctrl_set_tx_def)

lemma uart_out_driver [simp]:
  "uart_out (apply_pa_tx_params e h) = uart_out h" "uart_out (tx_prepare e n h) = uart_out h"
  "uart_out (return_to_rx e h) = uart_out h" "uart_out (rearm_rx e h) = uart_out h"
  "uart_out (unlock_irq h) = uart_out h"
proof -
  show pa: "uart_out (apply_pa_tx_params e h) = uart_out h" for h
    by (simp add: apply_pa_tx_params_def set_cmd_def Let_def)
  show "uart_out (tx_prepare e n h) = uart_out h" "uart_out (return_to_rx e h) = uart_out h"
    "uart_out (rearm_rx e h) = uart_out h" "uart_out (unlock_irq h) = uart_out h"
    by (simp_all add: tx_prepare_def return_to_rx_def rearm_rx_def unlock_irq_def set_cmd_def clr_irq_def
        set_rx_def Let_def pa)
qed

lemma tx_uart:
  assumes "stm32wl_radio_tx e bs len (d, h) = Inr (ok, (d', h'))"
  shows "uart_out h' = uart_out h \<and> d' = d"
proof -
  have "uart_out h5 = uart_out h4" if "tx_poll e t0 h4 = Some (b, h5)" for t0 h4 b h5
    by (rule tx_poll_invariant [OF that]) simp_all
  then show ?thesis
    using assms by (fastforce simp: stm32wl_radio_tx_def Let_def split: option.splits if_splits)
qed

lemma rx_poll_uart:
  assumes "stm32wl_radio_rx_poll e b m (d, h) = (n, b', (d', h'))"
  shows "uart_out h' = uart_out h"
  using assms by (auto simp: stm32wl_radio_rx_poll_def Let_def clr_irq_def set_cmd_def
      split: option.splits if_splits)

lemma frames_sent_issue: "(\<And>bs. c \<noteq> ExecSetCmd RADIO_SET_TX bs) \<Longrightarrow> frames_sent (issue c h) = frames_sent h"
  by (cases "air h"; cases c) (auto simp: frames_sent_def air_issue)

lemma rx_poll_frames:
  assumes "stm32wl_radio_rx_poll e b m (d, h) = (n, b', (d', h'))"
  shows "frames_sent h' = frames_sent h"
  using assms by (auto simp: stm32wl_radio_rx_poll_def Let_def rearm_mon frames_sent_issue clr_irq_def set_cmd_def split: option.splits if_splits)

lemma rx_poll_done:
  assumes "stm32wl_radio_rx_poll e b m (d, h) = (n, b', (d', h'))"
  shows "frames_done e h' = frames_done e h"
  using assms by (auto simp: stm32wl_radio_rx_poll_def Let_def frames_done_issue split: option.splits if_splits)

section \<open>The invariant\<close>

definition world_inv :: "hal_env \<Rightarrow> world \<Rightarrow> bool" where
  "world_inv e w \<longleftrightarrow> phy w = Some (stm32wl_ops e) \<and> length (lora_rx_buf w) = 256 \<and>
     length (lora_tx_buf w) = 256 \<and> length (line_buf w) = 200 \<and> line_len w \<le> 199 \<and>
     flood_inv (flood_st w) \<and> serial_inv (serial_st w) \<and> radio_inv (drv w, hist w)"

lemma lora_tx_stm32wl [simp]:
  "lora_tx (Some (stm32wl_ops e)) (Some b) n s = stm32wl_radio_tx e (Some b) n s"
  by (simp add: lora_tx_def radio_phy_tx_def current_ops_def stm32wl_ops_def)

lemma lora_rx_stm32wl [simp]:
  "0 < m \<Longrightarrow> lora_rx_poll (Some (stm32wl_ops e)) (Some b) m s = stm32wl_radio_rx_poll e (Some b) m s"
  by (simp add: lora_rx_poll_def radio_phy_rx_poll_def current_ops_def stm32wl_ops_def)

lemma put_world [simp]:
  "world_inv e (put_str s w) = world_inv e w" "world_inv e (put_num v w) = world_inv e w"
  "world_inv e (put_bytes d n w) = world_inv e w"
  by (simp_all add: world_inv_def put_str_def put_num_def put_bytes_def radio_inv_def)

section \<open>Sending\<close>

text \<open>The state after a send whose encryption produced \<open>p\<close>.\<close>

definition sent_world :: "u32 \<Rightarrow> u8 list \<Rightarrow> aes_state \<Rightarrow> radio \<Rightarrow> world \<Rightarrow> world" where
  "sent_world to p aes' r w = w\<lparr>next_packet_id := next_packet_id w + 1,
     lora_tx_buf := header_bytes (own_header to w) @ p, aes_st := aes',
     flood_st := flood_seen (node_id (g_config w)) (next_packet_id w) (flood_st w),
     drv := fst r, hist := snd r\<rparr>"

lemma send_run:
  assumes "text_len \<le> 127" and "text_len \<le> length text" and "world_inv e w"
  obtains p aes' h' where
    "aes_ctr_crypt e (pb_message 1 (take text_len text) @ drop (20 + text_len) (lora_tx_buf w)) (4 + text_len)
       (next_packet_id w) (node_id (g_config w)) (aes_st w) (hist w) = Inr (p, aes', h')"
    "length p = 240" "frames_sent h' = frames_sent (hist w)" "uart_out h' = uart_out (hist w)"
    "send_lora_packet e to text text_len w =
       run_bind (stm32wl_radio_tx e (Some (header_bytes (own_header to w) @ p)) (20 + text_len) (drv w, h'))
         (\<lambda>(ok, r). Inr (ok, sent_world to p aes' r w))"
proof -
  let ?m = "pb_message 1 (take text_len text)"
  let ?h = "own_header to w"
  let ?b = "?m @ drop (20 + text_len) (lora_tx_buf w)"
  have lm: "length ?m = 4 + text_len"
    using assms(2) by simp
  have b1: "memcpy_at (header_bytes ?h @ drop 16 (lora_tx_buf w)) 16 ?m = header_bytes ?h @ ?b"
    using assms(2) by (simp add: memcpy_at_def min_absorb2)
  have enc: "pb_encode_data (replicate 240 0) 240 1 text text_len =
      (memcpy_at (replicate 240 0) 0 ?m, 4 + text_len)"
    using assms(1,2) by (simp add: pb_encode_out pb_message_def)
  obtain p aes' h' where a: "aes_ctr_crypt e ?b (4 + text_len) (next_packet_id w) (node_id (g_config w))
      (aes_st w) (hist w) = Inr (p, aes', h')" "length p = length ?b"
    and f: "(frames_sent h', uart_out h') = (frames_sent (hist w), uart_out (hist w))"
    using aes_ctr_crypt_returns [of "4 + text_len" "\<lambda>h. (frames_sent h, uart_out h)" e ?b "next_packet_id w"
        "node_id (g_config w)" "aes_st w" "hist w"] assms(1)
    by (auto simp: frames_sent_issue)
  have lp: "length p = 240"
    using a(2) lm assms(1,3) by (simp add: world_inv_def)
  have "send_lora_packet e to text text_len w =
       run_bind (stm32wl_radio_tx e (Some (header_bytes ?h @ p)) (20 + text_len) (drv w, h'))
         (\<lambda>(ok, r). Inr (ok, sent_world to p aes' r w))"
  proof -
    have b2: "memcpy_at (header_bytes ?h @ ?b) 16 p = header_bytes ?h @ p"
      using lp a(2) by (simp add: memcpy_at_def)
    have "phy w = Some (stm32wl_ops e)" "drop (16 + length p) (lora_tx_buf w) = []"
      using assms(3) lp by (simp_all add: world_inv_def)
    then show ?thesis
      using a(1) b1 b2 lm
      by (simp add: send_lora_packet_def PORTNUM_TEXT_MESSAGE_def enc Let_def mesh_header_to_buf_def
          take_memcpy_at_0 own_header_def [of to w] split_def sent_world_def)
        (simp add: memcpy_at_def own_header_def)
  qed
  with a lp f show ?thesis by (intro that) auto
qed


text \<open>The packet a text makes on the air.\<close>

definition text_frame :: "hal_env \<Rightarrow> u32 list \<Rightarrow> mesh_lora_header \<Rightarrow> u8 list \<Rightarrow> u8 list" where
  "text_frame e key h text = header_bytes h @
     ctr_spec e key (packet_id h) (from_id h) (4 + length text) (pb_message PORTNUM_TEXT_MESSAGE text)"

lemma length_text_frame [simp]: "length (text_frame e key h text) = 20 + length text"
  by (simp add: text_frame_def)

lemma own_header_fields [simp]:
  "to_id (own_header to w) = to" "from_id (own_header to w) = node_id (g_config w)"
  "packet_id (own_header to w) = next_packet_id w"
  by (simp_all add: own_header_def)

lemma sent_world_fields [simp]:
  "g_config (sent_world to p a r w) = g_config w" "serial_st (sent_world to p a r w) = serial_st w"
  "phy (sent_world to p a r w) = phy w" "lora_rx_buf (sent_world to p a r w) = lora_rx_buf w"
  "next_packet_id (sent_world to p a r w) = next_packet_id w + 1"
  "flood_st (sent_world to p a r w) = flood_seen (node_id (g_config w)) (next_packet_id w) (flood_st w)"
  "hist (sent_world to p a r w) = snd r" "drv (sent_world to p a r w) = fst r"
  "line_buf (sent_world to p a r w) = line_buf w" "line_len (sent_world to p a r w) = line_len w"
  "aes_st (sent_world to p a r w) = a" "lora_st (sent_world to p a r w) = lora_st w"
  by (simp_all add: sent_world_def)

lemma sent_world_inv:
  assumes "world_inv e w" and "length p = 240" and "fst r = drv w"
  shows "world_inv e (sent_world to p a r w)"
  using assms by (simp add: world_inv_def sent_world_def flood_inv_seen radio_inv_def)

text \<open>Every way a send of a short text can end.\<close>

lemma send_result:
  assumes "send_lora_packet e to text n w = Inr (ok, w')" and "n \<le> 127" and "n \<le> length text"
    and "world_inv e w"
  obtains p aes' h' h'' where
    "aes_ctr_crypt e (pb_message 1 (take n text) @ drop (20 + n) (lora_tx_buf w)) (4 + n)
       (next_packet_id w) (node_id (g_config w)) (aes_st w) (hist w) = Inr (p, aes', h')"
    "w' = sent_world to p aes' (drv w, h'') w" "length p = 240" "uart_out h'' = uart_out (hist w)"
    "frames_sent h'' = frames_sent (hist w) @ [header_bytes (own_header to w) @ take (4 + n) p] \<and>
       rf_levels h'' = rf_rx_levels e \<and> (radio_mode_of h'' = RxMode \<or> \<not> ok \<and> radio_mode_of h'' = TxMode) \<or>
     \<not> ok \<and> frames_sent h'' = frames_sent (hist w) \<and> rf_levels h'' = rf_off_levels e \<and>
       radio_mode_of h'' = StandbyMode"
proof -
  obtain p aes' h' where a:
    "aes_ctr_crypt e (pb_message 1 (take n text) @ drop (20 + n) (lora_tx_buf w)) (4 + n)
       (next_packet_id w) (node_id (g_config w)) (aes_st w) (hist w) = Inr (p, aes', h')"
    "length p = 240" "frames_sent h' = frames_sent (hist w)" "uart_out h' = uart_out (hist w)"
    and run: "send_lora_packet e to text n w =
       run_bind (stm32wl_radio_tx e (Some (header_bytes (own_header to w) @ p)) (20 + n) (drv w, h'))
         (\<lambda>(ok, r). Inr (ok, sent_world to p aes' r w))"
    using send_run [OF assms(2-4)] by blast
  from assms(1) run obtain d'' h'' where
    tx: "stm32wl_radio_tx e (Some (header_bytes (own_header to w) @ p)) (20 + n) (drv w, h') = Inr (ok, (d'', h''))"
    and w': "w' = sent_world to p aes' (d'', h'') w"
    by (auto simp: run_bind_eq_Inr)
  have "20 + n \<le> 255" "20 + n \<le> length (header_bytes (own_header to w) @ p)"
    using assms(2) a(2) by simp_all
  from tx_frames [OF tx this] tx_uart [OF tx] a w' show ?thesis
    by (intro that [of p aes' h' h'']) auto
qed

lemma send_encrypted:
  assumes "aes_ctr_crypt e (m @ r) (4 + n) pid frm st h = Inr (p, st', h')" and "cryp_ok e"
    and "n \<le> 127" and "length m = 4 + n"
  shows "take (4 + n) p = ctr_spec e (hw_key st) pid frm (4 + n) m \<and> hw_key st' = hw_key st"
proof -
  have "p = ctr_spec e (hw_key st) pid frm (4 + n) (m @ r) \<and> hw_key st' = hw_key st"
    using aes_ctr_crypt_ok [OF assms(2), of "4 + n" "m @ r" pid frm st h] assms(1,3) by auto
  then show ?thesis
    using assms(4) by (simp add: ctr_spec_append)
qed

text \<open>What a send completes is what it started, if it reports success, and else nothing.\<close>

lemma send_done:
  assumes "send_lora_packet e to text n w = Inr (ok, w')" and "n \<le> 127" and "n \<le> length text" and "world_inv e w"
  obtains fs where "frames_sent (hist w') = frames_sent (hist w) @ fs"
    and "frames_done e (hist w') = frames_done e (hist w) @ (if ok then fs else [])" and "tx_works e \<Longrightarrow> ok"
proof -
  obtain p aes' h' where a:
    "aes_ctr_crypt e (pb_message 1 (take n text) @ drop (20 + n) (lora_tx_buf w)) (4 + n)
       (next_packet_id w) (node_id (g_config w)) (aes_st w) (hist w) = Inr (p, aes', h')"
    "length p = 240" "frames_sent h' = frames_sent (hist w)"
    and run: "send_lora_packet e to text n w =
       run_bind (stm32wl_radio_tx e (Some (header_bytes (own_header to w) @ p)) (20 + n) (drv w, h'))
         (\<lambda>(ok, r). Inr (ok, sent_world to p aes' r w))"
    using send_run [OF assms(2-4)] by blast
  have "4 + n \<le> 65520" using assms(2) by simp
  from aes_ctr_crypt_calls [OF a(1) this, of "frames_done e"] have h': "frames_done e h' = frames_done e (hist w)"
    by (simp add: frames_done_issue)
  let ?f = "header_bytes (own_header to w) @ p"
  have len: "20 + n \<le> 255" "20 + n \<le> length ?f" "20 + n \<le> 256" using assms(2) a(2) by simp_all
  from assms(1) run obtain d'' h'' where
    tx: "stm32wl_radio_tx e (Some ?f) (20 + n) (drv w, h') = Inr (ok, (d'', h''))"
    and w': "w' = sent_world to p aes' (d'', h'') w"
    by (auto simp: run_bind_eq_Inr)
  have "ok" if works: "tx_works e"
  proof -
    obtain g where "stm32wl_radio_tx e (Some ?f) (20 + n) (drv w, h') = Inr (True, (drv w, g))"
      by (rule tx_works_runs [OF works len(3)])
    with tx show ?thesis by simp
  qed
  with tx_frames [OF tx len(1,2)] tx_done [OF tx len(1,2)] a(3) h' show ?thesis
    by (cases ok) (auto simp: w' intro: that)
qed

lemma send_correct:
  assumes "send_lora_packet e to text n w = Inr (True, w')" and "n \<le> 127" and "n \<le> length text"
    and "world_inv e w" and "cryp_ok e"
  shows "frames_sent (hist w') = frames_sent (hist w) @
      [text_frame e (hw_key (aes_st w)) (own_header to w) (take n text)] \<and>
    frames_done e (hist w') = frames_done e (hist w) @
      [text_frame e (hw_key (aes_st w)) (own_header to w) (take n text)] \<and>
    next_packet_id w' = next_packet_id w + 1 \<and> radio_mode_of (hist w') = RxMode \<and>
    flood_was_seen (node_id (g_config w)) (next_packet_id w) (flood_st w') \<and> world_inv e w'"
proof -
  from assms(1-4) obtain p aes' h' h'' where
    a: "aes_ctr_crypt e (pb_message 1 (take n text) @ drop (20 + n) (lora_tx_buf w)) (4 + n)
       (next_packet_id w) (node_id (g_config w)) (aes_st w) (hist w) = Inr (p, aes', h')"
    and w': "w' = sent_world to p aes' (drv w, h'') w" "length p = 240"
    and f: "frames_sent h'' = frames_sent (hist w) @ [header_bytes (own_header to w) @ take (4 + n) p]"
      "radio_mode_of h'' = RxMode"
    by (rule send_result) auto
  have fl: "flood_inv (flood_st w)" using assms(4) by (simp add: world_inv_def)
  have "length (pb_message 1 (take n text)) = 4 + n" using assms(3) by simp
  from send_encrypted [OF a assms(5,2) this] f assms(3)
  have "frames_sent h'' = frames_sent (hist w) @ [text_frame e (hw_key (aes_st w)) (own_header to w) (take n text)]"
    by (simp add: text_frame_def PORTNUM_TEXT_MESSAGE_def min_absorb2)
  moreover have "flood_was_seen (node_id (g_config w)) (next_packet_id w) (flood_st w')"
    using seen_ring.remembered [OF fl, of "[]" "(node_id (g_config w), next_packet_id w)"]
    by (simp add: w'(1) flood_seen_key_def flood_was_seen_key_def)
  moreover have "frames_done e (hist w') = frames_done e (hist w) @ drop (length (frames_sent (hist w))) (frames_sent (hist w'))"
    by (rule send_done [OF assms(1-4)]) simp
  ultimately show ?thesis
    using f(2) sent_world_inv [OF assms(4) w'(2)] by (simp add: w'(1))
qed


text \<open>A concrete node: the driver is registered, the transmitter works.\<close>

definition demo_world :: world where
  "demo_world = world_reset\<lparr>phy := Some (stm32wl_ops demo_tx_env),
     serial_st := serial_reset\<lparr>uart_instance := True\<rparr>\<rparr>"

lemma demo_world_inv [simp]: "world_inv demo_tx_env demo_world"
  by (simp add: world_inv_def demo_world_def world_reset_def radio_inv_def radio_drv_reset_def
      serial_inv_def serial_reset_def)

lemma demo_tx_env_cryp [simp]: "cryp_ok demo_tx_env"
  by (simp add: cryp_ok_def call_ok_def)

lemma send_works:
  assumes "tx_works e" and "n \<le> 127" and "n \<le> length text" and "world_inv e w"
  obtains w' where "send_lora_packet e to text n w = Inr (True, w')"
proof -
  obtain p aes' h' where run: "send_lora_packet e to text n w =
      run_bind (stm32wl_radio_tx e (Some (header_bytes (own_header to w) @ p)) (20 + n) (drv w, h'))
         (\<lambda>(ok, r). Inr (ok, sent_world to p aes' r w))"
    using send_run [OF assms(2-4)] by blast
  have "20 + n \<le> 256" using assms(2) by simp
  from tx_works_runs [OF assms(1) this] obtain h'' where
    "stm32wl_radio_tx e (Some (header_bytes (own_header to w) @ p)) (20 + n) (drv w, h') = Inr (True, (drv w, h''))"
    by blast
  with run that show ?thesis by simp
qed

text \<open>
  C7. A text of at most 127 bytes that \<open>send_lora_packet\<close> reports as sent has gone out as one frame:
  the header with our node id, the packet id and a hop limit of 3, then the encryption of the protobuf
  message with the text, provided that the AES peripheral works (\<open>cryp_ok\<close>); and its transmission was
  completed (\<open>frames_done\<close>). The packet counter is
  advanced, the packet is remembered, so that its echo is not relayed, and the radio is receiving again.
\<close>

theorem send_lora_packet_correct:
  assumes "send_lora_packet e to text n w = Inr (True, w')" and "n \<le> 127" and "n \<le> length text"
    and "world_inv e w" and "cryp_ok e"
  shows "frames_sent (hist w') = frames_sent (hist w) @
      [text_frame e (hw_key (aes_st w)) (own_header to w) (take n text)] \<and>
    frames_done e (hist w') = frames_done e (hist w) @
      [text_frame e (hw_key (aes_st w)) (own_header to w) (take n text)] \<and>
    next_packet_id w' = next_packet_id w + 1 \<and> radio_mode_of (hist w') = RxMode \<and>
    flood_was_seen (node_id (g_config w)) (next_packet_id w) (flood_st w') \<and> world_inv e w'"
  by (rule send_correct [OF assms])

theorem send_lora_packet_correct_witness:
  "\<exists>w'. send_lora_packet demo_tx_env 7 [0x68, 0x69] 2 demo_world = Inr (True, w') \<and>
    frames_done demo_tx_env (hist w') = [text_frame demo_tx_env (replicate 4 0) (own_header 7 demo_world) [0x68, 0x69]]"
proof -
  have n: "2 \<le> (127 :: nat)" "2 \<le> length [0x68 :: u8, 0x69]" by simp_all
  from send_works [OF demo_tx_works n demo_world_inv] obtain w' where
    s: "send_lora_packet demo_tx_env 7 [0x68, 0x69] 2 demo_world = Inr (True, w')"
    by blast
  from send_lora_packet_correct [OF s n demo_world_inv demo_tx_env_cryp] s show ?thesis
    by (intro exI [of _ w']) (simp add: demo_world_def world_reset_def aes_reset_def)
qed

text \<open>
  C37. When the AES peripheral refuses, because it cannot be initialised or because it rejects the first
  block, \<open>send_lora_packet\<close> transmits all the same, over a transmitter that works, and reports success; the
  frame on the air, which is transmitted to its end (\<open>frames_done\<close>), carries the text in the clear.
\<close>

theorem send_plaintext_on_aes_failure:
  assumes "tx_works e" and "n \<le> 127" and "n \<le> length text" and "world_inv e w"
    and "\<not> cryp_ready (aes_st w) \<and> \<not> call_ok e (CrypInit (hcryp_config (aes_st w))) (hist w) \<or>
      (\<forall>h. \<not> call_ok e (CrypEncrypt (hw_key (aes_st w))
         (bytes_to_be_words (ctr_nonce (next_packet_id w) (node_id (g_config w)))) 100) h)"
  shows "\<exists>w'. send_lora_packet e to text n w = Inr (True, w') \<and>
    frames_sent (hist w') = frames_sent (hist w) @
      [header_bytes (own_header to w) @ pb_message PORTNUM_TEXT_MESSAGE (take n text)] \<and>
    frames_done e (hist w') = frames_done e (hist w) @
      [header_bytes (own_header to w) @ pb_message PORTNUM_TEXT_MESSAGE (take n text)]"
proof -
  obtain w' where s: "send_lora_packet e to text n w = Inr (True, w')"
    by (rule send_works [OF assms(1-4)])
  then obtain p aes' h' h'' where
    a: "aes_ctr_crypt e (pb_message 1 (take n text) @ drop (20 + n) (lora_tx_buf w)) (4 + n)
       (next_packet_id w) (node_id (g_config w)) (aes_st w) (hist w) = Inr (p, aes', h')"
    and w': "w' = sent_world to p aes' (drv w, h'') w" "length p = 240"
    and f: "frames_sent h'' = frames_sent (hist w) @ [header_bytes (own_header to w) @ take (4 + n) p]"
    using assms(2-4) by (rule send_result) auto
  have "p = pb_message 1 (take n text) @ drop (20 + n) (lora_tx_buf w)"
    using aes_ctr_failure [OF assms(5), of "pb_message 1 (take n text) @ drop (20 + n) (lora_tx_buf w)" "4 + n"] a by auto
  moreover have "frames_done e (hist w') = frames_done e (hist w) @ drop (length (frames_sent (hist w))) (frames_sent (hist w'))"
    by (rule send_done [OF s assms(2-4)]) simp
  ultimately show ?thesis
    using f assms(3) s by (intro exI [of _ w']) (simp add: w'(1) PORTNUM_TEXT_MESSAGE_def)
qed

text \<open>The same node with an AES peripheral that does not initialise.\<close>

definition demo_noaes_env :: hal_env where
  "demo_noaes_env = demo_tx_env\<lparr>env_status := (\<lambda>h c. case c of CrypInit _ \<Rightarrow> HAL_ERROR | _ \<Rightarrow> HAL_OK)\<rparr>"

lemma demo_noaes_works: "tx_works demo_noaes_env"
  by (rule tx_works_cong [OF demo_tx_works]) (auto simp: demo_noaes_env_def fun_eq_iff)

theorem send_plaintext_on_aes_failure_witness:
  "\<exists>w'. send_lora_packet demo_noaes_env 7 [0x68, 0x69] 2
      (demo_world\<lparr>phy := Some (stm32wl_ops demo_noaes_env)\<rparr>) = Inr (True, w') \<and>
    map (drop 20) (frames_done demo_noaes_env (hist w')) = [[0x68, 0x69]]"
proof -
  let ?w = "demo_world\<lparr>phy := Some (stm32wl_ops demo_noaes_env)\<rparr>"
  have n: "2 \<le> (127 :: nat)" "2 \<le> length [0x68 :: u8, 0x69]" by simp_all
  have inv: "world_inv demo_noaes_env ?w"
    using demo_world_inv by (simp add: world_inv_def)
  have "\<not> cryp_ready (aes_st ?w) \<and> \<not> call_ok demo_noaes_env (CrypInit (hcryp_config (aes_st ?w))) (hist ?w) \<or>
      (\<forall>h. \<not> call_ok demo_noaes_env (CrypEncrypt (hw_key (aes_st ?w))
         (bytes_to_be_words (ctr_nonce (next_packet_id ?w) (node_id (g_config ?w)))) 100) h)"
    by (simp add: demo_world_def world_reset_def aes_reset_def call_ok_def demo_noaes_env_def)
  from send_plaintext_on_aes_failure [OF demo_noaes_works n inv this, of 7] obtain w' where
    "send_lora_packet demo_noaes_env 7 [0x68, 0x69] 2 ?w = Inr (True, w')"
    "frames_done demo_noaes_env (hist w') = frames_done demo_noaes_env (hist ?w) @
      [header_bytes (own_header 7 ?w) @ pb_message PORTNUM_TEXT_MESSAGE (take 2 [0x68, 0x69])]" by blast
  then show ?thesis
    by (intro exI [of _ w']) (simp add: demo_world_def world_reset_def pb_message_def)
qed


section \<open>The terminal\<close>

lemma put_fields [simp]:
  "g_config (put_str s w) = g_config w" "g_config (put_num v w) = g_config w" "g_config (put_bytes d n w) = g_config w"
  "serial_st (put_str s w) = serial_st w" "serial_st (put_num v w) = serial_st w" "serial_st (put_bytes d n w) = serial_st w"
  "phy (put_str s w) = phy w" "phy (put_num v w) = phy w" "phy (put_bytes d n w) = phy w"
  "drv (put_str s w) = drv w" "drv (put_num v w) = drv w" "drv (put_bytes d n w) = drv w"
  "next_packet_id (put_str s w) = next_packet_id w" "next_packet_id (put_num v w) = next_packet_id w"
  "next_packet_id (put_bytes d n w) = next_packet_id w"
  "flood_st (put_str s w) = flood_st w" "flood_st (put_num v w) = flood_st w" "flood_st (put_bytes d n w) = flood_st w"
  "aes_st (put_str s w) = aes_st w" "aes_st (put_num v w) = aes_st w" "aes_st (put_bytes d n w) = aes_st w"
  "lora_st (put_str s w) = lora_st w" "lora_st (put_num v w) = lora_st w" "lora_st (put_bytes d n w) = lora_st w"
  "lora_rx_buf (put_str s w) = lora_rx_buf w" "lora_rx_buf (put_num v w) = lora_rx_buf w"
  "lora_rx_buf (put_bytes d n w) = lora_rx_buf w"
  "line_len (put_str s w) = line_len w" "line_len (put_num v w) = line_len w" "line_len (put_bytes d n w) = line_len w"
  "line_buf (put_str s w) = line_buf w" "line_buf (put_num v w) = line_buf w" "line_buf (put_bytes d n w) = line_buf w"
  by (simp_all add: put_str_def put_num_def put_bytes_def)

lemma put_frames [simp]:
  "frames_sent (hist (put_str s w)) = frames_sent (hist w)"
  "frames_sent (hist (put_num v w)) = frames_sent (hist w)"
  "frames_sent (hist (put_bytes d n w)) = frames_sent (hist w)"
  by (simp_all add: put_str_def put_num_def put_bytes_def serial_puts_def serial_put_int16_def serial_write_def
      Let_def frames_sent_issue)

lemma frames_done_put [simp]:
  "frames_done e (hist (put_str s w)) = frames_done e (hist w)"
  "frames_done e (hist (put_num v w)) = frames_done e (hist w)"
  "frames_done e (hist (put_bytes d n w)) = frames_done e (hist w)"
  by (simp_all add: put_str_def put_num_def put_bytes_def serial_puts_def serial_put_int16_def serial_write_def
      Let_def frames_done_issue)

text \<open>What the terminal has been shown, and that it is connected.\<close>

abbreviation shown :: "world \<Rightarrow> u8 list" where
  "shown w \<equiv> uart_out (hist w)"

abbreviation online :: "world \<Rightarrow> bool" where
  "online w \<equiv> uart_instance (serial_st w)"

lemma put_shown [simp]:
  "online w \<Longrightarrow> 0 \<notin> set s \<Longrightarrow> length s \<le> 256 \<Longrightarrow> shown (put_str s w) = shown w @ s"
  "online w \<Longrightarrow> shown (put_num v w) = shown w @ int16_bytes v"
  "online w \<Longrightarrow> shown (put_bytes d n w) = shown w @ take n d"
  by (simp_all add: put_str_def put_num_def put_bytes_def uart_out_puts uart_out_put_int16 uart_out_write)

lemma literals [simp]:
  "0 \<notin> set (bytes_of ''RX: '')" "0 \<notin> set (bytes_of ''  RSSI: '')" "0 \<notin> set (bytes_of '' dBm  SNR: '')"
  "0 \<notin> set (bytes_of '' dB'')" "0 \<notin> set (bytes_of ''Sent.'')" "0 \<notin> set (bytes_of ''TX failed.'')"
  "0 \<notin> set (bytes_of ''node_id set'')" "0 \<notin> set crlf" "length crlf = 2"
  by (simp_all add: bytes_of_def crlf_def)

text \<open>
  A line of two or more characters that starts with \<open>N\<close> or \<open>n\<close> is never sent, whatever follows:
  it sets the node id when the second character is a digit from 1 to 9, and is otherwise dropped
  without a message, although the help text promises that any other text is sent.
\<close>

lemma n_lines_are_not_sent:
  assumes "2 \<le> line_len w" and "line_buf w ! 0 \<in> {of_char (CHR ''N''), of_char (CHR ''n'')}"
  shows "\<exists>w'. handle_line e w = Inr w' \<and> frames_sent (hist w') = frames_sent (hist w) \<and>
    next_packet_id w' = next_packet_id w \<and> line_len w' = 0 \<and>
    (if line_buf w ! 1 \<in> {of_char (CHR ''1'')..of_char (CHR ''9'')}
     then unat (node_id (g_config w')) = unat (line_buf w ! 1) - 48 \<and>
       (online w \<longrightarrow> shown w' = shown w @ bytes_of ''node_id set'' @ crlf)
     else g_config w' = g_config w \<and> shown w' = shown w)"
proof -
  let ?c = "line_buf w ! 1"
  have n: "line_buf w ! 0 = of_char (CHR ''N'') \<or> line_buf w ! 0 = of_char (CHR ''n'')"
    using assms(2) by simp
  have digit: "unat (ucast (?c - 48) :: u32) = unat ?c - 48" if "48 \<le> ?c"
  proof -
    have "unat (?c - 48) = unat ?c - 48"
      using that by (simp add: unat_sub)
    then show ?thesis
      using unsigned_less [of ?c, where 'a = nat] by (simp add: unsigned_ucast_eq take_bit_nat_eq_self)
  qed
  show ?thesis
  proof (cases "?c \<in> {of_char (CHR ''1'')..of_char (CHR ''9'')}")
    case True
    then have "(49 :: u8) \<le> ?c" by simp
    then have "(48 :: u8) \<le> ?c" by (simp add: word_le_nat_alt)
    with True n assms(1) digit show ?thesis
      by (simp add: handle_line_def Let_def)
  next
    case False
    with n assms(1) show ?thesis
      by (auto simp: handle_line_def Let_def)
  qed
qed

text \<open>The text that is sent or acted on: the first \<open>line_len\<close> bytes.\<close>

definition line_text :: "world \<Rightarrow> u8 list" where
  "line_text w = take (line_len w) (line_buf w)"

definition is_command :: "u8 list \<Rightarrow> bool" where
  "is_command s \<longleftrightarrow> 2 \<le> length s \<and> (s ! 0 = of_char (CHR ''N'') \<or> s ! 0 = of_char (CHR ''n'')) \<or>
     s = bytes_of ''help'' \<or> s = bytes_of ''info''"

lemma handle_line_text:
  assumes "\<not> is_command (line_text w)" and "line_len w \<le> length (line_buf w)"
  shows "handle_line e w = run_bind (send_lora_packet e MESH_BROADCAST_ID (line_buf w) (line_len w) w)
    (\<lambda>(ok, w1). Inr ((put_str (bytes_of (if ok then ''Sent.'' else ''TX failed.'') @ crlf) w1)\<lparr>line_len := 0\<rparr>))"
proof -
  have "\<not> (2 \<le> line_len w \<and> (line_buf w ! 0 = of_char (CHR ''N'') \<or> line_buf w ! 0 = of_char (CHR ''n'')))"
    using assms by (auto simp: is_command_def line_text_def)
  moreover have "\<not> (line_len w = 4 \<and> take 4 (line_buf w) = bytes_of ''help'')"
    "\<not> (line_len w = 4 \<and> take 4 (line_buf w) = bytes_of ''info'')"
    using assms(1) by (auto simp: is_command_def line_text_def)
  ultimately show ?thesis
    unfolding handle_line_def by (simp only: if_False)
qed

text \<open>
  A line longer than 127 bytes is accepted by the line editor, which keeps 199, but cannot be
  encoded: it is answered with \<open>TX failed.\<close>, and no packet id is used up and nothing is transmitted.
\<close>

lemma long_line_fails:
  assumes "127 < line_len w" and "world_inv e w" and "\<not> is_command (line_text w)"
  shows "\<exists>w'. handle_line e w = Inr w' \<and> frames_sent (hist w') = frames_sent (hist w) \<and>
    next_packet_id w' = next_packet_id w \<and> line_len w' = 0 \<and>
    (online w \<longrightarrow> shown w' = shown w @ bytes_of ''TX failed.'' @ crlf)"
proof -
  have "line_len w \<le> length (line_buf w)"
    using assms(2) by (simp add: world_inv_def)
  moreover have "send_lora_packet e MESH_BROADCAST_ID (line_buf w) (line_len w) w = Inr (False, w)"
    using assms(1) by (simp add: send_lora_packet_def pb_encode_data_def Let_def)
  ultimately show ?thesis
    by (simp add: handle_line_text [OF assms(3)])
qed

section \<open>The line loop\<close>

lemma send_keeps:
  assumes "send_lora_packet e to text n w = Inr (ok, w')"
  shows "serial_st w' = serial_st w" "g_config w' = g_config w" "phy w' = phy w" "line_len w' = line_len w"
    "line_buf w' = line_buf w" "lora_rx_buf w' = lora_rx_buf w" "lora_st w' = lora_st w" "led_st w' = led_st w"
  using assms by (auto simp: send_lora_packet_def Let_def run_bind_eq_Inr split: prod.splits if_splits)

lemma send_too_long: "127 < n \<Longrightarrow> send_lora_packet e to text n w = Inr (False, w)"
  by (simp add: send_lora_packet_def pb_encode_data_def Let_def)

lemma send_inv:
  assumes "send_lora_packet e to text n w = Inr (ok, w')" and "n \<le> length text" and "world_inv e w"
  shows "world_inv e w'"
proof (cases "n \<le> 127")
  case True
  from send_result [OF assms(1) True assms(2,3)] show ?thesis
    by (metis fst_conv sent_world_inv assms(3))
next
  case False
  then show ?thesis using assms(1,3) by (simp add: send_too_long)
qed

lemma send_returns:
  assumes "clock_runs e t k" and "n \<le> length text" and "world_inv e w"
  shows "\<exists>ok w'. send_lora_packet e to text n w = Inr (ok, w')"
proof (cases "n \<le> 127")
  case True
  from send_run [OF True assms(2,3)] tx_returns [OF assms(1)] show ?thesis
    by (metis (no_types, lifting) run_bind_Inr case_prod_conv)
next
  case False
  then show ?thesis by (auto simp: send_too_long)
qed

lemma info_keeps [simp]:
  "serial_st (info_line w) = serial_st w" "world_inv e (info_line w) = world_inv e w"
  "frames_sent (hist (info_line w)) = frames_sent (hist w)"
  by (simp_all add: info_line_def Let_def)

lemma handle_line_keeps:
  assumes "handle_line e w = Inr w'"
  shows "serial_st w' = serial_st w" and "world_inv e w \<Longrightarrow> world_inv e w'"
proof -
  have z: "world_inv e (v\<lparr>line_len := 0\<rparr>)" if "world_inv e v" for v
    using that by (simp add: world_inv_def)
  have g: "world_inv e (v\<lparr>g_config := c\<rparr>) = world_inv e v" for v c
    by (simp add: world_inv_def)
  show "serial_st w' = serial_st w"
    using assms by (auto simp: handle_line_def Let_def run_bind_eq_Inr send_keeps split: if_splits)
  assume inv: "world_inv e w"
  then have "line_len w \<le> length (line_buf w)" by (simp add: world_inv_def)
  with inv assms show "world_inv e w'"
    by (auto simp: handle_line_def Let_def run_bind_eq_Inr g intro!: z dest!: send_inv split: if_splits)
qed

lemma line_byte_keeps:
  assumes "line_byte e b w = Inr w'"
  shows "serial_st w' = serial_st w" and "world_inv e w \<Longrightarrow> world_inv e w'"
proof -
  have u: "world_inv e (v\<lparr>line_buf := (line_buf v)[k := x]\<rparr>) = world_inv e v" for v k x
    by (simp add: world_inv_def)
  show "serial_st w' = serial_st w"
    using assms by (auto simp: line_byte_def handle_line_keeps split: if_splits)
  assume "world_inv e w"
  with assms show "world_inv e w'"
    using handle_line_keeps(2) [of e "w\<lparr>line_buf := (line_buf w)[line_len w := 0]\<rparr>" w'] u
    by (auto simp: line_byte_def world_inv_def split: if_splits)
qed

lemma line_byte_returns:
  assumes "clock_runs e t k" and "world_inv e w"
  shows "\<exists>w'. line_byte e b w = Inr w'"
proof -
  let ?w = "w\<lparr>line_buf := (line_buf w)[line_len w := 0]\<rparr>"
  have "world_inv e ?w" "line_len ?w \<le> length (line_buf ?w)"
    using assms(2) by (simp_all add: world_inv_def)
  from send_returns [OF assms(1) this(2,1)] obtain ok w1 where
    "send_lora_packet e MESH_BROADCAST_ID (line_buf ?w) (line_len ?w) ?w = Inr (ok, w1)" by blast
  then show ?thesis
    by (auto simp: line_byte_def handle_line_def Let_def)
qed

text \<open>The bytes of the ring, one after the other.\<close>

definition drop_byte :: "world \<Rightarrow> world" where
  "drop_byte w = (case serial_next (serial_st w) of None \<Rightarrow> w | Some (b, st') \<Rightarrow> w\<lparr>serial_st := st'\<rparr>)"

primrec line_bytes :: "hal_env \<Rightarrow> u8 list \<Rightarrow> world \<Rightarrow> world run" where
  "line_bytes e [] w = Inr w"
| "line_bytes e (b # bs) w = run_bind (line_byte e b (drop_byte w)) (line_bytes e bs)"

lemma line_loop_bytes:
  "serial_inv (serial_st w) \<Longrightarrow> ring_contents (serial_st w) = bs \<Longrightarrow> line_loop e w = Some (line_bytes e bs w)"
proof (induction bs arbitrary: w)
  case Nil
  then show ?case
    by (subst line_loop.simps) (simp add: rx_queue.get_empty)
next
  case (Cons b bs)
  obtain st' where st': "serial_next (serial_st w) = Some (b, st')" "serial_inv st'" "ring_contents st' = bs"
    using rx_queue.get_front [OF Cons.prems] by blast
  show ?case
  proof (cases "line_byte e b (w\<lparr>serial_st := st'\<rparr>)")
    case (Inl f)
    then show ?thesis
      by (subst line_loop.simps) (simp add: st'(1) drop_byte_def)
  next
    case (Inr w')
    then have "serial_st w' = st'" using line_byte_keeps(1) by fastforce
    then have "line_loop e w' = Some (line_bytes e bs w')"
      using Cons.IH [of w'] st' by simp
    then show ?thesis
      by (subst line_loop.simps) (simp add: st'(1) drop_byte_def Inr)
  qed
qed

lemma drop_byte_inv:
  assumes "world_inv e w" and "ring_contents (serial_st w) = b # bs"
  shows "world_inv e (drop_byte w)" and "ring_contents (serial_st (drop_byte w)) = bs"
proof -
  have "serial_inv (serial_st w)" using assms(1) by (simp add: world_inv_def)
  from rx_queue.get_front [OF this assms(2)] show "world_inv e (drop_byte w)"
    "ring_contents (serial_st (drop_byte w)) = bs"
    using assms(1) by (auto simp: drop_byte_def world_inv_def)
qed

lemma line_bytes_keeps:
  "line_bytes e bs w = Inr w' \<Longrightarrow> world_inv e w \<Longrightarrow> ring_contents (serial_st w) = bs \<Longrightarrow>
     world_inv e w' \<and> ring_contents (serial_st w') = []"
proof (induction bs arbitrary: w)
  case (Cons b bs)
  then obtain w1 where w1: "line_byte e b (drop_byte w) = Inr w1" "line_bytes e bs w1 = Inr w'"
    by (auto simp: run_bind_eq_Inr)
  with Cons show ?case
    using drop_byte_inv [OF Cons.prems(2,3)] line_byte_keeps [OF w1(1)] by simp
qed simp

lemma line_bytes_returns:
  assumes "clock_runs e t k"
  shows "world_inv e w \<Longrightarrow> ring_contents (serial_st w) = bs \<Longrightarrow> \<exists>w'. line_bytes e bs w = Inr w'"
proof (induction bs arbitrary: w)
  case (Cons b bs)
  note d = drop_byte_inv [OF Cons.prems]
  obtain w1 where w1: "line_byte e b (drop_byte w) = Inr w1"
    using line_byte_returns [OF assms d(1)] by blast
  with Cons.IH [of w1] d line_byte_keeps [OF w1] show ?case by simp
qed simp

lemma uart_rx_line_poll_bytes:
  assumes "world_inv e w"
  shows "uart_rx_line_poll e w = line_bytes e (ring_contents (serial_st w)) w"
  using line_loop_bytes [of w _ e] assms by (simp add: uart_rx_line_poll_def world_inv_def)

text \<open>
  Polling the terminal always returns: while the clock runs, \<open>uart_rx_line_poll\<close> processes the
  bytes of the receive ring one by one in their order, leaves the ring empty, and keeps the
  invariant; in particular the line length never passes 199, so the terminating zero stays inside
  \<open>line_buf\<close>.
\<close>

lemma uart_rx_line_poll_returns:
  assumes "clock_runs e t k" and "world_inv e w"
  shows "\<exists>w'. uart_rx_line_poll e w = Inr w' \<and> line_bytes e (ring_contents (serial_st w)) w = Inr w' \<and>
    ring_contents (serial_st w') = [] \<and> world_inv e w' \<and> line_len w' \<le> 199"
proof -
  obtain w' where w': "line_bytes e (ring_contents (serial_st w)) w = Inr w'"
    using line_bytes_returns [OF assms refl] by blast
  from line_bytes_keeps [OF this assms(2) refl] w' show ?thesis
    by (simp add: uart_rx_line_poll_bytes [OF assms(2)] world_inv_def)
qed

lemma demo_tx_clock: "clock_runs demo_tx_env length 4000"
  by (simp add: clock_runs_def)

lemma send_shown:
  assumes "send_lora_packet e to text n w = Inr (ok, w')" and "n \<le> length text" and "world_inv e w"
  shows "shown w' = shown w"
proof (cases "n \<le> 127")
  case True
  from assms(1) True assms(2,3) show ?thesis
    by (rule send_result) auto
next
  case False
  then show ?thesis using assms(1) by (simp add: send_too_long)
qed

lemma drop_byte_fields [simp]:
  "g_config (drop_byte w) = g_config w" "hist (drop_byte w) = hist w" "aes_st (drop_byte w) = aes_st w"
  "next_packet_id (drop_byte w) = next_packet_id w" "line_len (drop_byte w) = line_len w"
  "line_buf (drop_byte w) = line_buf w" "online (drop_byte w) = online w"
  by (auto simp: drop_byte_def serial_next_def serial_get_byte_def split: option.splits prod.splits if_splits)

text \<open>What goes on the air from a line, and from all the bytes of the ring.\<close>

lemma send_air_ok:
  assumes "send_lora_packet e to text n w = Inr (ok, w')" and "n \<le> length text" and "world_inv e w"
  shows "air_ok e (hist w) (hist w')"
proof (cases "n \<le> 127")
  case True
  obtain fs where "frames_sent (hist w') = frames_sent (hist w) @ fs"
    "frames_done e (hist w') = frames_done e (hist w) @ (if ok then fs else [])" "tx_works e \<Longrightarrow> ok"
    using send_done [OF assms(1) True assms(2,3)] by blast
  then show ?thesis by (auto simp: air_ok_def)
qed (use assms(1) in \<open>simp add: send_too_long\<close>)

lemma handle_line_air_ok:
  assumes "handle_line e w = Inr w'" and "world_inv e w"
  shows "air_ok e (hist w) (hist w')"
proof -
  have "line_len w \<le> length (line_buf w)" using assms(2) by (simp add: world_inv_def)
  note send_air_ok [OF _ this assms(2)]
  then show ?thesis using assms(1)
    by (auto simp: handle_line_def info_line_def Let_def run_bind_eq_Inr air_ok_def split: if_splits)
qed

lemma line_byte_air_ok:
  assumes "line_byte e b w = Inr w'" and "world_inv e w"
  shows "air_ok e (hist w) (hist w')"
proof -
  have "world_inv e (w\<lparr>line_buf := (line_buf w)[line_len w := 0]\<rparr>)" using assms(2) by (simp add: world_inv_def)
  from handle_line_air_ok [OF _ this] assms(1) show ?thesis
    by (auto simp: line_byte_def split: if_splits)
qed

lemma line_bytes_air_ok:
  "line_bytes e bs w = Inr w' \<Longrightarrow> world_inv e w \<Longrightarrow> ring_contents (serial_st w) = bs \<Longrightarrow> air_ok e (hist w) (hist w')"
proof (induction bs arbitrary: w)
  case (Cons b bs)
  then obtain w1 where w1: "line_byte e b (drop_byte w) = Inr w1" "line_bytes e bs w1 = Inr w'"
    by (auto simp: run_bind_eq_Inr)
  note d = drop_byte_inv [OF Cons.prems(2,3)]
  have "air_ok e (hist w) (hist w1)" using line_byte_air_ok [OF w1(1) d(1)] by simp
  also have "air_ok e (hist w1) (hist w')"
    using Cons.IH [OF w1(2)] line_byte_keeps [OF w1(1)] d by simp
  finally show ?case .
qed simp

text \<open>Ordinary characters accumulate in the line.\<close>

lemma line_bytes_text:
  assumes "world_inv e w" and "ring_contents (serial_st w) = bs @ rest" and "0x0D \<notin> set bs" and "0x0A \<notin> set bs"
    and "line_len w + length bs \<le> 199"
  obtains w1 where "line_bytes e (bs @ rest) w = line_bytes e rest w1" "world_inv e w1"
    "ring_contents (serial_st w1) = rest" "line_text w1 = line_text w @ bs"
    "line_len w1 = line_len w + length bs" "g_config w1 = g_config w" "hist w1 = hist w"
    "aes_st w1 = aes_st w" "next_packet_id w1 = next_packet_id w" "online w1 = online w"
  using assms
proof (induction bs arbitrary: w thesis)
  case Nil
  then show ?case by (simp add: line_text_def)
next
  case (Cons b bs)
  let ?d = "drop_byte w"
  let ?w = "?d\<lparr>line_buf := (line_buf ?d)[line_len ?d := b], line_len := line_len ?d + 1\<rparr>"
  have ring: "ring_contents (serial_st w) = b # (bs @ rest)" using Cons.prems(3) by simp
  note d = drop_byte_inv [OF Cons.prems(2) ring]
  have inv: "world_inv e ?w" using d(1) Cons.prems(6) by (simp add: world_inv_def)
  have step: "line_byte e b ?d = Inr ?w" using Cons.prems by (simp add: line_byte_def)
  have "length (line_buf w) = 200" using Cons.prems(2) by (simp add: world_inv_def)
  then have lt: "line_text ?w = line_text w @ [b]"
    using Cons.prems(6) by (simp add: line_text_def take_Suc_conv_app_nth)
  have le: "line_len ?w + length bs \<le> 199" using Cons.prems(6) by simp
  have "ring_contents (serial_st ?w) = bs @ rest" using d(2) by simp
  then obtain w1 where "line_bytes e (bs @ rest) ?w = line_bytes e rest w1" "world_inv e w1"
    "ring_contents (serial_st w1) = rest" "line_text w1 = line_text ?w @ bs"
    "line_len w1 = line_len ?w + length bs" "g_config w1 = g_config ?w" "hist w1 = hist ?w"
    "aes_st w1 = aes_st ?w" "next_packet_id w1 = next_packet_id ?w" "online w1 = online ?w"
    using Cons.IH [OF _ inv _ _ _ le] Cons.prems(4,5) by auto
  then show ?case
    using Cons.prems(1) [of w1] step lt by simp
qed

lemma typed_line_sent:
  assumes "world_inv e w" and "ring_contents (serial_st w) = text @ [0x0D]" and "line_len w = 0"
    and "text \<noteq> []" and "0x0D \<notin> set text" and "0x0A \<notin> set text" and "length text \<le> 127"
    and "\<not> is_command text" and "cryp_ok e" and "tx_works e"
  shows "\<exists>w'. uart_rx_line_poll e w = Inr w' \<and>
    frames_sent (hist w') = frames_sent (hist w) @
      [text_frame e (hw_key (aes_st w)) (own_header MESH_BROADCAST_ID w) text] \<and>
    next_packet_id w' = next_packet_id w + 1 \<and> line_len w' = 0 \<and>
    (online w \<longrightarrow> shown w' = shown w @ bytes_of ''Sent.'' @ crlf)"
proof -
  have "line_len w + length text \<le> 199" using assms(3,7) by simp
  then obtain w1 where w1: "line_bytes e (text @ [0x0D]) w = line_bytes e [0x0D] w1" "world_inv e w1"
    "ring_contents (serial_st w1) = [0x0D]" "line_text w1 = text" "line_len w1 = length text"
    "g_config w1 = g_config w" "hist w1 = hist w" "aes_st w1 = aes_st w"
    "next_packet_id w1 = next_packet_id w" "online w1 = online w"
    using line_bytes_text [OF assms(1,2,5,6)] assms(3) by (auto simp: line_text_def)
  let ?d = "drop_byte w1"
  let ?w = "?d\<lparr>line_buf := (line_buf ?d)[line_len ?d := 0]\<rparr>"
  have inv: "world_inv e ?w"
    using drop_byte_inv(1) [OF w1(2,3)] by (simp add: world_inv_def)
  have lt: "line_text ?w = text"
    using w1(4) by (simp add: line_text_def)
  have len: "line_len ?w = length text" "line_len ?w \<le> 127" "line_len ?w \<le> length (line_buf ?w)"
    using w1(5) assms(7) inv by (simp_all add: world_inv_def)
  obtain w2 where w2: "send_lora_packet e MESH_BROADCAST_ID (line_buf ?w) (line_len ?w) ?w = Inr (True, w2)"
    using send_works [OF assms(10) len(2,3) inv] by blast
  have hdr: "own_header MESH_BROADCAST_ID ?w = own_header MESH_BROADCAST_ID w"
    using w1 by (simp add: own_header_def)
  have sent: "frames_sent (hist w2) = frames_sent (hist w) @
      [text_frame e (hw_key (aes_st w)) (own_header MESH_BROADCAST_ID w) text]"
    "next_packet_id w2 = next_packet_id w + 1"
    using send_correct [OF w2 len(2,3) inv assms(9)] w1 lt hdr by (simp_all add: line_text_def)
  have shown: "shown w2 = shown w"
    using send_shown [OF w2 len(3) inv] w1(7) by simp
  have "\<not> is_command (line_text ?w)" using lt assms(8) by simp
  from handle_line_text [OF this len(3)] w2
  have "handle_line e ?w = Inr ((put_str (bytes_of ''Sent.'' @ crlf) w2)\<lparr>line_len := 0\<rparr>)" by simp
  then have "line_byte e 0x0D ?d = Inr ((put_str (bytes_of ''Sent.'' @ crlf) w2)\<lparr>line_len := 0\<rparr>)"
    using len(1) assms(4) by (simp add: line_byte_def)
  moreover have "online w2 = online w"
    using send_keeps(1) [OF w2] w1(10) by simp
  ultimately show ?thesis
    using w1(1) assms(2) sent shown by (simp add: uart_rx_line_poll_bytes [OF assms(1)])
qed


text \<open>
  Typing a text of 1 to 127 characters and a carriage return sends it: from an empty line and
  with a working transmitter, one poll of the terminal puts exactly one frame on the air, the
  encrypted broadcast of the text, and prints \<open>Sent.\<close>
\<close>

lemma typed_line_is_sent:
  assumes "world_inv e w" and "ring_contents (serial_st w) = text @ [0x0D]" and "line_len w = 0"
    and "text \<noteq> []" and "0x0D \<notin> set text" and "0x0A \<notin> set text" and "length text \<le> 127"
    and "\<not> is_command text" and "cryp_ok e" and "tx_works e"
  shows "\<exists>w'. uart_rx_line_poll e w = Inr w' \<and>
    frames_sent (hist w') = frames_sent (hist w) @
      [text_frame e (hw_key (aes_st w)) (own_header MESH_BROADCAST_ID w) text] \<and>
    next_packet_id w' = next_packet_id w + 1 \<and> line_len w' = 0 \<and>
    (online w \<longrightarrow> shown w' = shown w @ bytes_of ''Sent.'' @ crlf)"
  by (rule typed_line_sent [OF assms])

end
