(* ===== verification/Packet_Facts.thy ===== *)
theory Packet_Facts
  imports Main_Facts
begin

text \<open>
  The operations on a received packet: its printing and answering, its relaying, and which transmissions
  they start and complete.
\<close>

section \<open>Relaying\<close>

definition relay_id :: "world \<Rightarrow> u8" where
  "relay_id w = ucast (node_id (g_config w) AND 0xFF)"

definition relay_frame :: "u8 \<Rightarrow> u8 list \<Rightarrow> u8 list" where
  "relay_frame n8 frame = header_bytes (forward_header (header_of frame) n8) @ drop 16 frame"

lemma forward_run:
  assumes "16 < n" and "n \<le> 255" and "world_inv e w"
  shows "forward_packet e n w =
    run_bind (stm32wl_radio_tx e (Some (relay_frame (relay_id w) (lora_rx_buf w))) n (drv w, hist w))
      (\<lambda>(_, r). Inr (w\<lparr>lora_rx_buf := relay_frame (relay_id w) (lora_rx_buf w), drv := fst r, hist := snd r\<rparr>))"
  using assms by (simp add: forward_packet_def flood_prepare_forward_eq relay_frame_def relay_id_def Let_def
      world_inv_def split_def)

lemma length_relay_frame: "16 \<le> length f \<Longrightarrow> length (relay_frame n f) = length f"
  by (simp add: relay_frame_def)

lemma take_relay_frame: "16 \<le> n \<Longrightarrow> n \<le> length f \<Longrightarrow> take n (relay_frame k f) = relay_frame k (take n f)"
proof -
  assume n: "16 \<le> n" "n \<le> length f"
  then have "header_of (take n f) = header_of f"
    by (intro header_of_take) (simp_all add: min_def)
  then show ?thesis
    using n by (simp add: relay_frame_def drop_take)
qed

lemma forward_result:
  assumes "forward_packet e n w = Inr w'" and "16 < n" and "n \<le> 255" and "world_inv e w"
  obtains ok h' where "stm32wl_radio_tx e (Some (relay_frame (relay_id w) (lora_rx_buf w))) n (drv w, hist w) =
      Inr (ok, (drv w, h'))"
    "w' = w\<lparr>lora_rx_buf := relay_frame (relay_id w) (lora_rx_buf w), hist := h'\<rparr>"
    "uart_out h' = uart_out (hist w)" "world_inv e w'"
    "ok \<longrightarrow> frames_sent h' = frames_sent (hist w) @ [relay_frame (relay_id w) (take n (lora_rx_buf w))]"
proof -
  from assms(1) obtain ok d' h' where
    tx: "stm32wl_radio_tx e (Some (relay_frame (relay_id w) (lora_rx_buf w))) n (drv w, hist w) = Inr (ok, (d', h'))"
    and w': "w' = w\<lparr>lora_rx_buf := relay_frame (relay_id w) (lora_rx_buf w), drv := d', hist := h'\<rparr>"
    unfolding forward_run [OF assms(2-4)] by (auto simp: run_bind_eq_Inr)
  have l: "length (lora_rx_buf w) = 256" using assms(4) by (simp add: world_inv_def)
  have d': "d' = drv w" "uart_out h' = uart_out (hist w)" using tx_uart [OF tx] by simp_all
  have w2: "w' = w\<lparr>lora_rx_buf := relay_frame (relay_id w) (lora_rx_buf w), hist := h'\<rparr>"
    by (simp add: w' d'(1))
  have len: "n \<le> length (relay_frame (relay_id w) (lora_rx_buf w))"
    using l assms(3) by (simp add: length_relay_frame)
  have inv: "world_inv e w'"
    using assms(4) l by (simp add: w2 world_inv_def length_relay_frame radio_inv_def)
  have "frames_sent h' = frames_sent (hist w) @ [relay_frame (relay_id w) (take n (lora_rx_buf w))]" if ok
    using tx_frames [OF tx assms(3) len] that assms(2,3) l by (simp add: take_relay_frame)
  with tx d' w2 inv that show ?thesis by blast
qed


section \<open>Receiving a text\<close>

definition rx_report :: "u8 list \<Rightarrow> radio_drv \<Rightarrow> u8 list" where
  "rx_report text d = bytes_of ''RX: '' @ text @ bytes_of ''  RSSI: '' @ int16_bytes (last_rssi d) @
     bytes_of '' dBm  SNR: '' @ int16_bytes (scast (last_snr d)) @ bytes_of '' dB'' @ crlf"

lemma last_signal [simp]:
  "lora_last_rssi (Some (stm32wl_ops e)) r s (d, h) = last_rssi d"
  "lora_last_snr (Some (stm32wl_ops e)) r s (d, h) = last_snr d"
  by (simp_all add: lora_last_rssi_def lora_last_snr_def radio_phy_get_last_rssi_snr_def current_ops_def
      stm32wl_ops_def stm32wl_radio_get_rssi_snr_def)

lemma show_text_fields [simp]:
  "g_config (show_text d n w) = g_config w" "aes_st (show_text d n w) = aes_st w"
  "next_packet_id (show_text d n w) = next_packet_id w" "lora_rx_buf (show_text d n w) = lora_rx_buf w"
  "serial_st (show_text d n w) = serial_st w" "flood_st (show_text d n w) = flood_st w"
  "drv (show_text d n w) = drv w" "phy (show_text d n w) = phy w"
  "world_inv e (show_text d n w) = world_inv e w"
  "frames_sent (hist (show_text d n w)) = frames_sent (hist w)"
  by (simp_all add: show_text_def Let_def)

lemma shown_show_text:
  "world_inv e w \<Longrightarrow> online w \<Longrightarrow> shown (show_text d n w) = shown w @ rx_report (take n d) (drv w)"
  by (simp add: show_text_def Let_def rx_report_def world_inv_def)

text \<open>What a delivered text makes the node send: the reply, except to a reply.\<close>

definition reply_frames :: "hal_env \<Rightarrow> mesh_lora_header \<Rightarrow> u8 list \<Rightarrow> world \<Rightarrow> u8 list list" where
  "reply_frames e h text w =
     (if text = bytes_of ''pong'' then []
      else [text_frame e (hw_key (aes_st w)) (own_header (from_id h) w) (bytes_of ''pong'')])"

lemma deliver_result:
  assumes "tx_works e" and "cryp_ok e" and "world_inv e w"
  obtains w' where "deliver_text e h text (length text) w = Inr w'" "world_inv e w'"
    "frames_sent (hist w') = frames_sent (hist w) @ reply_frames e h text w"
    "online w \<Longrightarrow> shown w' = shown w @ rx_report text (drv w)"
    "g_config w' = g_config w" "lora_rx_buf w' = lora_rx_buf w"
proof (cases "text = bytes_of ''pong''")
  case True
  then have "deliver_text e h text (length text) w = Inr (show_text text (length text) w)"
    by (simp add: deliver_text_def Let_def bytes_of_def)
  then show ?thesis
    using True assms(3) by (intro that [of "show_text text (length text) w"])
      (simp_all add: reply_frames_def shown_show_text)
next
  case False
  let ?w = "show_text text (length text) w"
  have inv: "world_inv e ?w" using assms(3) by simp
  have n: "4 \<le> (127 :: nat)" "4 \<le> length (bytes_of ''pong'' @ [0])" by simp_all
  obtain w' where s: "send_lora_packet e (from_id h) (bytes_of ''pong'' @ [0]) 4 ?w = Inr (True, w')"
    using send_works [OF assms(1) n inv] by blast
  have run: "deliver_text e h text (length text) w = Inr w'"
    using False s by (auto simp: deliver_text_def Let_def)
  have hdr: "own_header (from_id h) ?w = own_header (from_id h) w"
    by (simp add: own_header_def)
  have "frames_sent (hist w') = frames_sent (hist w) @ reply_frames e h text w" "world_inv e w'"
    using send_correct [OF s n inv assms(2)] hdr False by (simp_all add: reply_frames_def bytes_of_def)
  with run show ?thesis
    using send_keeps [OF s] send_shown [OF s n(2) inv]
      shown_show_text [OF assms(3)]
    by (intro that [of w']) simp_all
qed

lemma aes_frames:
  assumes "cryp_ok e" and "len \<le> 65520"
  obtains st' h' where "aes_ctr_crypt e p len pid frm st h = Inr (ctr_spec e (hw_key st) pid frm len p, st', h')"
    "hw_key st' = hw_key st" "frames_sent h' = frames_sent h" "uart_out h' = uart_out h"
proof -
  obtain st' h' where a: "aes_ctr_crypt e p len pid frm st h = Inr (ctr_spec e (hw_key st) pid frm len p, st', h')"
    "hw_key st' = hw_key st"
    using aes_ctr_crypt_ok [OF assms] by blast
  have "(frames_sent h', uart_out h') = (frames_sent h, uart_out h)"
    by (rule aes_ctr_crypt_calls [OF a(1) assms(2), of "\<lambda>h. (frames_sent h, uart_out h)"])
      (simp_all add: frames_sent_issue)
  with a that show ?thesis by simp
qed

lemma receive_text:
  assumes "cryp_ok e" and "world_inv e w" and "text \<noteq> []" and "length text \<le> 127"
    and frame: "take (20 + length text) (lora_rx_buf w) = text_frame e (hw_key (aes_st w)) h text"
  obtains aes' h' where
    "receive_packet e h (20 + length text) w = deliver_text e h text (length text) (w\<lparr>aes_st := aes', hist := h'\<rparr>)"
    "hw_key aes' = hw_key (aes_st w)" "frames_sent h' = frames_sent (hist w)" "uart_out h' = uart_out (hist w)"
proof -
  let ?n = "4 + length text"
  let ?m = "pb_message PORTNUM_TEXT_MESSAGE text"
  let ?c = "ctr_spec e (hw_key (aes_st w)) (packet_id h) (from_id h) ?n ?m"
  have "take ?n (drop 16 (lora_rx_buf w)) = drop 16 (take (20 + length text) (lora_rx_buf w))"
    by (simp add: drop_take)
  then have c: "take ?n (drop 16 (lora_rx_buf w)) = ?c"
    by (simp add: frame text_frame_def)
  have "?n \<le> 65520" using assms(4) by simp
  from aes_frames [OF assms(1) this, of ?c "packet_id h" "from_id h" "aes_st w" "hist w"] obtain aes' h' where
    a: "aes_ctr_crypt e ?c ?n (packet_id h) (from_id h) (aes_st w) (hist w) = Inr (?m, aes', h')"
    "hw_key aes' = hw_key (aes_st w)" "frames_sent h' = frames_sent (hist w)" "uart_out h' = uart_out (hist w)"
    by auto
  have dec: "pb_decode_data ?m ?n =
      Inr (True, \<lparr>pb_portnum = PORTNUM_TEXT_MESSAGE, pb_payload = Some 4, pb_payload_len = length text\<rparr>)"
    using pb_decode_message [OF assms(4), of PORTNUM_TEXT_MESSAGE "[]"] by (simp add: PORTNUM_TEXT_MESSAGE_def)
  have "receive_packet e h (20 + length text) w =
      deliver_text e h text (length text) (w\<lparr>aes_st := aes', hist := h'\<rparr>)"
    using assms(3) by (simp add: receive_packet_def c a(1) dec Let_def) (simp add: pb_message_def)
  with a(2-) that show ?thesis by blast
qed

lemma show_text_done [simp]: "frames_done e (hist (show_text d n w)) = frames_done e (hist w)"
  by (simp add: show_text_def Let_def)


section \<open>What a packet puts on the air\<close>

lemma flood_seen_world_inv [simp]:
  "world_inv e w \<Longrightarrow> world_inv e (w\<lparr>flood_st := flood_seen a b (flood_st w)\<rparr>)"
  by (simp add: world_inv_def flood_inv_seen)

lemma receive_inv:
  assumes "receive_packet e h n w = Inr w'" and "world_inv e w"
  shows "world_inv e w'"
proof -
  have s: "world_inv e w'" if "send_lora_packet e to (bytes_of ''pong'' @ [0]) 4 v = Inr (ok, w')" "world_inv e v" for to ok v
    by (rule send_inv [OF that(1) _ that(2)]) simp
  have d: "world_inv e w'" if "deliver_text e h x k v = Inr w'" "world_inv e v" for x k v
    using that by (auto simp: deliver_text_def Let_def run_bind_eq_Inr intro: s split: if_splits)
  have "world_inv e (w\<lparr>aes_st := a, hist := g\<rparr>)" for a g using assms(2) by (simp add: world_inv_def radio_inv_def)
  with assms(1) show ?thesis
    by (auto simp: receive_packet_def Let_def run_bind_eq_Inr intro: d split: prod.splits if_splits)
qed

lemma deliver_air_ok:
  assumes "deliver_text e h text n w = Inr w'" and "world_inv e w"
  shows "air_ok e (hist w) (hist w')"
proof -
  have "air_ok e (hist w) (hist w')" if "send_lora_packet e to (bytes_of ''pong'' @ [0]) 4 (show_text text n w) = Inr (ok, w')" for to ok
    using send_air_ok [OF that] assms(2) by (simp add: air_ok_def)
  then show ?thesis
    using assms by (auto simp: deliver_text_def Let_def run_bind_eq_Inr air_ok_def split: if_splits)
qed

lemma receive_air_ok:
  assumes "receive_packet e h n w = Inr w'" and "world_inv e w" and "n \<le> 255"
  shows "air_ok e (hist w) (hist w')"
proof -
  let ?k = "n - 16" and ?p = "take (n - 16) (drop 16 (lora_rx_buf w))"
  have k: "?k \<le> 65520" using assms(3) by simp
  obtain p aes' h' where a: "aes_ctr_crypt e ?p ?k (packet_id h) (from_id h) (aes_st w) (hist w) = Inr (p, aes', h')"
    and f: "(frames_sent h', frames_done e h') = (frames_sent (hist w), frames_done e (hist w))"
    using aes_ctr_crypt_returns [OF k, of "\<lambda>h. (frames_sent h, frames_done e h)" e ?p "packet_id h" "from_id h" "aes_st w" "hist w"]
    by (auto simp: frames_sent_issue frames_done_issue)
  let ?w = "w\<lparr>aes_st := aes', hist := h'\<rparr>"
  have inv: "world_inv e ?w" using assms(2) by (simp add: world_inv_def radio_inv_def)
  have "air_ok e (hist w) (hist ?w)" using f by (simp add: air_ok_def)
  also have "air_ok e (hist ?w) (hist w')"
    using assms(1) a deliver_air_ok [OF _ inv]
    by (auto simp: receive_packet_def Let_def run_bind_eq_Inr split: prod.splits if_splits)
  finally show ?thesis .
qed

lemma forward_air_ok:
  assumes "forward_packet e n w = Inr w'" and "16 < n" and "n \<le> 255" and "world_inv e w"
  shows "air_ok e (hist w) (hist w')"
proof -
  have "n \<le> length (relay_frame (relay_id w) (lora_rx_buf w))"
    using assms(3,4) by (simp add: world_inv_def length_relay_frame)
  note tx_air_ok [OF _ assms(3) this]
  then show ?thesis using assms(1) unfolding forward_run [OF assms(2-4)] by (auto simp: run_bind_eq_Inr)
qed

lemma handle_packet_air_ok:
  assumes "handle_packet e n w = Inr w'" and "world_inv e w" and "n \<le> 255"
  shows "air_ok e (hist w) (hist w')"
proof (cases "n \<le> 16")
  case False
  let ?h = "header_of (lora_rx_buf w)"
  let ?w1 = "w\<lparr>flood_st := flood_seen (from_id ?h) (packet_id ?h) (flood_st w)\<rparr>"
  have inv1: "world_inv e ?w1" by (rule flood_seen_world_inv [OF assms(2)])
  from False assms(1) obtain w2 where
    r: "(if to_id ?h = MESH_BROADCAST_ID \<or> to_id ?h = node_id (g_config w) then receive_packet e ?h n ?w1 else Inr ?w1) = Inr w2"
    and f: "(if flood_should_forward (flood_st w) (Some (lora_rx_buf w)) n then forward_packet e n w2 else Inr w2) = Inr w'"
    by (auto simp: handle_packet_def Let_def run_bind_eq_Inr)
  have inv2: "world_inv e w2" using r inv1 by (auto dest: receive_inv split: if_splits)
  have "air_ok e (hist w) (hist w2)"
    using r receive_air_ok [OF _ inv1 assms(3), of ?h w2] by (auto split: if_splits)
  also have "air_ok e (hist w2) (hist w')"
    using f forward_air_ok [OF _ _ assms(3) inv2, of w'] False by (auto split: if_splits)
  finally show ?thesis .
qed (use assms(1) in \<open>simp add: handle_packet_def\<close>)

end
