(* ===== verification/Receive_Facts.thy ===== *)
theory Receive_Facts
  imports Packet_Facts
begin

text \<open>
  What the main loop does with a received packet: printing, answering, relaying and remembering it,
  from the radio's buffer to the terminal, and when an iteration does not return.
\<close>

section \<open>One packet\<close>

definition relay_frames :: "mesh_lora_header \<Rightarrow> u8 list \<Rightarrow> world \<Rightarrow> u8 list list" where
  "relay_frames h frame w =
     (if \<not> flood_was_seen (from_id h) (packet_id h) (flood_st w) \<and> 0 < unat (mesh_hop_limit (flags h))
      then [relay_frame (relay_id w) frame] else [])"

lemma forward_works:
  assumes "tx_works e" and "16 < n" and "n \<le> 255" and "world_inv e w"
  obtains w' where "forward_packet e n w = Inr w'" "world_inv e w'" "shown w' = shown w"
    "frames_sent (hist w') = frames_sent (hist w) @ [relay_frame (relay_id w) (take n (lora_rx_buf w))]"
proof -
  have "n \<le> 256" using assms(3) by simp
  from tx_works_runs [OF assms(1) this] obtain h' where tx:
    "stm32wl_radio_tx e (Some (relay_frame (relay_id w) (lora_rx_buf w))) n (drv w, hist w) = Inr (True, (drv w, h'))"
    by blast
  then obtain w' where f: "forward_packet e n w = Inr w'"
    by (simp add: forward_run [OF assms(2-4)])
  from f assms(2-4) show ?thesis
  proof (rule forward_result)
    fix ok h2
    assume 1: "stm32wl_radio_tx e (Some (relay_frame (relay_id w) (lora_rx_buf w))) n (drv w, hist w) = Inr (ok, (drv w, h2))"
      and "w' = w\<lparr>lora_rx_buf := relay_frame (relay_id w) (lora_rx_buf w), hist := h2\<rparr>"
        "uart_out h2 = uart_out (hist w)" "world_inv e w'"
        "ok \<longrightarrow> frames_sent h2 = frames_sent (hist w) @ [relay_frame (relay_id w) (take n (lora_rx_buf w))]"
    with tx f show ?thesis by (intro that [of w']) auto
  qed
qed

lemma finish_packet:
  assumes "tx_works e" and "16 < n" and "n \<le> 255" and "world_inv e w2"
    and "g_config w2 = g_config w" and "take n (lora_rx_buf w2) = frame"
  obtains w' where "(if \<not> flood_was_seen (from_id h) (packet_id h) (flood_st w) \<and> 0 < unat (mesh_hop_limit (flags h))
      then forward_packet e n w2 else Inr w2) = Inr w'" "world_inv e w'" "shown w' = shown w2"
    "frames_sent (hist w') = frames_sent (hist w2) @ relay_frames h frame w"
proof -
  obtain w' where w': "forward_packet e n w2 = Inr w'" "world_inv e w'" "shown w' = shown w2"
    "frames_sent (hist w') = frames_sent (hist w2) @ [relay_frame (relay_id w2) (take n (lora_rx_buf w2))]"
    using forward_works [OF assms(1-4)] by blast
  show ?thesis
  proof (cases "\<not> flood_was_seen (from_id h) (packet_id h) (flood_st w) \<and> 0 < unat (mesh_hop_limit (flags h))")
    case True
    with w' assms(5,6) show ?thesis
      by (intro that [of w']) (simp_all add: relay_frames_def relay_id_def)
  next
    case False
    with assms(4) show ?thesis
      by (intro that [of w2]) (auto simp: relay_frames_def)
  qed
qed

lemma receive_correct:
  assumes "world_inv e w" and "cryp_ok e" and "tx_works e" and "text \<noteq> []" and "length text \<le> 127"
    and "take (20 + length text) (lora_rx_buf w) = text_frame e (hw_key (aes_st w)) h text"
    and "to_id h = MESH_BROADCAST_ID \<or> to_id h = node_id (g_config w)"
  shows "\<exists>w'. handle_packet e (20 + length text) w = Inr w' \<and> world_inv e w' \<and>
    (online w \<longrightarrow> shown w' = shown w @ rx_report text (drv w)) \<and>
    frames_sent (hist w') = frames_sent (hist w) @ reply_frames e h text w @
      relay_frames h (text_frame e (hw_key (aes_st w)) h text) w"
proof -
  let ?n = "20 + length text"
  let ?w1 = "w\<lparr>flood_st := flood_seen (from_id h) (packet_id h) (flood_st w)\<rparr>"
  have len: "length (lora_rx_buf w) = 256" using assms(1) by (simp add: world_inv_def)
  have "take 16 (take ?n (lora_rx_buf w)) = header_bytes h"
    by (simp only: assms(6) text_frame_def) simp
  then have "take 16 (lora_rx_buf w) = take 16 (header_bytes h @ [])" by simp
  then have h: "header_of (lora_rx_buf w) = h"
    using header_of_take [of "lora_rx_buf w" "header_bytes h @ []"] len by (simp del: append_Nil2)
  have inv1: "world_inv e ?w1" by (rule flood_seen_world_inv [OF assms(1)])
  have frame1: "take ?n (lora_rx_buf ?w1) = text_frame e (hw_key (aes_st ?w1)) h text"
    using assms(6) by simp
  obtain aes' h' where
    r: "receive_packet e h ?n ?w1 = deliver_text e h text (length text) (?w1\<lparr>aes_st := aes', hist := h'\<rparr>)"
    "hw_key aes' = hw_key (aes_st w)" "frames_sent h' = frames_sent (hist w)" "uart_out h' = uart_out (hist w)"
    by (rule receive_text [OF assms(2) inv1 assms(4,5) frame1]) (rule that, assumption, simp_all)
  let ?w2 = "?w1\<lparr>aes_st := aes', hist := h'\<rparr>"
  have inv2: "world_inv e ?w2" using inv1 by (simp add: world_inv_def radio_inv_def)
  obtain w3 where w3: "deliver_text e h text (length text) ?w2 = Inr w3" "world_inv e w3"
    "frames_sent (hist w3) = frames_sent (hist ?w2) @ reply_frames e h text ?w2"
    "online ?w2 \<Longrightarrow> shown w3 = shown ?w2 @ rx_report text (drv ?w2)"
    "g_config w3 = g_config ?w2" "lora_rx_buf w3 = lora_rx_buf ?w2"
    using deliver_result [OF assms(3,2) inv2] by blast
  have rep: "reply_frames e h text ?w2 = reply_frames e h text w"
    using r(2) by (simp add: reply_frames_def own_header_def)
  have "16 < ?n" "?n \<le> 255" "g_config w3 = g_config w"
    "take ?n (lora_rx_buf w3) = text_frame e (hw_key (aes_st w)) h text"
    using assms(4,5,6) w3(5,6) by simp_all
  from finish_packet [OF assms(3) this(1,2) w3(2) this(3,4), of h] obtain w' where
    w': "(if \<not> flood_was_seen (from_id h) (packet_id h) (flood_st w) \<and> 0 < unat (mesh_hop_limit (flags h))
      then forward_packet e ?n w3 else Inr w3) = Inr w'" "world_inv e w'" "shown w' = shown w3"
    "frames_sent (hist w') = frames_sent (hist w3) @ relay_frames h (text_frame e (hw_key (aes_st w)) h text) w"
    by blast
  have "handle_packet e ?n w = Inr w'"
    using assms(7) r(1) w3(1) w'(1) by (simp add: handle_packet_def h flood_should_forward_iff Let_def)
  with w' w3 r rep show ?thesis by simp
qed

text \<open>
  C6. A text packet for this node or for all, encrypted with its channel key, is decrypted, decoded
  and printed with its signal values, and answered with \<open>pong\<close> to its sender unless it is a \<open>pong\<close>
  itself; and it is relayed exactly if it was not among the last packets seen and has hops left. The
  printing and the answer do not depend on what was seen: a repeated packet, and an echo of the node's
  own broadcast, is printed and answered again. Answer and relayed frame are not only started but
  completed (\<open>frames_done\<close>): the driver waits for the end of each before it goes on. The AES peripheral
  works and so does the transmitter, which reports the end of a transmission when its time on air, at most
  three seconds, is over (\<open>tx_works\<close>).
\<close>

theorem received_text_is_shown_and_answered:
  assumes "world_inv e w" and "cryp_ok e" and "tx_works e" and "text \<noteq> []" and "length text \<le> 127"
    and "take (20 + length text) (lora_rx_buf w) = text_frame e (hw_key (aes_st w)) h text"
    and "to_id h = MESH_BROADCAST_ID \<or> to_id h = node_id (g_config w)"
  shows "\<exists>w'. handle_packet e (20 + length text) w = Inr w' \<and> world_inv e w' \<and>
    (online w \<longrightarrow> shown w' = shown w @ rx_report text (drv w)) \<and>
    frames_sent (hist w') = frames_sent (hist w) @ reply_frames e h text w @
      relay_frames h (text_frame e (hw_key (aes_st w)) h text) w \<and>
    frames_done e (hist w') = frames_done e (hist w) @ reply_frames e h text w @
      relay_frames h (text_frame e (hw_key (aes_st w)) h text) w"
proof -
  obtain w' where w': "handle_packet e (20 + length text) w = Inr w'" "world_inv e w'"
    "online w \<longrightarrow> shown w' = shown w @ rx_report text (drv w)"
    "frames_sent (hist w') = frames_sent (hist w) @ reply_frames e h text w @
      relay_frames h (text_frame e (hw_key (aes_st w)) h text) w"
    using receive_correct [OF assms] by blast
  have "20 + length text \<le> 255" using assms(5) by simp
  from air_ok_done [OF handle_packet_air_ok [OF w'(1) assms(1) this] assms(3) w'(4)] w' show ?thesis by blast
qed

text \<open>A node that holds a received frame.\<close>

definition demo_rx :: "u8 list \<Rightarrow> world" where
  "demo_rx frame = demo_world\<lparr>lora_rx_buf := frame @ replicate (256 - length frame) 0\<rparr>"

definition demo_header :: mesh_lora_header where
  "demo_header = \<lparr>to_id = MESH_BROADCAST_ID, from_id = 9, packet_id = 5, flags = 3, channel = 0, next_hop = 0, relay = 0\<rparr>"

lemma demo_rx_simps [simp]:
  "length f \<le> 256 \<Longrightarrow> world_inv demo_tx_env (demo_rx f)"
  "aes_st (demo_rx f) = aes_reset" "flood_st (demo_rx f) = flood_reset" "hist (demo_rx f) = []"
  "online (demo_rx f)" "n \<le> length f \<Longrightarrow> take n (lora_rx_buf (demo_rx f)) = take n f"
proof -
  show "world_inv demo_tx_env (demo_rx f)" if "length f \<le> 256"
    using demo_world_inv that by (simp add: demo_rx_def world_inv_def)
qed (simp_all add: demo_rx_def demo_world_def world_reset_def)

theorem received_text_is_shown_and_answered_witness:
  "\<exists>w'. handle_packet demo_tx_env 22
      (demo_rx (text_frame demo_tx_env (hw_key aes_reset) demo_header [0x68, 0x69])) = Inr w' \<and>
    take 6 (shown w') = bytes_of ''RX: hi'' \<and> length (frames_done demo_tx_env (hist w')) = 2"
proof -
  let ?f = "text_frame demo_tx_env (hw_key aes_reset) demo_header [0x68, 0x69]"
  have "world_inv demo_tx_env (demo_rx ?f)" by simp
  moreover have "take (20 + length [0x68, 0x69]) (lora_rx_buf (demo_rx ?f)) =
      text_frame demo_tx_env (hw_key (aes_st (demo_rx ?f))) demo_header [0x68, 0x69]"
    by simp
  ultimately have "\<exists>w'. handle_packet demo_tx_env (20 + length [0x68 :: u8, 0x69]) (demo_rx ?f) = Inr w' \<and>
      world_inv demo_tx_env w' \<and>
      (online (demo_rx ?f) \<longrightarrow> shown w' = shown (demo_rx ?f) @ rx_report [0x68, 0x69] (drv (demo_rx ?f))) \<and>
      frames_done demo_tx_env (hist w') = frames_done demo_tx_env (hist (demo_rx ?f)) @
        reply_frames demo_tx_env demo_header [0x68, 0x69] (demo_rx ?f) @
        relay_frames demo_header ?f (demo_rx ?f)"
    using received_text_is_shown_and_answered [OF _ demo_tx_env_cryp demo_tx_works, of "demo_rx ?f" "[0x68, 0x69]" demo_header]
    by (auto simp: demo_header_def)
  moreover have "\<not> flood_was_seen 9 5 flood_reset"
    by (simp add: flood_was_seen_iff)
  moreover have "mesh_hop_limit 3 = 3"
    by (simp add: mesh_hop_limit_def MESH_HOP_LIMIT_MASK_def)
  ultimately show ?thesis
    by (auto simp: rx_report_def bytes_of_def reply_frames_def relay_frames_def demo_header_def frames_sent_def air_def)
qed

section \<open>From the radio to the handler\<close>

text \<open>
  The radio holds \<open>frame\<close> when the poll that starts after history \<open>h\<close> asks for it: its two status
  bytes are the length and some offset, and the read of that many bytes at that offset succeeds and
  gives \<open>frame\<close>.
\<close>

definition radio_holds :: "hal_env \<Rightarrow> hw \<Rightarrow> u8 list \<Rightarrow> bool" where
  "radio_holds e h frame \<longleftrightarrow>
     (let h1 = issue (NvicDisable SUBGHZ_Radio_IRQn) h;
          c1 = ExecGetCmd RADIO_GET_RXBUFFERSTATUS 2;
          c2 = ReadBuffer (env_byte e h1 c1 1) (length frame)
      in call_ok e c1 h1 \<and> env_byte e h1 c1 0 = of_nat (length frame) \<and>
         call_ok e c2 (issue c1 h1) \<and> call_bytes e c2 (length frame) (issue c1 h1) = frame)"

lemma rx_poll_holds:
  assumes "radio_holds e h frame" and "rx_pending d" and "0 < length frame" and "length frame \<le> 255"
    and "length (rx_buf d) = 256"
  obtains d' h' where "stm32wl_radio_rx_poll e (Some b) 256 (d, h) =
      (length frame, Some (memcpy_at b 0 frame), (d', h'))"
    "frames_sent h' = frames_sent h" "uart_out h' = uart_out h" "length (rx_buf d') = 256"
proof -
  let ?h1 = "issue (NvicDisable SUBGHZ_Radio_IRQn) h"
  let ?c1 = "ExecGetCmd RADIO_GET_RXBUFFERSTATUS 2"
  have u: "unat (of_nat (length frame) :: u8) = length frame"
    using assms(4) by (simp add: unsigned_of_nat take_bit_nat_eq_self)
  have h: "call_ok e ?c1 ?h1" "env_byte e ?h1 ?c1 0 = of_nat (length frame)"
    "call_ok e (ReadBuffer (env_byte e ?h1 ?c1 1) (length frame)) (issue ?c1 ?h1)"
    "call_bytes e (ReadBuffer (env_byte e ?h1 ?c1 1) (length frame)) (length frame) (issue ?c1 ?h1) = frame"
    using assms(1) by (simp_all add: radio_holds_def Let_def)
  have "take (length frame) (memcpy_at (rx_buf d) 0 frame) = frame"
    using assms(4,5) by (simp add: take_memcpy_at_0)
  then obtain d' h' where p: "stm32wl_radio_rx_poll e (Some b) 256 (d, h) = (length frame, Some (memcpy_at b 0 frame), (d', h'))"
    using assms(2,3,4) h
    by (simp add: stm32wl_radio_rx_poll_def Let_def call_bytes_few u)
  show ?thesis
    using p rx_poll_frames [OF p] rx_poll_uart [OF p] rx_poll_inv [OF p assms(5)] that by simp
qed

text \<open>An iteration with no bytes from the terminal and a frame in the radio handles the frame.\<close>

definition loop_hist :: "hal_env \<Rightarrow> world \<Rightarrow> hw" where
  "loop_hist e w = snd (led_tick e (led_st w) (hist w))"

lemma loop_hist_out: "frames_sent (loop_hist e w) = frames_sent (hist w)" "uart_out (loop_hist e w) = uart_out (hist w)"
  by (simp_all add: loop_hist_def led_tick_def Let_def frames_sent_issue)

lemma loop_hist_done: "frames_done e' (loop_hist e w) = frames_done e' (hist w)"
  by (simp add: loop_hist_def led_tick_def Let_def frames_done_issue)

lemma mesh_mini_loop_receives:
  assumes "world_inv e w" and "ring_contents (serial_st w) = []" and "rx_pending (drv w)"
    and "radio_holds e (loop_hist e w) frame" and "0 < length frame" and "length frame \<le> 255"
  obtains w1 where "mesh_mini_loop e w = handle_packet e (length frame) w1" "world_inv e w1"
    "take (length frame) (lora_rx_buf w1) = frame" "aes_st w1 = aes_st w" "g_config w1 = g_config w"
    "flood_st w1 = flood_st w" "next_packet_id w1 = next_packet_id w" "serial_st w1 = serial_st w"
    "shown w1 = shown w" "frames_sent (hist w1) = frames_sent (hist w)" "frames_done e (hist w1) = frames_done e (hist w)"
proof -
  obtain led' where led: "led_tick e (led_st w) (hist w) = (led', loop_hist e w)"
    by (metis loop_hist_def prod.collapse)
  let ?w0 = "w\<lparr>led_st := led', hist := loop_hist e w\<rparr>"
  have inv0: "world_inv e ?w0"
    using assms(1) by (simp add: world_inv_def radio_inv_def)
  have poll: "uart_rx_line_poll e ?w0 = Inr ?w0"
    using uart_rx_line_poll_bytes [OF inv0] assms(2) by simp
  have p: "phy w = Some (stm32wl_ops e)" "length (lora_rx_buf w) = 256" "length (rx_buf (drv w)) = 256"
    using assms(1) by (simp_all add: world_inv_def radio_inv_def)
  obtain d' h' where rx: "stm32wl_radio_rx_poll e (Some (lora_rx_buf w)) 256 (drv w, loop_hist e w) =
      (length frame, Some (memcpy_at (lora_rx_buf w) 0 frame), (d', h'))"
    and h': "frames_sent h' = frames_sent (loop_hist e w)" "uart_out h' = uart_out (loop_hist e w)" "length (rx_buf d') = 256"
    by (rule rx_poll_holds [OF assms(4,3,5,6) p(3)])
  let ?w1 = "?w0\<lparr>lora_rx_buf := memcpy_at (lora_rx_buf w) 0 frame, drv := d', hist := h'\<rparr>"
  have run: "mesh_mini_loop e w = handle_packet e (length frame) ?w1"
    using poll rx p(1) led by (simp add: mesh_mini_loop_def)
  have inv: "world_inv e ?w1"
    using assms(1,6) h' p(2) by (simp add: world_inv_def radio_inv_def)
  have buf: "take (length frame) (lora_rx_buf ?w1) = frame"
    using assms(6) p(2) by (simp add: take_memcpy_at_0)
  show ?thesis
    by (rule that [OF run inv buf]) (simp_all add: h' loop_hist_out rx_poll_done [OF rx] loop_hist_done)
qed

section \<open>The driver state is not touched by a transmission\<close>

lemma send_drv:
  assumes "send_lora_packet e to text n w = Inr (ok, w')" and "phy w = Some (stm32wl_ops e)"
  shows "drv w' = drv w \<and> phy w' = phy w"
  using assms by (auto simp: send_lora_packet_def Let_def run_bind_eq_Inr mesh_header_to_buf_def
      dest: tx_uart split: prod.splits if_splits)

lemma deliver_drv:
  "deliver_text e h d n w = Inr w' \<Longrightarrow> phy w = Some (stm32wl_ops e) \<Longrightarrow> drv w' = drv w \<and> phy w' = phy w"
  by (auto simp: deliver_text_def Let_def run_bind_eq_Inr dest!: send_drv split: if_splits)

lemma receive_drv:
  "receive_packet e h n w = Inr w' \<Longrightarrow> phy w = Some (stm32wl_ops e) \<Longrightarrow> drv w' = drv w \<and> phy w' = phy w"
  by (auto simp: receive_packet_def Let_def run_bind_eq_Inr dest!: deliver_drv split: prod.splits if_splits)

lemma forward_drv:
  "forward_packet e n w = Inr w' \<Longrightarrow> phy w = Some (stm32wl_ops e) \<Longrightarrow> drv w' = drv w"
  by (auto simp: forward_packet_def Let_def run_bind_eq_Inr flood_prepare_forward_def dest!: tx_uart split: prod.splits if_splits)

lemma handle_packet_drv:
  assumes "handle_packet e n w = Inr w'" and "phy w = Some (stm32wl_ops e)"
  shows "drv w' = drv w"
  using assms by (auto simp: handle_packet_def Let_def run_bind_eq_Inr dest!: receive_drv forward_drv split: if_splits)

text \<open>
  C5. From one terminal to another: a line of at most 127 bytes that is typed on node A and is no
  command goes out as a frame, and is on the air to its end; and a node B whose radio holds the frame
  whose transmission A completed last, and which shares the channel key, prints the text with its signal values in the next iteration of its main loop, whatever the
  states of the two nodes are otherwise. AES peripherals and transmitters are taken to work (\<open>cryp_ok\<close>,
  \<open>tx_works\<close>: the end of a transmission is reported when its time on air, at most three seconds, is over).
\<close>

theorem typed_text_reaches_terminal:
  assumes A: "world_inv eA wA" "ring_contents (serial_st wA) = text @ [0x0D]" "line_len wA = 0"
      "cryp_ok eA" "tx_works eA" "uart_rx_line_poll eA wA = Inr wA'"
    and body: "text \<noteq> []" "0x0D \<notin> set text" "0x0A \<notin> set text" "length text \<le> 127" "\<not> is_command text"
    and B: "world_inv eB wB" "ring_contents (serial_st wB) = []" "rx_pending (drv wB)" "cryp_ok eB" "tx_works eB"
      "online wB"
    and shared: "env_ecb eA = env_ecb eB" "hw_key (aes_st wA) = hw_key (aes_st wB)"
    and radio: "radio_holds eB (loop_hist eB wB) (last (frames_done eA (hist wA')))"
  shows "\<exists>wB'. mesh_mini_loop eB wB = Inr wB' \<and> world_inv eB wB' \<and>
    shown wB' = shown wB @ rx_report text (drv wB')"
proof -
  let ?h = "own_header MESH_BROADCAST_ID wA"
  let ?f = "last (frames_done eA (hist wA'))"
  have "frames_sent (hist wA') = frames_sent (hist wA) @ [text_frame eA (hw_key (aes_st wA)) ?h text]"
    using typed_line_sent [OF A(1-3) body A(4,5)] A(6) by auto
  with line_bytes_air_ok [OF _ A(1) refl] A(5,6)
  have "frames_done eA (hist wA') = frames_done eA (hist wA) @ [text_frame eA (hw_key (aes_st wA)) ?h text]"
    by (intro air_ok_done) (simp_all add: uart_rx_line_poll_bytes [OF A(1)])
  then have f: "?f = text_frame eB (hw_key (aes_st wB)) ?h text"
    by (simp add: text_frame_def shared(2) ctr_spec_cong [OF shared(1)])
  then have len: "length ?f = 20 + length text" by simp
  then have "0 < length ?f" "length ?f \<le> 255" using body(4) by simp_all
  from B(1-3) radio this obtain w1 where
    run: "mesh_mini_loop eB wB = handle_packet eB (length ?f) w1" and w1: "world_inv eB w1"
    "take (length ?f) (lora_rx_buf w1) = ?f" "aes_st w1 = aes_st wB" "serial_st w1 = serial_st wB" "shown w1 = shown wB"
    by (rule mesh_mini_loop_receives)
  have frame: "take (20 + length text) (lora_rx_buf w1) = text_frame eB (hw_key (aes_st w1)) ?h text"
    using w1(2) f by (simp only: w1(3)) simp
  have "to_id ?h = MESH_BROADCAST_ID \<or> to_id ?h = node_id (g_config w1)" by simp
  from receive_correct [OF w1(1) B(4,5) body(1,4) frame this] obtain wB' where
    wB': "handle_packet eB (20 + length text) w1 = Inr wB'" "world_inv eB wB'"
    "online w1 \<longrightarrow> shown wB' = shown w1 @ rx_report text (drv w1)"
    by blast
  have "drv wB' = drv w1"
    using handle_packet_drv [OF wB'(1)] w1(1) by (simp add: world_inv_def)
  with wB' w1 B(6) run len show ?thesis by simp
qed

text \<open>The environment in which the radio holds a given frame.\<close>

definition demo_rx_env :: "u8 list \<Rightarrow> hal_env" where
  "demo_rx_env f = demo_tx_env\<lparr>env_byte := (\<lambda>h c i.
     if c = ExecGetCmd RADIO_GET_RXBUFFERSTATUS 2 \<and> i = 0 then of_nat (length f)
     else if \<exists>off. c = ReadBuffer off (length f) then f ! i
     else env_byte demo_tx_env h c i)\<rparr>"

lemma demo_rx_env_simps [simp]:
  "env_ecb (demo_rx_env f) = env_ecb demo_tx_env" "cryp_ok (demo_rx_env f)" "tx_works (demo_rx_env f)"
  "radio_holds (demo_rx_env f) h f"
proof -
  show "tx_works (demo_rx_env f)"
    by (rule tx_works_cong [OF demo_tx_works]) (auto simp: demo_rx_env_def fun_eq_iff)
qed (simp_all add: demo_rx_env_def cryp_ok_def radio_holds_def Let_def call_ok_def call_bytes_def map_nth)

definition demo_listener :: "u8 list \<Rightarrow> world" where
  "demo_listener f = demo_world\<lparr>phy := Some (stm32wl_ops (demo_rx_env f)), drv := radio_drv_reset\<lparr>rx_pending := True\<rparr>\<rparr>"

lemma demo_listener_simps [simp]:
  "world_inv (demo_rx_env f) (demo_listener f)" "ring_contents (serial_st (demo_listener f)) = []"
  "rx_pending (drv (demo_listener f))" "online (demo_listener f)" "aes_st (demo_listener f) = aes_reset"
  "hist (demo_listener f) = []"
proof -
  show "world_inv (demo_rx_env f) (demo_listener f)"
    using demo_world_inv by (simp add: demo_listener_def world_inv_def radio_inv_def radio_drv_reset_def)
qed (simp_all add: demo_listener_def demo_world_def world_reset_def ring_contents_def ring_count_def serial_reset_def)

lemma demo_world_aes [simp]: "aes_st demo_world = aes_reset"
  by (simp add: demo_world_def world_reset_def)

theorem typed_text_reaches_terminal_witness:
  "\<exists>wA wA' wB'. uart_rx_line_poll demo_tx_env wA = Inr wA' \<and> ring_contents (serial_st wA) = [0x68, 0x69, 0x0D] \<and>
    (let f = last (frames_done demo_tx_env (hist wA')) in
     mesh_mini_loop (demo_rx_env f) (demo_listener f) = Inr wB' \<and> take 6 (shown wB') = bytes_of ''RX: hi'')"
proof -
  let ?q = "serial_st demo_world"
  let ?w = "demo_world\<lparr>serial_st := fold serial_push_byte [0x68, 0x69, 0x0D] ?q\<rparr>"
  have q: "serial_inv ?q" "ring_contents ?q = []"
    using demo_world_inv by (simp_all add: world_inv_def demo_world_def ring_contents_def ring_count_def serial_reset_def)
  have inv: "world_inv demo_tx_env ?w"
    using demo_world_inv rx_queue.inv_puts [OF q(1), of "[0x68, 0x69, 0x0D]"] unfolding world_inv_def by simp
  have ring: "ring_contents (serial_st ?w) = [0x68, 0x69] @ [0x0D]"
    using rx_queue.contents_puts [OF q(1), of "[0x68, 0x69, 0x0D]"] q(2) by simp
  have ll: "line_len ?w = 0" by (simp add: demo_world_def world_reset_def)
  have cmd: "\<not> is_command [0x68, 0x69]" by (simp add: is_command_def bytes_of_def)
  obtain wA' where r: "uart_rx_line_poll demo_tx_env ?w = Inr wA'"
    using typed_line_sent [OF inv ring ll _ _ _ _ cmd demo_tx_env_cryp demo_tx_works] by auto
  let ?f = "last (frames_done demo_tx_env (hist wA'))"
  have "\<exists>wB'. mesh_mini_loop (demo_rx_env ?f) (demo_listener ?f) = Inr wB' \<and> world_inv (demo_rx_env ?f) wB' \<and>
    shown wB' = shown (demo_listener ?f) @ rx_report [0x68, 0x69] (drv wB')"
    by (rule typed_text_reaches_terminal [OF inv ring ll demo_tx_env_cryp demo_tx_works r _ _ _ _ cmd])
      simp_all
  then obtain wB' where "mesh_mini_loop (demo_rx_env ?f) (demo_listener ?f) = Inr wB'"
    "shown wB' = rx_report [0x68, 0x69] (drv wB')"
    by auto
  moreover have "take 6 (rx_report [0x68, 0x69] (drv wB')) = bytes_of ''RX: hi''"
    by (simp add: rx_report_def bytes_of_def)
  ultimately show ?thesis
    using r ring by (intro exI [of _ ?w] exI [of _ wA'] exI [of _ wB']) (simp add: Let_def)
qed


section \<open>What is remembered\<close>

text \<open>Handling a packet adds at most one more entry after the packet's own.\<close>

definition flood_grows :: "world \<Rightarrow> world \<Rightarrow> bool" where
  "flood_grows w w' \<longleftrightarrow> flood_st w' = flood_st w \<or> (\<exists>a b. flood_st w' = flood_seen a b (flood_st w))"

lemma flood_growsI [intro]:
  "flood_grows w w" "flood_st w' = flood_seen a b (flood_st w) \<Longrightarrow> flood_grows w w'"
  by (auto simp: flood_grows_def)

lemma send_flood: "send_lora_packet e to text n w = Inr (ok, w') \<Longrightarrow> flood_grows w w'"
  by (auto simp: send_lora_packet_def Let_def run_bind_eq_Inr intro: flood_growsI split: prod.splits if_splits)

lemma deliver_flood: "deliver_text e h d n w = Inr w' \<Longrightarrow> flood_grows w w'"
  by (auto simp: deliver_text_def Let_def run_bind_eq_Inr flood_grows_def dest!: send_flood split: if_splits)

lemma receive_flood: "receive_packet e h n w = Inr w' \<Longrightarrow> flood_grows w w'"
  by (auto simp: receive_packet_def Let_def run_bind_eq_Inr flood_grows_def dest!: deliver_flood
      split: prod.splits if_splits)

lemma forward_flood: "forward_packet e n w = Inr w' \<Longrightarrow> flood_st w' = flood_st w"
  by (auto simp: forward_packet_def Let_def run_bind_eq_Inr split: prod.splits)

lemma handle_packet_seen:
  assumes "handle_packet e n w = Inr w'" and "16 < n" and "flood_inv (flood_st w)"
  shows "flood_was_seen (from_id (header_of (lora_rx_buf w))) (packet_id (header_of (lora_rx_buf w))) (flood_st w')"
proof -
  let ?h = "header_of (lora_rx_buf w)"
  let ?w1 = "w\<lparr>flood_st := flood_seen (from_id ?h) (packet_id ?h) (flood_st w)\<rparr>"
  obtain w2 where "(if to_id ?h = MESH_BROADCAST_ID \<or> to_id ?h = node_id (g_config ?w1)
      then receive_packet e ?h n ?w1 else Inr ?w1) = Inr w2" "flood_st w' = flood_st w2"
    using assms(1,2) by (auto simp: handle_packet_def Let_def run_bind_eq_Inr forward_flood split: if_splits)
  then have "flood_grows ?w1 w2"
    by (auto simp: flood_grows_def dest!: receive_flood split: if_splits)
  then obtain ks where "length ks < 32" "flood_st w' = fold flood_seen_key ks (flood_st ?w1)"
  proof (cases "flood_st w2 = flood_st ?w1")
    case True
    with \<open>flood_st w' = flood_st w2\<close> show ?thesis by (intro that [of "[]"]) simp_all
  next
    case False
    with \<open>flood_grows ?w1 w2\<close> obtain a b where "flood_st w2 = flood_seen a b (flood_st ?w1)"
      by (auto simp: flood_grows_def)
    with \<open>flood_st w' = flood_st w2\<close> show ?thesis
      by (intro that [of "[(a, b)]"]) (simp_all add: flood_seen_key_def)
  qed
  then show ?thesis
    using seen_ring.remembered [OF assms(3), of ks "(from_id ?h, packet_id ?h)"]
    by (simp add: flood_seen_key_def flood_was_seen_key_def)
qed

lemma foreign_packet_handled:
  assumes "world_inv e w" and "tx_works e" and "16 < n" and "n \<le> 255"
    and "h = header_of (lora_rx_buf w)" and "to_id h \<noteq> MESH_BROADCAST_ID" and "to_id h \<noteq> node_id (g_config w)"
  shows "\<exists>w'. handle_packet e n w = Inr w' \<and> shown w' = shown w \<and>
    frames_sent (hist w') = frames_sent (hist w) @ relay_frames h (take n (lora_rx_buf w)) w \<and>
    (\<forall>buf m. from_id (header_of buf) = from_id h \<and> packet_id (header_of buf) = packet_id h \<longrightarrow>
       \<not> flood_should_forward (flood_st w') (Some buf) m)"
proof -
  let ?w1 = "w\<lparr>flood_st := flood_seen (from_id h) (packet_id h) (flood_st w)\<rparr>"
  have "world_inv e ?w1" by (rule flood_seen_world_inv [OF assms(1)])
  from finish_packet [OF assms(2,3,4) this, of w "take n (lora_rx_buf w)" h] obtain w' where
    w': "(if \<not> flood_was_seen (from_id h) (packet_id h) (flood_st w) \<and> 0 < unat (mesh_hop_limit (flags h))
      then forward_packet e n ?w1 else Inr ?w1) = Inr w'" "shown w' = shown ?w1"
    "frames_sent (hist w') = frames_sent (hist ?w1) @ relay_frames h (take n (lora_rx_buf w)) w"
    by auto
  have run: "handle_packet e n w = Inr w'"
    using assms(3,6,7) w'(1) by (simp add: handle_packet_def flood_should_forward_iff Let_def flip: assms(5))
  have "flood_inv (flood_st w)" using assms(1) by (simp add: world_inv_def)
  from handle_packet_seen [OF run assms(3) this] have "flood_was_seen (from_id h) (packet_id h) (flood_st w')"
    by (simp add: assms(5))
  with run w' show ?thesis
    by (auto simp: flood_should_forward_iff)
qed

text \<open>
  C9. A packet for another node is not decrypted, printed or answered; it is relayed, with one hop
  fewer, our relay byte and its payload untouched, exactly if it was not seen before and has hops
  left, and the transmission is completed (\<open>frames_done\<close>); and after it was handled it is remembered, so that a second copy is not relayed again. The
  transmitter reports the end of a transmission when its time on air, at most three seconds, is over
  (\<open>tx_works\<close>).
\<close>

theorem foreign_packet_is_relayed_once:
  assumes "world_inv e w" and "tx_works e" and "16 < n" and "n \<le> 255"
    and "h = header_of (lora_rx_buf w)" and "to_id h \<noteq> MESH_BROADCAST_ID" and "to_id h \<noteq> node_id (g_config w)"
  shows "\<exists>w'. handle_packet e n w = Inr w' \<and> shown w' = shown w \<and>
    frames_sent (hist w') = frames_sent (hist w) @ relay_frames h (take n (lora_rx_buf w)) w \<and>
    frames_done e (hist w') = frames_done e (hist w) @ relay_frames h (take n (lora_rx_buf w)) w \<and>
    (\<forall>buf m. from_id (header_of buf) = from_id h \<and> packet_id (header_of buf) = packet_id h \<longrightarrow>
       \<not> flood_should_forward (flood_st w') (Some buf) m)"
proof -
  obtain w' where w': "handle_packet e n w = Inr w'"
    "frames_sent (hist w') = frames_sent (hist w) @ relay_frames h (take n (lora_rx_buf w)) w"
    and rest: "shown w' = shown w" "\<forall>buf m. from_id (header_of buf) = from_id h \<and> packet_id (header_of buf) = packet_id h \<longrightarrow>
       \<not> flood_should_forward (flood_st w') (Some buf) m"
    using foreign_packet_handled [OF assms] by blast
  from air_ok_done [OF handle_packet_air_ok [OF w'(1) assms(1,4)] assms(2) w'(2)] w' rest show ?thesis by blast
qed

theorem foreign_packet_is_relayed_once_witness:
  "\<exists>w'. handle_packet demo_tx_env 17 (demo_rx (header_bytes (demo_header\<lparr>to_id := 3\<rparr>) @ [0xAB])) = Inr w' \<and>
    shown w' = [] \<and> map (drop 12) (frames_done demo_tx_env (hist w')) = [[2, 0, 0, 0, 0xAB]]"
proof -
  let ?f = "header_bytes (demo_header\<lparr>to_id := 3\<rparr>) @ [0xAB]"
  let ?w = "demo_rx ?f"
  have h: "header_of (lora_rx_buf ?w) = demo_header\<lparr>to_id := 3\<rparr>"
    by (simp add: demo_rx_def)
  have inv: "world_inv demo_tx_env ?w" by simp
  have nid: "node_id (g_config ?w) = 0"
    by (simp add: demo_rx_def demo_world_def world_reset_def config_zero_def)
  have "to_id (demo_header\<lparr>to_id := 3\<rparr>) \<noteq> MESH_BROADCAST_ID" "to_id (demo_header\<lparr>to_id := 3\<rparr>) \<noteq> node_id (g_config ?w)"
    by (simp_all add: nid MESH_BROADCAST_ID_def)
  from foreign_packet_is_relayed_once [OF inv demo_tx_works _ _ h [symmetric] this, of 17] obtain w' where
    w': "handle_packet demo_tx_env 17 ?w = Inr w'" "shown w' = []"
    "frames_done demo_tx_env (hist w') = relay_frames (demo_header\<lparr>to_id := 3\<rparr>) (take 17 (lora_rx_buf ?w)) ?w"
    by auto
  have "\<not> flood_was_seen 9 5 flood_reset"
    by (simp add: flood_was_seen_iff)
  moreover have "take 17 (lora_rx_buf ?w) = ?f" by simp
  ultimately have sent: "frames_done demo_tx_env (hist w') = [relay_frame 0 ?f]"
    using w'(3) nid
    by (simp add: relay_frames_def demo_header_def relay_id_def mesh_hop_limit_def MESH_HOP_LIMIT_MASK_def)
  let ?g = "forward_header (demo_header\<lparr>to_id := 3\<rparr>) 0"
  have "relay_frame 0 ?f = header_bytes ?g @ [0xAB]"
    by (simp add: relay_frame_def)
  moreover have "drop 12 (header_bytes ?g @ [0xAB]) = [flags ?g, channel ?g, next_hop ?g, relay ?g, 0xAB]"
    by (simp only: header_bytes_def) simp
  moreover have "flags ?g = 2"
    by (simp add: demo_header_def forward_header_def mesh_hop_limit_def MESH_HOP_LIMIT_MASK_def Let_def)
  moreover have "channel ?g = 0" "next_hop ?g = 0" "relay ?g = 0"
    by (simp_all add: forward_header_fields demo_header_def)
  ultimately have "drop 12 (relay_frame 0 ?f) = [2, 0, 0, 0, 0xAB]"
    by (simp only:)
  then have "map (drop 12) (frames_done demo_tx_env (hist w')) = [[2, 0, 0, 0, 0xAB]]"
    by (simp only: sent list.map)
  with w'(1,2) show ?thesis by (intro exI [of _ w'] conjI)
qed


section \<open>The main loop returns\<close>

text \<open>The iteration up to the radio poll: the length of the packet received and the state.\<close>

definition poll_phase :: "hal_env \<Rightarrow> world \<Rightarrow> (nat \<times> world) run" where
  "poll_phase e w =
     (let (led', h1) = led_tick e (led_st w) (hist w) in
      run_bind (uart_rx_line_poll e (w\<lparr>led_st := led', hist := h1\<rparr>))
        (\<lambda>w1. case lora_rx_poll (phy w1) (Some (lora_rx_buf w1)) LORA_BUF_SIZE (drv w1, hist w1) of
           (n, buf, (drv', h2)) \<Rightarrow> Inr (n, w1\<lparr>lora_rx_buf := the buf, drv := drv', hist := h2\<rparr>)))"

lemma mesh_mini_loop_phases:
  "mesh_mini_loop e w = run_bind (poll_phase e w) (\<lambda>(n, w1). handle_packet e n w1)"
  by (auto simp: mesh_mini_loop_def poll_phase_def Let_def run_bind_def split: prod.splits sum.splits)

text \<open>The packet of \<open>n\<close> bytes in the receive buffer is for this node, and its decryption makes the decoder fail.\<close>

definition decode_fault :: "hal_env \<Rightarrow> nat \<Rightarrow> world \<Rightarrow> fault \<Rightarrow> bool" where
  "decode_fault e n w f \<longleftrightarrow>
     (let h = header_of (lora_rx_buf w) in
      16 < n \<and> (to_id h = MESH_BROADCAST_ID \<or> to_id h = node_id (g_config w)) \<and>
      (\<exists>data aes' h'. aes_ctr_crypt e (take (n - 16) (drop 16 (lora_rx_buf w))) (n - 16) (packet_id h) (from_id h)
           (aes_st w) (hist w) = Inr (data, aes', h') \<and> pb_decode_data data (n - 16) = Inl f))"

lemma deliver_returns:
  assumes "clock_runs e t k" and "world_inv e w"
  shows "\<exists>w'. deliver_text e h d n w = Inr w' \<and> world_inv e w'"
proof -
  have inv: "world_inv e (show_text d n w)" using assms(2) by simp
  have n: "4 \<le> length (bytes_of ''pong'' @ [0])" by simp
  obtain ok w' where s: "send_lora_packet e (from_id h) (bytes_of ''pong'' @ [0]) 4 (show_text d n w) = Inr (ok, w')"
    using send_returns [OF assms(1) n inv] by blast
  with send_inv [OF s n inv] inv show ?thesis
    by (auto simp: deliver_text_def Let_def)
qed

lemma receive_returns:
  assumes "clock_runs e t k" and "world_inv e w" and "16 < n" and "n \<le> 255"
  obtains data aes' h' where
    "aes_ctr_crypt e (take (n - 16) (drop 16 (lora_rx_buf w))) (n - 16) (packet_id h) (from_id h)
       (aes_st w) (hist w) = Inr (data, aes', h')"
    "\<And>f. receive_packet e h n w = Inl f \<longleftrightarrow> pb_decode_data data (n - 16) = Inl f"
    "\<And>w'. receive_packet e h n w = Inr w' \<Longrightarrow> world_inv e w'"
proof -
  let ?p = "take (n - 16) (drop 16 (lora_rx_buf w))"
  have "n - 16 \<le> 65520" using assms(4) by simp
  from aes_ctr_crypt_returns [OF this, of "\<lambda>_. ()" e ?p "packet_id h" "from_id h" "aes_st w" "hist w"]
  obtain p aes' h' where a: "aes_ctr_crypt e ?p (n - 16) (packet_id h) (from_id h) (aes_st w) (hist w) = Inr (p, aes', h')"
    by auto
  let ?w = "w\<lparr>aes_st := aes', hist := h'\<rparr>"
  have inv: "world_inv e ?w" using assms(2) by (simp add: world_inv_def radio_inv_def)
  show ?thesis
  proof (cases "pb_decode_data p (n - 16)")
    case (Inl f)
    with a show ?thesis by (intro that [OF a]) (auto simp: receive_packet_def Let_def)
  next
    case (Inr r)
    obtain found out where r: "r = (found, out)" by fastforce
    have "\<exists>w'. receive_packet e h n w = Inr w' \<and> world_inv e w'"
    proof (cases "found \<and> 0 < pb_payload_len out")
      case True
      with deliver_returns [OF assms(1) inv, of h "drop (the (pb_payload out)) p" "pb_payload_len out"] a Inr r
      show ?thesis by (simp add: receive_packet_def Let_def)
    next
      case False
      then have "receive_packet e h n w = Inr ?w" using a Inr r by (auto simp: receive_packet_def Let_def)
      with inv show ?thesis by blast
    qed
    then obtain w' where "receive_packet e h n w = Inr w'" "world_inv e w'" by blast
    with a Inr show ?thesis by (intro that [OF a]) auto
  qed
qed

lemma forward_returns:
  assumes "clock_runs e t k" and "world_inv e w" and "16 < n" and "n \<le> 255"
  shows "\<exists>w'. forward_packet e n w = Inr w' \<and> world_inv e w'"
proof -
  obtain w' where w': "forward_packet e n w = Inr w'"
    using tx_returns [OF assms(1), of "Some (relay_frame (relay_id w) (lora_rx_buf w))" n "(drv w, hist w)"]
    by (auto simp: forward_run [OF assms(3,4,2)])
  from w' assms(3,4,2) show ?thesis
    by (rule forward_result) (use w' in blast)
qed

lemma handle_packet_returns:
  assumes "clock_runs e t k" and "world_inv e w" and "n \<le> 255"
  shows "(handle_packet e n w = Inl f \<longleftrightarrow> decode_fault e n w f) \<and> (handle_packet e n w = Inr w' \<longrightarrow> world_inv e w')"
proof (cases "n \<le> 16")
  case True
  then show ?thesis using assms(2) by (auto simp: handle_packet_def decode_fault_def)
next
  case False
  let ?h = "header_of (lora_rx_buf w)"
  let ?w1 = "w\<lparr>flood_st := flood_seen (from_id ?h) (packet_id ?h) (flood_st w)\<rparr>"
  have inv1: "world_inv e ?w1" by (rule flood_seen_world_inv [OF assms(2)])
  have n: "16 < n" using False by simp
  let ?r = "if to_id ?h = MESH_BROADCAST_ID \<or> to_id ?h = node_id (g_config w) then receive_packet e ?h n ?w1 else Inr ?w1"
  have hp: "handle_packet e n w = run_bind ?r (\<lambda>w2.
      if flood_should_forward (flood_st w) (Some (lora_rx_buf w)) n then forward_packet e n w2 else Inr w2)"
    using n by (simp add: handle_packet_def Let_def)
  obtain data aes' h' where r:
    "aes_ctr_crypt e (take (n - 16) (drop 16 (lora_rx_buf ?w1))) (n - 16) (packet_id ?h) (from_id ?h)
       (aes_st ?w1) (hist ?w1) = Inr (data, aes', h')"
    "\<And>f. receive_packet e ?h n ?w1 = Inl f \<longleftrightarrow> pb_decode_data data (n - 16) = Inl f"
    "\<And>w'. receive_packet e ?h n ?w1 = Inr w' \<Longrightarrow> world_inv e w'"
    using receive_returns [OF assms(1) inv1 n assms(3)] by blast
  have fault_r: "?r = Inl f \<longleftrightarrow> decode_fault e n w f" for f
    using r(1,2) n by (auto simp: decode_fault_def Let_def)
  have inv_r: "world_inv e w2" if "?r = Inr w2" for w2
    using that r(3) inv1 by (auto split: if_splits)
  have fwd: "\<exists>w3. forward_packet e n w2 = Inr w3 \<and> world_inv e w3" if "world_inv e w2" for w2
    by (rule forward_returns [OF assms(1) that n assms(3)])
  show ?thesis
  proof (cases ?r)
    case (Inl g)
    then have "handle_packet e n w = Inl g" by (simp only: hp run_simps)
    with Inl fault_r [of f] show ?thesis by simp
  next
    case (Inr w2)
    then have h2: "handle_packet e n w =
        (if flood_should_forward (flood_st w) (Some (lora_rx_buf w)) n then forward_packet e n w2 else Inr w2)"
      by (simp only: hp run_simps)
    have inv2: "world_inv e w2" by (rule inv_r [OF Inr])
    obtain w3 where "handle_packet e n w = Inr w3" "world_inv e w3"
      using h2 fwd [OF inv2] inv2 by (cases "flood_should_forward (flood_st w) (Some (lora_rx_buf w)) n") auto
    moreover have "\<not> decode_fault e n w f"
      using fault_r [of f] Inr by simp
    ultimately show ?thesis by auto
  qed
qed

lemma mesh_mini_loop_outcome:
  assumes "clock_runs e t k" and "world_inv e w"
  shows "\<exists>n w1. poll_phase e w = Inr (n, w1) \<and> (\<forall>f. mesh_mini_loop e w = Inl f \<longleftrightarrow> decode_fault e n w1 f) \<and>
    (\<forall>w'. mesh_mini_loop e w = Inr w' \<longrightarrow> world_inv e w')"
proof -
  obtain led' h1 where led: "led_tick e (led_st w) (hist w) = (led', h1)" by fastforce
  have inv0: "world_inv e (w\<lparr>led_st := led', hist := h1\<rparr>)"
    using assms(2) by (simp add: world_inv_def radio_inv_def)
  obtain w1 where w1: "uart_rx_line_poll e (w\<lparr>led_st := led', hist := h1\<rparr>) = Inr w1" "world_inv e w1"
    using line_bytes_returns [OF assms(1) inv0 refl] line_bytes_keeps [OF _ inv0 refl]
      uart_rx_line_poll_bytes [OF inv0] by metis
  obtain n buf d2 h2 where rx: "stm32wl_radio_rx_poll e (Some (lora_rx_buf w1)) 256 (drv w1, hist w1) = (n, buf, (d2, h2))"
    by (metis prod_cases4)
  have p: "phy w1 = Some (stm32wl_ops e)" "length (lora_rx_buf w1) = 256" "length (rx_buf (drv w1)) = 256"
    using w1(2) by (simp_all add: world_inv_def radio_inv_def)
  obtain b where b: "buf = Some b" "length b = 256"
    using rx_poll_buffer [OF rx] p by auto
  have n: "n \<le> 255" using rx_poll_bound [OF rx] by simp
  let ?w2 = "w1\<lparr>lora_rx_buf := b, drv := d2, hist := h2\<rparr>"
  have inv2: "world_inv e ?w2"
    using w1(2) b rx_poll_inv [OF rx] p by (simp add: world_inv_def radio_inv_def)
  have poll: "poll_phase e w = Inr (n, ?w2)"
    using led w1(1) rx p(1) b(1) by (simp add: poll_phase_def)
  then have "mesh_mini_loop e w = handle_packet e n ?w2"
    by (simp add: mesh_mini_loop_phases)
  then show ?thesis
    using handle_packet_returns [OF assms(1) inv2 n] by (intro exI [of _ n] exI [of _ ?w2] conjI allI poll) simp_all
qed

text \<open>
  C8. Every iteration of the main loop polls the terminal and the radio, and then either returns in a
  state that satisfies the invariant, whatever arrived on the terminal and the radio and whatever the
  hardware answers, or does not return, and this exactly when the packet it took from the radio is for
  this node and its decryption makes the protobuf decoder hang or shift out of range. The millisecond
  clock is taken to run (\<open>clock_runs\<close>).
\<close>

theorem mesh_mini_loop_returns:
  assumes "clock_runs e t k" and "world_inv e w"
  shows "\<exists>n w1. poll_phase e w = Inr (n, w1) \<and>
    (if \<exists>f. decode_fault e n w1 f
     then \<exists>f. decode_fault e n w1 f \<and> mesh_mini_loop e w = Inl f
     else \<exists>w'. mesh_mini_loop e w = Inr w' \<and> world_inv e w')"
proof -
  obtain n w1 where 1: "poll_phase e w = Inr (n, w1)" "\<forall>f. mesh_mini_loop e w = Inl f \<longleftrightarrow> decode_fault e n w1 f"
    "\<forall>w'. mesh_mini_loop e w = Inr w' \<longrightarrow> world_inv e w'"
    using mesh_mini_loop_outcome [OF assms] by (elim exE conjE)
  have "if \<exists>f. decode_fault e n w1 f
     then \<exists>f. decode_fault e n w1 f \<and> mesh_mini_loop e w = Inl f
     else \<exists>w'. mesh_mini_loop e w = Inr w' \<and> world_inv e w'"
  proof (cases "mesh_mini_loop e w")
    case (Inl f)
    then have "decode_fault e n w1 f" using 1(2) by simp
    with Inl show ?thesis by auto
  next
    case (Inr w')
    then have "\<not> decode_fault e n w1 f" for f using 1(2) by simp
    with Inr 1(3) show ?thesis by simp
  qed
  with 1(1) show ?thesis by blast
qed

lemma poll_phase_idle:
  assumes "world_inv e w" and "ring_contents (serial_st w) = []" and "\<not> rx_pending (drv w)"
  obtains w1 where "poll_phase e w = Inr (0, w1)" "world_inv e w1" "aes_st w1 = aes_st w"
    "frames_sent (hist w1) = frames_sent (hist w)"
proof -
  obtain led' where led: "led_tick e (led_st w) (hist w) = (led', loop_hist e w)"
    by (metis loop_hist_def prod.collapse)
  let ?w0 = "w\<lparr>led_st := led', hist := loop_hist e w\<rparr>"
  let ?w1 = "?w0\<lparr>lora_rx_buf := lora_rx_buf w, drv := drv w, hist := loop_hist e w\<rparr>"
  have inv: "world_inv e ?w0" using assms(1) by (simp add: world_inv_def radio_inv_def)
  from uart_rx_line_poll_bytes [OF this] assms(2) have u: "uart_rx_line_poll e ?w0 = Inr ?w0" by simp
  have p: "phy w = Some (stm32wl_ops e)" using assms(1) by (simp add: world_inv_def)
  have "stm32wl_radio_rx_poll e (Some b) 256 (drv w, h) = (0, Some b, (drv w, h))" for b h
    using assms(3) by (simp add: stm32wl_radio_rx_poll_def)
  with led u p have poll: "poll_phase e w = Inr (0, ?w1)" by (simp add: poll_phase_def)
  show ?thesis
    using inv by (intro that [OF poll]) (simp_all add: world_inv_def loop_hist_out)
qed

theorem mesh_mini_loop_returns_witness:
  "\<exists>w'. mesh_mini_loop demo_tx_env demo_world = Inr w' \<and> world_inv demo_tx_env w'"
proof -
  have "ring_contents (serial_st demo_world) = []" "\<not> rx_pending (drv demo_world)"
    by (simp_all add: demo_world_def world_reset_def radio_drv_reset_def ring_contents_def ring_count_def serial_reset_def)
  then obtain w0 where w0: "poll_phase demo_tx_env demo_world = Inr (0, w0)"
    by (rule poll_phase_idle [OF demo_world_inv])
  from mesh_mini_loop_returns [OF demo_tx_clock demo_world_inv] show ?thesis
  proof (elim exE conjE)
    fix n w1
    assume "poll_phase demo_tx_env demo_world = Inr (n, w1)"
      and 2: "if \<exists>f. decode_fault demo_tx_env n w1 f
        then \<exists>f. decode_fault demo_tx_env n w1 f \<and> mesh_mini_loop demo_tx_env demo_world = Inl f
        else \<exists>w'. mesh_mini_loop demo_tx_env demo_world = Inr w' \<and> world_inv demo_tx_env w'"
    then have "n = 0" using w0 by simp
    then have "\<not> decode_fault demo_tx_env n w1 f" for f by (simp add: decode_fault_def Let_def)
    then have "\<not> (\<exists>f. decode_fault demo_tx_env n w1 f)" by blast
    with 2 show ?thesis by (simp only: if_False)
  qed
qed

lemma packet_hangs_handler:
  assumes "cryp_ok e" and "world_inv e w" and "data = [0x12, 0xFC, 0xFF, 0x03] @ rest" and "length data \<le> 239"
    and "to_id h = MESH_BROADCAST_ID"
    and frame: "take (16 + length data) (lora_rx_buf w) =
      header_bytes h @ ctr_spec e (hw_key (aes_st w)) (packet_id h) (from_id h) (length data) data"
  shows "handle_packet e (16 + length data) w = Inl Hang"
proof -
  let ?n = "16 + length data"
  let ?c = "ctr_spec e (hw_key (aes_st w)) (packet_id h) (from_id h) (length data) data"
  let ?w1 = "w\<lparr>flood_st := flood_seen (from_id h) (packet_id h) (flood_st w)\<rparr>"
  have len: "length (lora_rx_buf w) = 256" using assms(2) by (simp add: world_inv_def)
  have "take 16 (take ?n (lora_rx_buf w)) = header_bytes h"
    by (simp only: frame) simp
  then have "take 16 (lora_rx_buf w) = take 16 (header_bytes h @ [])" by simp
  then have h: "header_of (lora_rx_buf w) = h"
    using header_of_take [of "lora_rx_buf w" "header_bytes h @ []"] len by (simp del: append_Nil2)
  have "take (length data) (drop 16 (lora_rx_buf w)) = drop 16 (take ?n (lora_rx_buf w))"
    by (simp add: drop_take)
  then have c: "take (length data) (drop 16 (lora_rx_buf w)) = ?c"
    by (simp add: frame)
  have "length data \<le> 65520" using assms(4) by simp
  from aes_ctr_crypt_ok [OF assms(1) this, of ?c "packet_id h" "from_id h" "aes_st w" "hist w"] obtain aes' h' where
    "aes_ctr_crypt e ?c (length data) (packet_id h) (from_id h) (aes_st w) (hist w) = Inr (data, aes', h')"
    by auto
  moreover have "length data = 4 + length rest" by (simp add: assms(3))
  then have "pb_decode_data data (length data) = Inl Hang"
    by (simp only: assms(3) pb_decode_hang_prefix)
  ultimately have "receive_packet e h ?n ?w1 = Inl Hang"
    by (simp add: receive_packet_def c Let_def)
  then show ?thesis
    using assms(3,5) by (simp add: handle_packet_def h Let_def)
qed

text \<open>
  C11. One packet stops the node for good: once the radio holds a broadcast whose data decrypts to
  anything that starts with 12 FC FF 03, the next iteration of the main loop never returns.
\<close>

theorem packet_hangs_node:
  assumes "cryp_ok e" and "world_inv e w" and "ring_contents (serial_st w) = []" and "rx_pending (drv w)"
    and "data = [0x12, 0xFC, 0xFF, 0x03] @ rest" and "length data \<le> 239" and "to_id h = MESH_BROADCAST_ID"
    and "radio_holds e (loop_hist e w)
      (header_bytes h @ ctr_spec e (hw_key (aes_st w)) (packet_id h) (from_id h) (length data) data)"
  shows "mesh_mini_loop e w = Inl Hang"
proof -
  let ?f = "header_bytes h @ ctr_spec e (hw_key (aes_st w)) (packet_id h) (from_id h) (length data) data"
  have len: "length ?f = 16 + length data" "0 < length ?f" "length ?f \<le> 255" using assms(6) by simp_all
  from assms(2-4,8) len(2,3) obtain w1 where w1: "mesh_mini_loop e w = handle_packet e (length ?f) w1"
    "world_inv e w1" "take (length ?f) (lora_rx_buf w1) = ?f" "aes_st w1 = aes_st w"
    by (rule mesh_mini_loop_receives)
  have "take (16 + length data) (lora_rx_buf w1) =
      header_bytes h @ ctr_spec e (hw_key (aes_st w1)) (packet_id h) (from_id h) (length data) data"
    using w1(3) by (simp only: len(1) w1(4))
  from packet_hangs_handler [OF assms(1) w1(2) assms(5-7) this] show ?thesis
    by (simp only: w1(1) len(1))
qed

theorem packet_hangs_node_witness:
  "let f = header_bytes demo_header @ ctr_spec demo_tx_env (hw_key aes_reset) 5 9 4 [0x12, 0xFC, 0xFF, 0x03] in
   mesh_mini_loop (demo_rx_env f) (demo_listener f) = Inl Hang"
proof -
  let ?f = "header_bytes demo_header @ ctr_spec demo_tx_env (hw_key aes_reset) 5 9 4 [0x12, 0xFC, 0xFF, 0x03]"
  have c: "ctr_spec (demo_rx_env g) = ctr_spec demo_tx_env" for g
    by (rule ctr_spec_cong) simp
  have len: "length [0x12 :: u8, 0xFC, 0xFF, 0x03] = 4" by simp
  have "mesh_mini_loop (demo_rx_env ?f) (demo_listener ?f) = Inl Hang"
    by (rule packet_hangs_node [where rest = "[]" and h = demo_header and data = "[0x12, 0xFC, 0xFF, 0x03]"],
        unfold c len) (simp_all add: demo_header_def)
  then show ?thesis by (simp only: Let_def)
qed

end
