(* ===== verification/Build_Config.thy ===== *)
theory Build_Config
  imports Receive_Facts Config_Store
begin

text \<open>
  The build: the HAL modules of \<open>config/stm32wlxx_hal_conf.h\<close>, and the code that the preprocessor
  selects with them and with the options of the build files. The other theories model the target build;
  here are the alternatives, the proof that the configuration selects the modelled code, and what a
  build without a part does.
\<close>

section \<open>The HAL configuration\<close>

datatype hal_module =
    HAL_ADC | HAL_COMP | HAL_CRC | HAL_CRYP | HAL_DAC | HAL_GTZC | HAL_HSEM | HAL_I2C | HAL_I2S |
    HAL_IPCC | HAL_IRDA | HAL_IWDG | HAL_LPTIM | HAL_PKA | HAL_RNG | HAL_RTC | HAL_SMARTCARD |
    HAL_SMBUS | HAL_SPI | HAL_SUBGHZ | HAL_TIM | HAL_UART | HAL_USART | HAL_WWDG | HAL_EXTI |
    HAL_CORTEX | HAL_DMA | HAL_FLASH | HAL_GPIO | HAL_PWR | HAL_RCC

definition hal_conf_modules :: "hal_module list" where
  "hal_conf_modules =
    [HAL_ADC, HAL_COMP, HAL_CRC, HAL_CRYP, HAL_DAC, HAL_GTZC, HAL_HSEM, HAL_I2C, HAL_I2S,
     HAL_IPCC, HAL_IRDA, HAL_IWDG, HAL_LPTIM, HAL_PKA, HAL_RNG, HAL_RTC, HAL_SMARTCARD, HAL_SMBUS,
     HAL_SPI, HAL_SUBGHZ, HAL_TIM, HAL_UART, HAL_USART, HAL_WWDG, HAL_EXTI, HAL_CORTEX, HAL_DMA,
     HAL_FLASH, HAL_GPIO, HAL_PWR, HAL_RCC]"

definition hal_conf_register_callbacks :: "(hal_module \<times> nat) list" where
  "hal_conf_register_callbacks =
    [(HAL_ADC, 0), (HAL_COMP, 0), (HAL_CRYP, 0), (HAL_DAC, 0), (HAL_I2C, 0), (HAL_I2S, 0),
     (HAL_IRDA, 0), (HAL_LPTIM, 0), (HAL_PKA, 0), (HAL_RNG, 0), (HAL_RTC, 0), (HAL_SMARTCARD, 0),
     (HAL_SMBUS, 0), (HAL_SPI, 0), (HAL_SUBGHZ, 0), (HAL_TIM, 0), (HAL_UART, 0), (HAL_USART, 0),
     (HAL_WWDG, 0)]"

text \<open>The header each module brings in, in the order of the file.\<close>

definition hal_conf_headers :: "(hal_module \<times> string) list" where
  "hal_conf_headers =
    [(HAL_DMA, ''stm32wlxx_hal_dma.h''), (HAL_ADC, ''stm32wlxx_hal_adc.h''),
     (HAL_COMP, ''stm32wlxx_hal_comp.h''), (HAL_CORTEX, ''stm32wlxx_hal_cortex.h''),
     (HAL_CRC, ''stm32wlxx_hal_crc.h''), (HAL_CRYP, ''stm32wlxx_hal_cryp.h''),
     (HAL_DAC, ''stm32wlxx_hal_dac.h''), (HAL_EXTI, ''stm32wlxx_hal_exti.h''),
     (HAL_FLASH, ''stm32wlxx_hal_flash.h''), (HAL_GPIO, ''stm32wlxx_hal_gpio.h''),
     (HAL_GTZC, ''stm32wlxx_hal_gtzc.h''), (HAL_HSEM, ''stm32wlxx_hal_hsem.h''),
     (HAL_I2C, ''stm32wlxx_hal_i2c.h''), (HAL_I2S, ''stm32wlxx_hal_i2s.h''),
     (HAL_IPCC, ''stm32wlxx_hal_ipcc.h''), (HAL_IRDA, ''stm32wlxx_hal_irda.h''),
     (HAL_IWDG, ''stm32wlxx_hal_iwdg.h''), (HAL_LPTIM, ''stm32wlxx_hal_lptim.h''),
     (HAL_PKA, ''stm32wlxx_hal_pka.h''), (HAL_PWR, ''stm32wlxx_hal_pwr.h''),
     (HAL_RCC, ''stm32wlxx_hal_rcc.h''), (HAL_RNG, ''stm32wlxx_hal_rng.h''),
     (HAL_RTC, ''stm32wlxx_hal_rtc.h''), (HAL_SMARTCARD, ''stm32wlxx_hal_smartcard.h''),
     (HAL_SMBUS, ''stm32wlxx_hal_smbus.h''), (HAL_SPI, ''stm32wlxx_hal_spi.h''),
     (HAL_SUBGHZ, ''stm32wlxx_hal_subghz.h''), (HAL_TIM, ''stm32wlxx_hal_tim.h''),
     (HAL_UART, ''stm32wlxx_hal_uart.h''), (HAL_USART, ''stm32wlxx_hal_usart.h''),
     (HAL_WWDG, ''stm32wlxx_hal_wwdg.h'')]"

definition hal_headers :: "hal_module list \<Rightarrow> string list" where
  "hal_headers ms = map snd (filter (\<lambda>p. fst p \<in> set ms) hal_conf_headers)"

definition HSE_VALUE :: nat where "HSE_VALUE = 32000000"

text \<open>
  The other clock constants. Each is defined only if the compiler's command line, \<open>defs\<close>, does not define it.
\<close>

definition hal_conf_clock_defaults :: "(string \<times> nat) list" where
  "hal_conf_clock_defaults =
    [(''HSE_VALUE'', HSE_VALUE), (''HSE_STARTUP_TIMEOUT'', 100), (''MSI_VALUE'', 4000000),
     (''HSI_VALUE'', 16000000), (''LSI_VALUE'', 32000), (''LSE_VALUE'', 32768), (''HSI48_VALUE'', 48000000),
     (''LSE_STARTUP_TIMEOUT'', 5000)]"

definition hal_conf_clock :: "(string \<Rightarrow> nat option) \<Rightarrow> string \<Rightarrow> nat option" where
  "hal_conf_clock defs x = (case defs x of Some v \<Rightarrow> Some v | None \<Rightarrow> map_of hal_conf_clock_defaults x)"

text \<open>The system constants; \<open>bits\<close> is \<open>__NVIC_PRIO_BITS\<close> of the device header.\<close>

definition hal_conf_system :: "nat \<Rightarrow> (string \<times> nat) list" where
  "hal_conf_system bits =
    [(''VDD_VALUE'', 3300), (''TICK_INT_PRIORITY'', 2 ^ bits - 1), (''USE_RTOS'', 0), (''PREFETCH_ENABLE'', 0),
     (''INSTRUCTION_CACHE_ENABLE'', 1), (''DATA_CACHE_ENABLE'', 1)]"

definition hal_conf_peripherals :: "(string \<times> nat) list" where
  "hal_conf_peripherals = [(''USE_SPI_CRC'', 1), (''USE_HAL_CRYP_SUSPEND_RESUME'', 1)]"

text \<open>\<open>assert_param\<close>: whether it calls \<open>assert_failed\<close>, with or without \<open>USE_FULL_ASSERT\<close>.\<close>

definition assert_param :: "bool \<Rightarrow> bool \<Rightarrow> bool" where
  "assert_param use_full_assert expr = (if use_full_assert then \<not> expr else False)"

section \<open>Conditional compilation\<close>

record build =
  use_hal_driver :: bool
  use_stm32wl_radio :: bool
  hal_modules :: "hal_module list"

definition target_build :: build where
  "target_build = \<lparr>use_hal_driver = True, use_stm32wl_radio = True, hal_modules = hal_conf_modules\<rparr>"

definition has_module :: "build \<Rightarrow> hal_module \<Rightarrow> bool" where
  "has_module b m \<longleftrightarrow> use_hal_driver b \<and> m \<in> set (hal_modules b)"

definition aes_ctr_crypt_of ::
  "build \<Rightarrow> hal_env \<Rightarrow> u8 list \<Rightarrow> nat \<Rightarrow> u32 \<Rightarrow> u32 \<Rightarrow> aes_state \<Rightarrow> hw \<Rightarrow> (u8 list \<times> aes_state \<times> hw) run" where
  "aes_ctr_crypt_of b e payload len pid frm st h =
     (if has_module b HAL_CRYP then aes_ctr_crypt e payload len pid frm st h else Inr (payload, st, h))"

definition aes_set_channel_key_of :: "build \<Rightarrow> u8 list ptr \<Rightarrow> aes_state \<Rightarrow> aes_state" where
  "aes_set_channel_key_of b key st =
     (if has_module b HAL_CRYP then aes_set_channel_key key st
      else case key of None \<Rightarrow> st
      | Some k \<Rightarrow> st\<lparr>channel_key := memcpy_at (channel_key st) 0 (take MESH_AES_KEY_LEN k)\<rparr>)"

definition config_load_of :: "build \<Rightarrow> 'f flash_hal \<Rightarrow> 'f \<Rightarrow> device_config ptr \<Rightarrow> bool \<times> device_config ptr" where
  "config_load_of b hal f cfg =
     (if has_module b HAL_FLASH then config_load hal f cfg
      else case cfg of None \<Rightarrow> (False, None) | Some c \<Rightarrow> (True, config_set_defaults (Some c)))"

definition config_save_of :: "build \<Rightarrow> 'f flash_hal \<Rightarrow> device_config ptr \<Rightarrow> 'f \<Rightarrow> bool \<times> 'f" where
  "config_save_of b hal cfg f =
     (if has_module b HAL_FLASH then config_save hal cfg f
      else case cfg of None \<Rightarrow> (False, f) | Some c \<Rightarrow> (True, f))"

definition radio_stm32wl_register_of ::
  "build \<Rightarrow> hal_env \<Rightarrow> radio radio_phy_ops ptr \<Rightarrow> radio radio_phy_ops ptr" where
  "radio_stm32wl_register_of b e s_ops = (if use_stm32wl_radio b then radio_stm32wl_register e s_ops else s_ops)"

definition led_init_of :: "build \<Rightarrow> led_state \<Rightarrow> hw \<Rightarrow> led_state \<times> hw" where
  "led_init_of b st h = (if use_hal_driver b then led_init st h else (st, h))"

definition led_tick_of :: "build \<Rightarrow> hal_env \<Rightarrow> led_state \<Rightarrow> hw \<Rightarrow> led_state \<times> hw" where
  "led_tick_of b e st h = (if use_hal_driver b then led_tick e st h else (st, h))"

definition led_toggle_from_isr_of :: "build \<Rightarrow> hw \<Rightarrow> hw" where
  "led_toggle_from_isr_of b h = (if use_hal_driver b then led_toggle_from_isr h else h)"

definition rf_ctrl_init_of :: "build \<Rightarrow> hal_env \<Rightarrow> hw \<Rightarrow> hw" where
  "rf_ctrl_init_of b e h = (if use_hal_driver b then rf_ctrl_init e h else h)"

definition rf_ctrl_set_off_of :: "build \<Rightarrow> hal_env \<Rightarrow> hw \<Rightarrow> hw" where
  "rf_ctrl_set_off_of b e h = (if use_hal_driver b then rf_ctrl_set_off e h else h)"

definition rf_ctrl_set_rx_of :: "build \<Rightarrow> hal_env \<Rightarrow> hw \<Rightarrow> hw" where
  "rf_ctrl_set_rx_of b e h = (if use_hal_driver b then rf_ctrl_set_rx e h else h)"

definition rf_ctrl_set_tx_of :: "build \<Rightarrow> hal_env \<Rightarrow> hw \<Rightarrow> hw" where
  "rf_ctrl_set_tx_of b e h = (if use_hal_driver b then rf_ctrl_set_tx e h else h)"

definition serial_init_of :: "build \<Rightarrow> hal_env \<Rightarrow> serial_state \<Rightarrow> hw \<Rightarrow> serial_state \<times> hw" where
  "serial_init_of b e st h = (if use_hal_driver b then serial_init e st h else (st, h))"

definition serial_puts_of :: "build \<Rightarrow> u8 list ptr \<Rightarrow> serial_state \<Rightarrow> hw \<Rightarrow> hw" where
  "serial_puts_of b s st h = (if use_hal_driver b then serial_puts s st h else h)"

definition serial_write_of :: "build \<Rightarrow> u8 list ptr \<Rightarrow> nat \<Rightarrow> serial_state \<Rightarrow> hw \<Rightarrow> hw" where
  "serial_write_of b d n st h = (if use_hal_driver b then serial_write d n st h else h)"

definition serial_put_int16_of :: "build \<Rightarrow> u16 \<Rightarrow> serial_state \<Rightarrow> hw \<Rightarrow> hw" where
  "serial_put_int16_of b v st h = (if use_hal_driver b then serial_put_int16 v st h else h)"

definition serial_push_byte_of :: "build \<Rightarrow> u8 \<Rightarrow> serial_state \<Rightarrow> serial_state" where
  "serial_push_byte_of b c st = (if use_hal_driver b then serial_push_byte c st else st)"

definition serial_get_byte_of :: "build \<Rightarrow> u8 ptr \<Rightarrow> serial_state \<Rightarrow> bool \<times> u8 ptr \<times> serial_state" where
  "serial_get_byte_of b out st = (if use_hal_driver b then serial_get_byte out st else (False, out, st))"

text \<open>The weak \<open>uart_tx\<close> of \<open>main.c\<close> is overridden by that of \<open>serial_io.c\<close> where this is compiled.\<close>

definition uart_tx_of :: "build \<Rightarrow> u8 list ptr \<Rightarrow> nat \<Rightarrow> serial_state \<Rightarrow> hw \<Rightarrow> hw" where
  "uart_tx_of b d n st h = (if use_hal_driver b then uart_tx d n st h else h)"

section \<open>The target build\<close>

text \<open>Its configuration selects the code that the other theories model.\<close>

lemma target_build_code:
  "aes_ctr_crypt_of target_build = aes_ctr_crypt" "aes_set_channel_key_of target_build = aes_set_channel_key"
  "config_load_of target_build = config_load" "config_save_of target_build = config_save"
  "radio_stm32wl_register_of target_build = radio_stm32wl_register"
  "led_init_of target_build = led_init" "led_tick_of target_build = led_tick"
  "led_toggle_from_isr_of target_build = led_toggle_from_isr"
  "rf_ctrl_init_of target_build = rf_ctrl_init" "rf_ctrl_set_off_of target_build = rf_ctrl_set_off"
  "rf_ctrl_set_rx_of target_build = rf_ctrl_set_rx" "rf_ctrl_set_tx_of target_build = rf_ctrl_set_tx"
  "serial_init_of target_build = serial_init" "serial_puts_of target_build = serial_puts"
  "serial_write_of target_build = serial_write" "serial_put_int16_of target_build = serial_put_int16"
  "serial_push_byte_of target_build = serial_push_byte" "serial_get_byte_of target_build = serial_get_byte"
  "uart_tx_of target_build = uart_tx"
proof -
  have m: "has_module target_build HAL_CRYP" "has_module target_build HAL_FLASH" "use_hal_driver target_build"
    "use_stm32wl_radio target_build"
    by (simp_all add: has_module_def target_build_def hal_conf_modules_def)
  show "aes_ctr_crypt_of target_build = aes_ctr_crypt" "aes_set_channel_key_of target_build = aes_set_channel_key"
    "config_load_of target_build = config_load" "config_save_of target_build = config_save"
    "radio_stm32wl_register_of target_build = radio_stm32wl_register"
    "led_init_of target_build = led_init" "led_tick_of target_build = led_tick"
    "led_toggle_from_isr_of target_build = led_toggle_from_isr"
    "rf_ctrl_init_of target_build = rf_ctrl_init" "rf_ctrl_set_off_of target_build = rf_ctrl_set_off"
    "rf_ctrl_set_rx_of target_build = rf_ctrl_set_rx" "rf_ctrl_set_tx_of target_build = rf_ctrl_set_tx"
    "serial_init_of target_build = serial_init" "serial_puts_of target_build = serial_puts"
    "serial_write_of target_build = serial_write" "serial_put_int16_of target_build = serial_put_int16"
    "serial_push_byte_of target_build = serial_push_byte" "serial_get_byte_of target_build = serial_get_byte"
    "uart_tx_of target_build = uart_tx"
    by (auto simp: fun_eq_iff aes_ctr_crypt_of_def aes_set_channel_key_of_def config_load_of_def config_save_of_def
        radio_stm32wl_register_of_def led_init_of_def led_tick_of_def led_toggle_from_isr_of_def rf_ctrl_init_of_def
        rf_ctrl_set_off_of_def rf_ctrl_set_rx_of_def rf_ctrl_set_tx_of_def serial_init_of_def serial_puts_of_def
        serial_write_of_def serial_put_int16_of_def serial_push_byte_of_def serial_get_byte_of_def uart_tx_of_def m)
qed

text \<open>
  The HAL brings in the headers of all its modules, the ones the sources use among them; no module
  replaces the weak callbacks that the driver defines; and the radio's crystal is the HAL's HSE.
\<close>

lemma hal_conf_serves_firmware:
  "hal_headers hal_conf_modules = map snd hal_conf_headers"
  "{''stm32wlxx_hal_subghz.h'', ''stm32wlxx_hal_flash.h'', ''stm32wlxx_hal_cryp.h'', ''stm32wlxx_hal_rcc.h'',
    ''stm32wlxx_hal_gpio.h'', ''stm32wlxx_hal_uart.h'', ''stm32wlxx_hal_cortex.h''} \<subseteq> set (hal_headers hal_conf_modules)"
  "list_all (\<lambda>m. map_of hal_conf_register_callbacks m = Some 0) [HAL_SUBGHZ, HAL_CRYP, HAL_UART]"
  "unat XTAL_FREQ_HZ = HSE_VALUE"
proof -
  have "fst p \<in> set hal_conf_modules" for p :: "hal_module \<times> string"
    by (cases "fst p") (simp_all add: hal_conf_modules_def)
  then show h: "hal_headers hal_conf_modules = map snd hal_conf_headers"
    by (simp add: hal_headers_def)
  show "{''stm32wlxx_hal_subghz.h'', ''stm32wlxx_hal_flash.h'', ''stm32wlxx_hal_cryp.h'', ''stm32wlxx_hal_rcc.h'',
    ''stm32wlxx_hal_gpio.h'', ''stm32wlxx_hal_uart.h'', ''stm32wlxx_hal_cortex.h''} \<subseteq> set (hal_headers hal_conf_modules)"
    unfolding h by (simp add: hal_conf_headers_def)
  show "list_all (\<lambda>m. map_of hal_conf_register_callbacks m = Some 0) [HAL_SUBGHZ, HAL_CRYP, HAL_UART]"
    by (simp add: hal_conf_register_callbacks_def)
  show "unat XTAL_FREQ_HZ = HSE_VALUE" by (simp add: XTAL_FREQ_HZ_def HSE_VALUE_def)
qed

section \<open>Builds without a part\<close>

text \<open>
  Sending and the terminal's line, with the encryption that the build has; the build has the HAL, and so
  the terminal.
\<close>

definition send_lora_packet_of :: "build \<Rightarrow> hal_env \<Rightarrow> u32 \<Rightarrow> u8 list \<Rightarrow> nat \<Rightarrow> world \<Rightarrow> (bool \<times> world) run" where
  "send_lora_packet_of b e to text text_len w =
     (let (pb_buf, pb_len) = pb_encode_data (replicate (LORA_BUF_SIZE - MESH_HEADER_SIZE) 0)
            (LORA_BUF_SIZE - MESH_HEADER_SIZE) PORTNUM_TEXT_MESSAGE text text_len in
      if pb_len = 0 then Inr (False, w)
      else let h = own_header to w;
               w1 = w\<lparr>next_packet_id := next_packet_id w + 1\<rparr>;
               buf1 = the (mesh_header_to_buf (Some h) (Some (lora_tx_buf w1)));
               buf2 = memcpy_at buf1 MESH_HEADER_SIZE (take pb_len pb_buf)
        in run_bind (aes_ctr_crypt_of b e (drop MESH_HEADER_SIZE buf2) pb_len (packet_id h) (from_id h)
                       (aes_st w1) (hist w1))
             (\<lambda>(payload, aes', hist').
                let buf3 = memcpy_at buf2 MESH_HEADER_SIZE payload;
                    w2 = w1\<lparr>lora_tx_buf := buf3, aes_st := aes',
                            flood_st := flood_seen (from_id h) (packet_id h) (flood_st w1)\<rparr>
                in run_bind (lora_tx (phy w2) (Some buf3) (MESH_HEADER_SIZE + pb_len) (drv w2, hist'))
                     (\<lambda>(ok, (drv', hist'')). Inr (ok, w2\<lparr>drv := drv', hist := hist''\<rparr>))))"

definition handle_line_of :: "build \<Rightarrow> hal_env \<Rightarrow> world \<Rightarrow> world run" where
  "handle_line_of b e w =
     (if line_len w \<ge> 2 \<and> (line_buf w ! 0 = of_char (CHR ''N'') \<or> line_buf w ! 0 = of_char (CHR ''n'')) then
        let c = line_buf w ! 1;
            w1 = (if c \<ge> of_char (CHR ''1'') \<and> c \<le> of_char (CHR ''9'')
                  then put_str (bytes_of ''node_id set'' @ crlf)
                         (w\<lparr>g_config := (g_config w)\<lparr>node_id := ucast (c - of_char (CHR ''0''))\<rparr>\<rparr>)
                  else w)
        in Inr (w1\<lparr>line_len := 0\<rparr>)
      else if line_len w = 4 \<and> take 4 (line_buf w) = bytes_of ''help'' then
        Inr ((put_str help_text w)\<lparr>line_len := 0\<rparr>)
      else if line_len w = 4 \<and> take 4 (line_buf w) = bytes_of ''info'' then
        Inr ((info_line w)\<lparr>line_len := 0\<rparr>)
      else run_bind (send_lora_packet_of b e MESH_BROADCAST_ID (line_buf w) (line_len w) w)
             (\<lambda>(ok, w1). Inr ((put_str (bytes_of (if ok then ''Sent.'' else ''TX failed.'') @ crlf) w1)
                                \<lparr>line_len := 0\<rparr>)))"

lemma target_build_line:
  "send_lora_packet_of target_build = send_lora_packet" "handle_line_of target_build = handle_line"
proof -
  show s: "send_lora_packet_of target_build = send_lora_packet"
    unfolding fun_eq_iff send_lora_packet_of_def send_lora_packet_def target_build_code by (intro allI refl)
  show "handle_line_of target_build = handle_line"
    unfolding fun_eq_iff handle_line_of_def handle_line_def s by (intro allI refl)
qed

lemma handle_line_of_text:
  assumes "\<not> is_command (line_text w)" and "line_len w \<le> length (line_buf w)"
  shows "handle_line_of b e w = run_bind (send_lora_packet_of b e MESH_BROADCAST_ID (line_buf w) (line_len w) w)
    (\<lambda>(ok, w1). Inr ((put_str (bytes_of (if ok then ''Sent.'' else ''TX failed.'') @ crlf) w1)\<lparr>line_len := 0\<rparr>))"
proof -
  have "\<not> (2 \<le> line_len w \<and> (line_buf w ! 0 = of_char (CHR ''N'') \<or> line_buf w ! 0 = of_char (CHR ''n'')))"
    using assms by (auto simp: is_command_def line_text_def)
  moreover have "\<not> (line_len w = 4 \<and> take 4 (line_buf w) = bytes_of ''help'')"
    "\<not> (line_len w = 4 \<and> take 4 (line_buf w) = bytes_of ''info'')"
    using assms(1) by (auto simp: is_command_def line_text_def)
  ultimately show ?thesis
    unfolding handle_line_of_def by (simp only: if_False)
qed

text \<open>Without the flash module, saving and loading report success, and what was saved is not loaded.\<close>

lemma config_without_flash:
  assumes "\<not> has_module b HAL_FLASH" and "config_save_of b hal (Some c) f = (ok, f')"
  shows "ok \<and> config_load_of b hal f' (Some c') = (True, config_set_defaults (Some c'))"
  using assms by (simp add: config_save_of_def config_load_of_def)

lemma send_without_radio:
  assumes "phy w = NULL" and "n \<le> 127" and "n \<le> length text"
  obtains w' where "send_lora_packet_of b e to text n w = Inr (True, w')"
    and "frames_sent (hist w') = frames_sent (hist w)" and "frames_done e (hist w') = frames_done e (hist w)"
    and "shown w' = shown w" and "serial_st w' = serial_st w"
proof -
  have enc: "pb_encode_data (replicate 240 0) 240 1 text n =
      (memcpy_at (replicate 240 0) 0 (pb_message 1 (take n text)), 4 + n)"
    using assms(2,3) by (simp add: pb_encode_out pb_message_def)
  let ?buf = "drop 16 (memcpy_at (the (mesh_header_to_buf (Some (own_header to w)) (Some (lora_tx_buf w)))) 16
    (take (4 + n) (memcpy_at (replicate 240 0) 0 (pb_message 1 (take n text)))))"
  obtain p st' h' where a: "aes_ctr_crypt_of b e ?buf (4 + n) (next_packet_id w) (node_id (g_config w)) (aes_st w) (hist w) =
      Inr (p, st', h')" "frames_sent h' = frames_sent (hist w)" "frames_done e h' = frames_done e (hist w)"
      "uart_out h' = uart_out (hist w)"
    using aes_ctr_crypt_returns [of "4 + n" "\<lambda>h. (frames_sent h, frames_done e h, uart_out h)" e ?buf "next_packet_id w" "node_id (g_config w)" "aes_st w" "hist w"]
      assms(2) by (cases "has_module b HAL_CRYP") (auto simp: frames_sent_issue frames_done_issue aes_ctr_crypt_of_def)
  then have "\<exists>w'. send_lora_packet_of b e to text n w = Inr (True, w') \<and> frames_sent (hist w') = frames_sent (hist w) \<and>
      frames_done e (hist w') = frames_done e (hist w) \<and>
      shown w' = shown w \<and> serial_st w' = serial_st w"
    by (simp add: send_lora_packet_of_def PORTNUM_TEXT_MESSAGE_def enc Let_def own_header_fields assms(1)
        lora_tx_def radio_phy_tx_def current_ops_def default_ops_def default_tx_def own_header_def)
  then show ?thesis using that by blast
qed

lemma send_without_cryp:
  assumes "\<not> has_module b HAL_CRYP" and "tx_works e" and "world_inv e w" and "n \<le> 127" and "n \<le> length text"
  obtains w' where "send_lora_packet_of b e to text n w = Inr (True, w')"
    and "frames_sent (hist w') = frames_sent (hist w) @
      [header_bytes (own_header to w) @ pb_message PORTNUM_TEXT_MESSAGE (take n text)]"
    and "frames_done e (hist w') = frames_done e (hist w) @
      [header_bytes (own_header to w) @ pb_message PORTNUM_TEXT_MESSAGE (take n text)]"
    and "shown w' = shown w" and "serial_st w' = serial_st w"
proof -
  let ?h = "own_header to w" and ?m = "pb_message 1 (take n text)"
  let ?f = "header_bytes ?h @ ?m @ drop (20 + n) (lora_tx_buf w)"
  have lm: "length ?m = 4 + n" using assms(5) by simp
  have enc: "pb_encode_data (replicate 240 0) 240 1 text n = (memcpy_at (replicate 240 0) 0 ?m, 4 + n)"
    using assms(4,5) by (simp add: pb_encode_out pb_message_def)
  have hdr: "mesh_header_to_buf (Some ?h) (Some (lora_tx_buf w)) = Some (header_bytes ?h @ drop 16 (lora_tx_buf w))"
    by (simp add: mesh_header_to_buf_def memcpy_at_def)
  have buf: "memcpy_at (header_bytes ?h @ drop 16 (lora_tx_buf w)) 16 ?m = ?f"
    using assms(5) by (simp add: memcpy_at_def min_absorb2)
  have same: "memcpy_at ?f 16 (?m @ drop (20 + n) (lora_tx_buf w)) = ?f" by (simp add: memcpy_at_def)
  have phy: "phy w = Some (stm32wl_ops e)" and tb: "length (lora_tx_buf w) = 256"
    using assms(3) by (simp_all add: world_inv_def)
  have len: "20 + n \<le> 256" "20 + n \<le> 255" "20 + n \<le> length ?f" using assms(4) lm tb by simp_all
  obtain h' where tx: "stm32wl_radio_tx e (Some ?f) (20 + n) (drv w, hist w) = Inr (True, (drv w, h'))"
    by (rule tx_works_runs [OF assms(2) len(1)])
  obtain w' where w': "send_lora_packet_of b e to text n w = Inr (True, w')" "hist w' = h'" "serial_st w' = serial_st w"
    using assms(1) phy lm tx
    by (simp add: send_lora_packet_of_def PORTNUM_TEXT_MESSAGE_def enc Let_def hdr buf same
        take_memcpy_at_0 aes_ctr_crypt_of_def split_def)
  from tx_frames [OF tx len(2,3)] have "frames_sent h' = frames_sent (hist w) @ [header_bytes ?h @ ?m]"
    using lm by simp
  moreover from tx_done [OF tx len(2,3)] have "frames_done e h' = frames_done e (hist w) @ [header_bytes ?h @ ?m]"
    using lm by simp
  moreover have "uart_out h' = uart_out (hist w)" using tx_uart [OF tx] by simp
  ultimately show ?thesis using that w' by (simp add: PORTNUM_TEXT_MESSAGE_def)
qed

text \<open>
  C38. A build that has the HAL but lacks the CRYP module or the radio driver still answers a text of at
  most 127 bytes with \<open>Sent.\<close>: with the radio driver, over a transmitter that works, what goes on the air,
  to its end, is the text in the clear; without it, nothing does.
\<close>

theorem missing_parts_report_success:
  assumes "use_hal_driver b" and "\<not> has_module b HAL_CRYP \<or> \<not> use_stm32wl_radio b"
    and "phy w = radio_stm32wl_register_of b e NULL" and "use_stm32wl_radio b \<longrightarrow> tx_works e \<and> world_inv e w"
    and "\<not> is_command (line_text w)" and "line_len w \<le> 127" and "line_len w \<le> length (line_buf w)"
  shows "\<exists>w'. handle_line_of b e w = Inr w' \<and>
    (online w \<longrightarrow> shown w' = shown w @ bytes_of ''Sent.'' @ crlf) \<and>
    frames_sent (hist w') = frames_sent (hist w) @
      (if use_stm32wl_radio b
       then [header_bytes (own_header MESH_BROADCAST_ID w) @ pb_message PORTNUM_TEXT_MESSAGE (line_text w)] else []) \<and>
    frames_done e (hist w') = frames_done e (hist w) @
      (if use_stm32wl_radio b
       then [header_bytes (own_header MESH_BROADCAST_ID w) @ pb_message PORTNUM_TEXT_MESSAGE (line_text w)] else [])"
proof (cases "use_stm32wl_radio b")
  case True
  with assms(2,4) obtain w1 where "send_lora_packet_of b e MESH_BROADCAST_ID (line_buf w) (line_len w) w = Inr (True, w1)"
    "frames_sent (hist w1) = frames_sent (hist w) @
       [header_bytes (own_header MESH_BROADCAST_ID w) @ pb_message PORTNUM_TEXT_MESSAGE (line_text w)]"
    "frames_done e (hist w1) = frames_done e (hist w) @
       [header_bytes (own_header MESH_BROADCAST_ID w) @ pb_message PORTNUM_TEXT_MESSAGE (line_text w)]"
    "shown w1 = shown w" "serial_st w1 = serial_st w"
    unfolding line_text_def using send_without_cryp [OF _ _ _ assms(6,7)] by metis
  with True show ?thesis by (simp add: handle_line_of_text [OF assms(5,7)])
next
  case False
  then have "phy w = NULL" using assms(3) by (simp add: radio_stm32wl_register_of_def)
  then obtain w1 where "send_lora_packet_of b e MESH_BROADCAST_ID (line_buf w) (line_len w) w = Inr (True, w1)"
    "frames_sent (hist w1) = frames_sent (hist w)" "frames_done e (hist w1) = frames_done e (hist w)"
    "shown w1 = shown w" "serial_st w1 = serial_st w"
    using send_without_radio [OF _ assms(6,7)] by metis
  with False show ?thesis by (simp add: handle_line_of_text [OF assms(5,7)])
qed

theorem missing_parts_report_success_witness:
  "let b = \<lparr>use_hal_driver = True, use_stm32wl_radio = True, hal_modules = [HAL_GPIO]\<rparr>;
       w = demo_world\<lparr>line_buf := [0x68, 0x69] @ replicate 198 0, line_len := 2\<rparr>
   in \<exists>w'. handle_line_of b demo_tx_env w = Inr w' \<and> shown w' = bytes_of ''Sent.'' @ crlf \<and>
     map (drop 20) (frames_done demo_tx_env (hist w')) = [[0x68, 0x69]]"
proof -
  let ?b = "\<lparr>use_hal_driver = True, use_stm32wl_radio = True, hal_modules = [HAL_GPIO]\<rparr>"
  let ?w = "demo_world\<lparr>line_buf := [0x68, 0x69] @ replicate 198 0, line_len := 2\<rparr>"
  have b: "use_hal_driver ?b" "\<not> has_module ?b HAL_CRYP \<or> \<not> use_stm32wl_radio ?b" "use_stm32wl_radio ?b"
    by (simp_all add: has_module_def)
  have i: "world_inv demo_tx_env ?w" using demo_world_inv by (simp add: world_inv_def)
  then have p: "phy ?w = radio_stm32wl_register_of ?b demo_tx_env NULL"
    by (simp add: world_inv_def radio_stm32wl_register_of_def radio_stm32wl_register_def radio_phy_set_ops_def)
  have works: "use_stm32wl_radio ?b \<longrightarrow> tx_works demo_tx_env \<and> world_inv demo_tx_env ?w"
    using i demo_tx_works by blast
  have t: "line_text ?w = [0x68, 0x69]" by (simp add: line_text_def)
  have c: "\<not> is_command (line_text ?w)" unfolding t by (simp add: is_command_def bytes_of_def)
  have l: "line_len ?w \<le> 127" "line_len ?w \<le> length (line_buf ?w)" by simp_all
  have z: "hist ?w = []" "online ?w" by (simp_all add: demo_world_def world_reset_def)
  have z': "shown ?w = []" "frames_done demo_tx_env (hist ?w) = []" unfolding z by simp_all
  from missing_parts_report_success [OF b(1,2) p works c l] obtain w' where
    "handle_line_of ?b demo_tx_env ?w = Inr w'" "shown w' = bytes_of ''Sent.'' @ crlf"
    "frames_done demo_tx_env (hist w') = [header_bytes (own_header MESH_BROADCAST_ID ?w) @ pb_message PORTNUM_TEXT_MESSAGE [0x68, 0x69]]"
    using z(2) b(3) unfolding z' t by auto
  then show ?thesis unfolding Let_def by (intro exI [of _ w'] conjI) (simp_all add: pb_message_def)
qed

end
