(* ===== verification/Traces.thy ===== *)
theory Traces
  imports Main
begin

text \<open>
  Traces of labelled step relations, and the locale of simulations between two of them: what is proved
  of one step holds of every trace.
\<close>

inductive trace :: "('s \<Rightarrow> 'e \<Rightarrow> 's \<Rightarrow> bool) \<Rightarrow> 's \<Rightarrow> 'e list \<Rightarrow> 's \<Rightarrow> bool" for step :: "'s \<Rightarrow> 'e \<Rightarrow> 's \<Rightarrow> bool" where
  start: "trace step s [] s"
| more: "trace step s evs s' \<Longrightarrow> step s' ev s'' \<Longrightarrow> trace step s (evs @ [ev]) s''"

lemma trace_invariant:
  assumes "trace step s evs s'" and "P [] s"
    and "\<And>evs s ev s'. P evs s \<Longrightarrow> step s ev s' \<Longrightarrow> P (evs @ [ev]) s'"
  shows "P evs s'"
  using assms(1,2) by induction (auto intro: assms(3))

text \<open>Traces from the front.\<close>

lemma trace_one: "step s ev s' \<Longrightarrow> trace step s [ev] s'"
  using trace.more [OF trace.start] by simp

lemma trace_append: "trace step s' evs' s'' \<Longrightarrow> trace step s evs s' \<Longrightarrow> trace step s (evs @ evs') s''"
proof (induction rule: trace.induct)
  case (more s' evs' t ev u)
  from trace.more [OF more.IH [OF more.prems] more.hyps(2)] show ?case by simp
qed simp

lemma trace_Nil_iff [simp]: "trace step s [] t \<longleftrightarrow> s = t"
  by (auto intro: trace.start elim: trace.cases)

lemma trace_Cons_iff: "trace step s (ev # evs) t \<longleftrightarrow> (\<exists>u. step s ev u \<and> trace step u evs t)"
proof
  assume "trace step s (ev # evs) t"
  then show "\<exists>u. step s ev u \<and> trace step u evs t"
  proof (induction "ev # evs" t arbitrary: evs)
    case (more s' evs' s'' ev' s)
    show ?case
    proof (cases evs')
      case Nil
      with more.hyps show ?thesis by auto
    next
      case (Cons ev0 rest)
      with more.hyps(2,3,4) show ?thesis by (auto intro: trace.more)
    qed
  qed
next
  assume "\<exists>u. step s ev u \<and> trace step u evs t"
  then show "trace step s (ev # evs) t"
    using trace_append [of step _ evs t s "[ev]"] trace_one [of step s ev] by fastforce
qed

text \<open>The states of a trace.\<close>

lemma trace_states:
  assumes "trace step s evs s'"
  shows "\<exists>st. st 0 = s \<and> st (length evs) = s' \<and> (\<forall>i < length evs. step (st i) (evs ! i) (st (Suc i)))"
  using assms
proof induction
  case (start s)
  then show ?case by (intro exI [of _ "\<lambda>_. s"]) simp
next
  case (more s evs s' ev s'')
  then obtain st where st: "st 0 = s" "st (length evs) = s'" "\<forall>i < length evs. step (st i) (evs ! i) (st (Suc i))"
    by blast
  with more.hyps(2) show ?case
    by (intro exI [of _ "st(Suc (length evs) := s'')"]) (auto simp: nth_append less_Suc_eq)
qed

text \<open>A number cannot sink for ever.\<close>

lemma no_infinite_descent:
  fixes f :: "nat \<Rightarrow> nat"
  assumes "\<And>j. i \<le> j \<Longrightarrow> f (Suc j) \<le> f j" and "\<And>j. i \<le> j \<Longrightarrow> \<exists>k \<ge> j. f (Suc k) < f k"
  shows False
proof -
  have mono: "f k \<le> f j" if "i \<le> j" "j \<le> k" for j k
    using that(2) by (induction rule: dec_induct) (use assms(1) that(1) in \<open>auto intro: order_trans\<close>)
  have "False" if "i \<le> j" "f j = n" for j n
    using that
  proof (induction n arbitrary: j rule: less_induct)
    case (less n)
    obtain k where k: "j \<le> k" "f (Suc k) < f k" using assms(2) [OF less.prems(1)] by blast
    then have "f (Suc k) < n" using mono [of j k] less.prems by simp
    from less.IH [OF this, of "Suc k"] k(1) less.prems(1) show ?case by simp
  qed
  then show ?thesis by blast
qed

text \<open>Every concrete step is, under an invariant, an abstract step with the same label.\<close>

locale simulation =
  fixes concrete :: "'c \<Rightarrow> 'e \<Rightarrow> 'c \<Rightarrow> bool" and abstract :: "'a \<Rightarrow> 'e \<Rightarrow> 'a \<Rightarrow> bool"
    and abstraction :: "'c \<Rightarrow> 'a" and inv :: "'c \<Rightarrow> bool"
  assumes step_simulates: "inv c \<Longrightarrow> concrete c ev c' \<Longrightarrow> abstract (abstraction c) ev (abstraction c')"
    and step_inv: "inv c \<Longrightarrow> concrete c ev c' \<Longrightarrow> inv c'"
begin

lemma trace_simulates:
  assumes "trace concrete c evs c'" and "inv c"
  shows "trace abstract (abstraction c) evs (abstraction c')" and "inv c'"
proof -
  have "trace abstract (abstraction c) evs (abstraction c') \<and> inv c'"
    using assms by induction (auto intro: trace.intros step_simulates step_inv)
  then show "trace abstract (abstraction c) evs (abstraction c')" and "inv c'" by simp_all
qed

text \<open>Safety properties of the abstract system hold of the concrete one.\<close>

lemma transfer_invariant:
  assumes "trace concrete c evs c'" and "inv c" and "P [] (abstraction c)"
    and "\<And>evs a ev a'. P evs a \<Longrightarrow> abstract a ev a' \<Longrightarrow> P (evs @ [ev]) a'"
  shows "P evs (abstraction c')"
  by (rule trace_invariant [OF trace_simulates(1) [OF assms(1,2)]]) (use assms(3,4) in blast)+

end

end
