(* ===== verification/Uart_Isr.thy ===== *)
theory Uart_Isr
  imports Serial_IO Traces
begin

text \<open>
  The receive ring of \<open>Core/serial_io.c\<close> with the USART1 interrupt inside \<open>serial_get_byte\<close>. The ring
  and its indices are volatile and the main loop does not mask the interrupt, so \<open>serial_get_byte\<close> is
  split into its accesses to them; the interrupt handler runs to completion between any two. The
  interleaved system refines a bounded FIFO.
\<close>

section \<open>The interleaved system\<close>

text \<open>Where the main loop stands in \<open>serial_get_byte\<close>, with the values it has read.\<close>

datatype get_pc =
    Enter
  | Tail_Loaded nat
  | Found
  | Index_Loaded nat
  | Byte_Loaded u8
  | Advance_Loaded u8 nat

datatype ring_event = Arrives u8 | Returns_Byte u8 | Returns_Empty | Internal

type_synonym ring_sys = "get_pc \<times> serial_state"

inductive ring_step :: "ring_sys \<Rightarrow> ring_event \<Rightarrow> ring_sys \<Rightarrow> bool" where
  interrupt: "ring_step (pc, st) (Arrives (ucast (rdr AND 0xFF))) (pc, USART1_IRQHandler True rdr st)"
| spurious: "ring_step (pc, st) Internal (pc, USART1_IRQHandler False rdr st)"
| load_tail: "ring_step (Enter, st) Internal (Tail_Loaded (rx_tail st), st)"
| compare_equal: "t = rx_head st \<Longrightarrow> ring_step (Tail_Loaded t, st) Returns_Empty (Enter, st)"
| compare_other: "t \<noteq> rx_head st \<Longrightarrow> ring_step (Tail_Loaded t, st) Internal (Found, st)"
| load_index: "ring_step (Found, st) Internal (Index_Loaded (rx_tail st), st)"
| load_byte: "ring_step (Index_Loaded t, st) Internal (Byte_Loaded (rx_ring st ! t), st)"
| load_advance: "ring_step (Byte_Loaded b, st) Internal (Advance_Loaded b (rx_tail st), st)"
| store_tail: "ring_step (Advance_Loaded b t, st) (Returns_Byte b)
     (Enter, st\<lparr>rx_tail := (t + 1) mod RX_RING_SIZE\<rparr>)"

inductive_cases ring_stepE: "ring_step s ev s'"

lemmas ring_start = trace.start [of ring_step] and ring_more = trace.more [of ring_step]

text \<open>Uninterrupted, the accesses are the function \<open>serial_get_byte\<close>.\<close>

lemma uninterrupted_empty:
  assumes "serial_next st = None"
  shows "trace ring_step (Enter, st) [Internal, Returns_Empty] (Enter, st)"
proof -
  have "rx_tail st = rx_head st"
    using assms by (simp add: serial_next_def serial_get_byte_def split: if_splits)
  then have "trace ring_step (Enter, st) ([] @ [Internal] @ [Returns_Empty]) (Enter, st)"
    unfolding append_assoc [symmetric]
    by (intro ring_more [OF ring_more [OF ring_start ring_step.load_tail] ring_step.compare_equal])
  then show ?thesis by simp
qed

lemma uninterrupted_byte:
  assumes "serial_next st = Some (b, st')"
  shows "trace ring_step (Enter, st) [Internal, Internal, Internal, Internal, Internal, Returns_Byte b] (Enter, st')"
proof -
  have st: "rx_tail st \<noteq> rx_head st" "b = rx_ring st ! rx_tail st"
    "st' = st\<lparr>rx_tail := (rx_tail st + 1) mod RX_RING_SIZE\<rparr>"
    using assms by (auto simp: serial_next_def serial_get_byte_def split: if_splits)
  have "trace ring_step (Enter, st) ((((([] @ [Internal]) @ [Internal]) @ [Internal]) @ [Internal]) @ [Internal])
      (Advance_Loaded b (rx_tail st), st)"
    unfolding st(2)
    by (rule ring_more [OF _ ring_step.load_advance] ring_more [OF _ ring_step.load_byte]
        ring_more [OF _ ring_step.load_index] ring_more [OF _ ring_step.compare_other [OF st(1)]]
        ring_more [OF _ ring_step.load_tail] ring_start)+
  from ring_more [OF this ring_step.store_tail] show ?thesis by (simp add: st(3))
qed

section \<open>The specification\<close>

text \<open>A FIFO of at most 255 bytes: a byte that arrives at a full queue is dropped.\<close>

inductive fifo_step :: "u8 list \<Rightarrow> ring_event \<Rightarrow> u8 list \<Rightarrow> bool" where
  accept: "length q < 255 \<Longrightarrow> fifo_step q (Arrives b) (q @ [b])"
| drop: "length q = 255 \<Longrightarrow> fifo_step q (Arrives b) q"
| take: "fifo_step (b # q) (Returns_Byte b) q"
| none: "fifo_step [] Returns_Empty []"
| stutter: "fifo_step q Internal q"

section \<open>The simulation\<close>

text \<open>What the main loop has read is still true, whatever bytes arrived since.\<close>

fun pc_ok :: "get_pc \<Rightarrow> serial_state \<Rightarrow> bool" where
  "pc_ok Enter st \<longleftrightarrow> True"
| "pc_ok (Tail_Loaded t) st \<longleftrightarrow> t = rx_tail st"
| "pc_ok Found st \<longleftrightarrow> ring_contents st \<noteq> []"
| "pc_ok (Index_Loaded t) st \<longleftrightarrow> ring_contents st \<noteq> [] \<and> t = rx_tail st"
| "pc_ok (Byte_Loaded b) st \<longleftrightarrow> (\<exists>bs. ring_contents st = b # bs)"
| "pc_ok (Advance_Loaded b t) st \<longleftrightarrow> (\<exists>bs. ring_contents st = b # bs) \<and> t = rx_tail st"

definition ring_sys_inv :: "ring_sys \<Rightarrow> bool" where
  "ring_sys_inv s \<longleftrightarrow> serial_inv (snd s) \<and> pc_ok (fst s) (snd s)"

lemma tail_push [simp]: "rx_tail (serial_push_byte b st) = rx_tail st"
  by (simp add: serial_push_byte_def Let_def)

lemma pc_ok_push: "serial_inv st \<Longrightarrow> pc_ok pc st \<Longrightarrow> pc_ok pc (serial_push_byte b st)"
  by (cases pc) (auto simp: rx_queue.contents_put)

lemma ring_empty_iff: "serial_inv st \<Longrightarrow> ring_contents st = [] \<longleftrightarrow> rx_tail st = rx_head st"
  by (auto simp: ring_contents_def ring_count_def serial_inv_def split: if_splits)

lemma ring_next:
  assumes "serial_inv st" and "ring_contents st = b # bs"
  shows "b = rx_ring st ! rx_tail st" and "ring_contents (st\<lparr>rx_tail := (rx_tail st + 1) mod RX_RING_SIZE\<rparr>) = bs"
    and "serial_inv (st\<lparr>rx_tail := (rx_tail st + 1) mod RX_RING_SIZE\<rparr>)"
proof -
  obtain st' where st': "serial_next st = Some (b, st')" "serial_inv st'" "ring_contents st' = bs"
    using rx_queue.get_front [OF assms] by blast
  then have "b = rx_ring st ! rx_tail st \<and> st' = st\<lparr>rx_tail := (rx_tail st + 1) mod RX_RING_SIZE\<rparr>"
    by (auto simp: serial_next_def serial_get_byte_def split: if_splits)
  with st' show "b = rx_ring st ! rx_tail st" "ring_contents (st\<lparr>rx_tail := (rx_tail st + 1) mod RX_RING_SIZE\<rparr>) = bs"
    "serial_inv (st\<lparr>rx_tail := (rx_tail st + 1) mod RX_RING_SIZE\<rparr>)" by auto
qed

lemma ring_step_simulates:
  assumes "ring_step s ev s'" and "ring_sys_inv s"
  shows "ring_sys_inv s' \<and> fifo_step (ring_contents (snd s)) ev (ring_contents (snd s'))"
  using assms(1)
proof cases
  case (interrupt pc st rdr)
  let ?b = "ucast (rdr AND 0xFF) :: u8"
  have st: "serial_inv st" "pc_ok pc st" using assms(2) interrupt by (simp_all add: ring_sys_inv_def)
  have "fifo_step (ring_contents st) (Arrives ?b) (ring_contents (serial_push_byte ?b st))"
    using rx_queue.contents_put [OF st(1), of ?b] rx_queue.bounded [OF st(1)]
    by (cases "length (ring_contents st) < 255") (auto intro: fifo_step.accept fifo_step.drop)
  then show ?thesis
    using st by (simp add: interrupt USART1_IRQHandler_def ring_sys_inv_def rx_queue.inv_put pc_ok_push)
next
  case (store_tail b t st)
  then obtain bs where bs: "ring_contents st = b # bs" "t = rx_tail st" "serial_inv st"
    using assms(2) by (auto simp: ring_sys_inv_def)
  from ring_next [OF bs(3,1)] show ?thesis
    by (simp add: store_tail bs(1,2) ring_sys_inv_def fifo_step.take)
next
  case (load_byte t st)
  then obtain b bs where b: "ring_contents st = b # bs" "t = rx_tail st" "serial_inv st"
    using assms(2) by (cases "ring_contents st") (auto simp: ring_sys_inv_def)
  from ring_next(1) [OF b(3,1)] b show ?thesis
    by (simp add: load_byte ring_sys_inv_def fifo_step.stutter)
next
  case (compare_equal t st)
  then have "ring_contents st = []"
    using assms(2) by (simp add: ring_sys_inv_def ring_empty_iff)
  then show ?thesis
    using assms(2) by (simp add: compare_equal ring_sys_inv_def fifo_step.none)
qed (use assms(2) in \<open>auto simp: ring_sys_inv_def ring_empty_iff USART1_IRQHandler_def intro: fifo_step.stutter\<close>)

interpretation isr_ring: simulation ring_step fifo_step "\<lambda>s. ring_contents (snd s)" ring_sys_inv
  by unfold_locales (use ring_step_simulates in blast)+

text \<open>
  C18. The receive ring with interrupts inside \<open>serial_get_byte\<close>. In whatever order the USART1 interrupt
  and the accesses of \<open>serial_get_byte\<close> to the ring and its indices interleave, what arrives and what the
  main loop gets is a behaviour of a FIFO of at most 255 bytes: no byte is lost, duplicated or reordered
  but for those that arrive while 255 are waiting, and empty is answered only when the queue is empty.
\<close>

theorem interrupted_ring_refines_fifo:
  assumes "trace ring_step (Enter, st) evs (pc, st')" and "serial_inv st"
  shows "trace fifo_step (ring_contents st) evs (ring_contents st') \<and> serial_inv st'"
  using isr_ring.trace_simulates [OF assms(1)] assms(2) by (simp add: ring_sys_inv_def)

theorem interrupted_ring_refines_fifo_witness:
  "\<exists>st' rdr. trace ring_step (Enter, serial_push_byte 7 serial_reset)
     [Internal, Internal, Arrives 9, Internal, Internal, Internal, Returns_Byte 7] (Enter, st') \<and>
   trace fifo_step [7] [Internal, Internal, Arrives 9, Internal, Internal, Internal, Returns_Byte 7] (ring_contents st')"
proof -
  let ?s0 = "serial_push_byte 7 serial_reset"
  let ?s1 = "USART1_IRQHandler True 9 ?s0"
  have ne: "rx_tail ?s0 \<noteq> rx_head ?s0" by (simp add: serial_push_byte_def serial_reset_def Let_def)
  have t: "rx_tail ?s1 = rx_tail ?s0" "rx_ring ?s1 ! rx_tail ?s0 = 7"
    by (simp_all add: serial_push_byte_def serial_reset_def Let_def USART1_IRQHandler_def)
  have nine: "Arrives (ucast ((9 :: u16) AND 0xFF)) = Arrives 9" by simp
  let ?s2 = "?s1\<lparr>rx_tail := (rx_tail ?s1 + 1) mod RX_RING_SIZE\<rparr>"
  have "trace ring_step (Enter, ?s0) ((((((([] @ [Internal]) @ [Internal]) @ [Arrives (ucast ((9 :: u16) AND 0xFF))]) @ [Internal]) @ [Internal]) @ [Internal]) @
      [Returns_Byte (rx_ring ?s1 ! rx_tail ?s1)]) (Enter, ?s2)"
    by (rule ring_more [OF _ ring_step.store_tail] ring_more [OF _ ring_step.load_advance] ring_more [OF _ ring_step.load_byte]
        ring_more [OF _ ring_step.load_index] ring_more [OF _ ring_step.interrupt]
        ring_more [OF _ ring_step.compare_other [OF ne]]
        ring_more [OF _ ring_step.load_tail] ring_start)+
  then have tr: "trace ring_step (Enter, ?s0) [Internal, Internal, Arrives 9, Internal, Internal, Internal, Returns_Byte 7] (Enter, ?s2)"
    by (simp only: t nine append_Nil append_Cons append.simps)
  have c: "ring_contents ?s0 = [7]"
    by (simp add: rx_queue.contents_put) (simp add: ring_contents_def ring_count_def serial_reset_def)
  from interrupted_ring_refines_fifo [OF tr] c tr show ?thesis
    by (metis rx_queue.inv_put serial_inv_reset)
qed

end
