(* ===== verification/Boot.thy ===== *)
theory Boot
  imports Receive_Facts
begin

text \<open>
  The rest of \<open>firmware/Core\<close>: \<open>system_clock_ll.c\<close>, \<open>syscalls_stub.c\<close>, and start-up, \<open>main.c\<close>
  up to its endless loop. What a restart repeats.
\<close>

section \<open>The system clock\<close>

text \<open>\<open>while (flag != v) {}\<close>: \<open>None\<close> if the flag never gets there.\<close>

partial_function (option) spin_until :: "hal_env \<Rightarrow> flag_poll \<Rightarrow> bool \<Rightarrow> hw \<Rightarrow> hw option" where
  "spin_until e fl v h =
     (let h' = issue (PollFlag fl) h in if env_flag e h fl = v then Some h' else spin_until e fl v h')"

definition wait_flag :: "hal_env \<Rightarrow> flag_poll \<Rightarrow> bool \<Rightarrow> hw \<Rightarrow> hw run" where
  "wait_flag e fl v h = (case spin_until e fl v h of None \<Rightarrow> Inl Hang | Some h' \<Rightarrow> Inr h')"

definition SystemClock_Config_LL :: "hal_env \<Rightarrow> hw \<Rightarrow> hw run" where
  "SystemClock_Config_LL e h =
     run_bind (wait_flag e FlashLatencyIs2 True (issue (Setup FlashSetLatency2) h)) (\<lambda>h.
     run_bind (wait_flag e VosBusy False (issue (Setup PwrSetVosScale1) h)) (\<lambda>h.
     run_bind (wait_flag e MsiReady True (issue (Setup MsiEnable) h)) (\<lambda>h.
     run_bind (wait_flag e SysClkIsMsi True
         (h @ map Setup [MsiEnableRangeSelection, MsiSetRange11, MsiSetCalibTrimming0, SetSysClkSourceMsi])) (\<lambda>h.
     Inr (h @ map Setup [SetAhbPrescaler1, SetAhb3Prescaler1, SetApb1Prescaler1, SetApb2Prescaler1,
                         SystemCoreClockUpdate])))))"

section \<open>System calls\<close>

text \<open>\<open>count\<close> is the \<open>unsigned int\<close> argument; the result is \<open>count\<close> as an \<open>int\<close>.\<close>

definition sys_write :: "int \<Rightarrow> u8 list ptr \<Rightarrow> u32 \<Rightarrow> serial_state \<Rightarrow> hw \<Rightarrow> int \<times> hw" where
  "sys_write fd buf count st h =
     (if fd = 1 \<or> fd = 2
      then if buf \<noteq> NULL \<and> count > 0
           then let n = (if count > 0xFFFF then 0xFFFF else unat count) in (sint count, uart_tx buf n st h)
           else (sint count, h)
      else (sint count, h))"

definition sys_close :: "int \<Rightarrow> int" where "sys_close fd = 0"

definition sys_read :: "int \<Rightarrow> u8 list ptr \<Rightarrow> u32 \<Rightarrow> int" where "sys_read fd buf count = 0"

definition sys_lseek :: "int \<Rightarrow> int \<Rightarrow> int \<Rightarrow> int" where "sys_lseek fd offset whence = 0"

section \<open>Start-up\<close>

text \<open>\<open>main\<close> up to its endless loop.\<close>

definition main_boot :: "hal_env \<Rightarrow> 'f flash_hal \<Rightarrow> 'f \<Rightarrow> world \<Rightarrow> world run" where
  "main_boot e hal f w =
     run_bind (SystemClock_Config_LL e (hist w)) (\<lambda>h1.
       let (ser, h2) = serial_init e (serial_st w) (issue (Setup HalInit) h1);
           w1 = w\<lparr>serial_st := ser, hist := h2, phy := radio_stm32wl_register e (phy w)\<rparr>;
           w2 = mesh_mini_init e hal f w1
       in Inr (put_str (bytes_of ''mesh init done, loop'' @ crlf)
                (put_str (bytes_of ''Meshtastic_mini started'' @ crlf) w2)))"

text \<open>The configuration a node runs with.\<close>

definition stored_config :: "'f flash_hal \<Rightarrow> 'f \<Rightarrow> device_config" where
  "stored_config hal f = the (snd (config_load hal f (Some config_zero)))"

lemma config_load_ignores:
  "config_load hal f (Some c) = (True, Some (stored_config hal f))"
  by (auto simp: stored_config_def config_load_def config_from_flash_def config_set_defaults_def Let_def)

lemma stored_config_key: "length (channel_psk (stored_config hal f)) = 16"
proof -
  have "length (flash_bytes hal f CONFIG_FLASH_ADDR 64) = 64" by (simp add: flash_bytes_def)
  then show ?thesis
    by (auto simp: stored_config_def config_load_def config_from_flash_def config_set_defaults_def Let_def
        config_of_bytes_def meshtastic_default_psk_def bytes_at_def)
qed

lemma set_freq_drv: "stm32wl_radio_set_freq e f (d, h) = (ok, (d', h')) \<Longrightarrow> d' = d"
  by (auto simp: stm32wl_radio_set_freq_def Let_def split: if_splits)

lemma set_lora_drv: "stm32wl_radio_set_lora e a b c (d, h) = (ok, (d', h')) \<Longrightarrow> d' = d"
  by (auto simp: stm32wl_radio_set_lora_def Let_def split: if_splits)

lemma init_drv: "stm32wl_radio_init e (d, h) = (ok, (d', h')) \<Longrightarrow> ok \<and> rx_buf d' = rx_buf d"
  by (auto simp: stm32wl_radio_init_def Let_def)


lemma init_result:
  assumes "phy w = Some (stm32wl_ops e)" and "radio_inv (drv w, hist w)" and "\<not> s_inited (lora_st w)"
    and "length (channel_key (aes_st w)) = 16"
  obtains lora' drv' h' led' where
    "mesh_mini_init e hal f w = w\<lparr>led_st := led', g_config := stored_config hal f, lora_st := lora', drv := drv',
       hist := h', aes_st := aes_set_channel_key (Some (channel_psk (stored_config hal f))) (aes_st w)\<rparr>"
    "s_params lora' = \<lparr>sf = 11, bw_hz = 250000, cr = 5, freq_hz = 869525000\<rparr>" "radio_inv (drv', h')"
proof -
  obtain led' h1 where led: "led_init (led_st w) (hist w) = (led', h1)" by fastforce
  obtain ok1 lora1 drv1 h2 where i1: "lora_init (phy w) (lora_st w) (drv w, h1) = (ok1, lora1, (drv1, h2))"
    by (metis prod_cases4)
  obtain ok2 lora2 drv2 h3 where i2:
    "lora_set_region_preset (phy w) REGION_EU_868 MODEM_LONG_FAST lora1 (drv1, h2) = (ok2, lora2, (drv2, h3))"
    by (metis prod_cases4)
  have r1: "radio_inv (drv1, h2)"
    using i1 assms(1-3)
    by (auto simp: lora_init_def radio_phy_init_def current_ops_def stm32wl_ops_def radio_inv_def Let_def
        dest!: init_drv split: prod.splits if_splits)
  have lt: "\<not> REGION_COUNT \<le> REGION_EU_868" "\<not> MODEM_COUNT \<le> MODEM_LONG_FAST"
    by (simp_all add: less_eq_lora_region_def less_eq_lora_modem_preset_def)
  have r2: "radio_inv (drv2, h3)" and p: "s_params lora2 = \<lparr>sf = 11, bw_hz = 250000, cr = 5, freq_hz = 869525000\<rparr>"
    using i2 r1 lt assms(1)
    by (auto simp: lora_set_region_preset_def radio_phy_set_freq_def radio_phy_set_lora_def current_ops_def
        stm32wl_ops_def radio_inv_def Let_def modem_presets_def region_freq_default_def
        dest!: set_freq_drv set_lora_drv split: prod.splits if_splits)
  have "\<exists>c. config_set_defaults (Some (g_config w)) = Some c"
    by (simp add: config_set_defaults_def)
  then have "mesh_mini_init e hal f w = w\<lparr>led_st := led', g_config := stored_config hal f, lora_st := lora2, drv := drv2,
       hist := h3, aes_st := aes_set_channel_key (Some (channel_psk (stored_config hal f))) (aes_st w)\<rparr>"
    using led i1 i2 by (auto simp: mesh_mini_init_def config_load_ignores Let_def)
  with r2 p that show ?thesis by blast
qed

lemma main_boot_result:
  assumes "main_boot e hal f world_reset = Inr w"
  shows "world_inv e w" and "g_config w = stored_config hal f"
    and "hw_key (aes_st w) = bytes_to_be_words (channel_psk (stored_config hal f))"
    and "next_packet_id w = 0" and "online w" and "flood_st w = flood_reset"
    and "s_params (lora_st w) = \<lparr>sf = 11, bw_hz = 250000, cr = 5, freq_hz = 869525000\<rparr>"
proof -
  from assms obtain h1 where clk: "SystemClock_Config_LL e [] = Inr h1"
    by (auto simp: main_boot_def run_bind_eq_Inr world_reset_def)
  obtain ser h2 where ser: "serial_init e serial_reset (issue (Setup HalInit) h1) = (ser, h2)" by fastforce
  have s: "uart_instance ser" "serial_inv ser"
    using ser by (auto simp: serial_init_def Let_def serial_inv_def serial_reset_def split: if_splits)
  let ?w1 = "world_reset\<lparr>serial_st := ser, hist := h2, phy := Some (stm32wl_ops e)\<rparr>"
  have b: "phy ?w1 = Some (stm32wl_ops e)" "radio_inv (drv ?w1, hist ?w1)" "\<not> s_inited (lora_st ?w1)"
    "length (channel_key (aes_st ?w1)) = 16"
    by (simp_all add: world_reset_def radio_inv_def radio_drv_reset_def lora_reset_def aes_reset_def MESH_AES_KEY_LEN_def)
  obtain lora' drv' h' led' where i:
    "mesh_mini_init e hal f ?w1 = ?w1\<lparr>led_st := led', g_config := stored_config hal f, lora_st := lora', drv := drv',
       hist := h', aes_st := aes_set_channel_key (Some (channel_psk (stored_config hal f))) (aes_st ?w1)\<rparr>"
    "s_params lora' = \<lparr>sf = 11, bw_hz = 250000, cr = 5, freq_hz = 869525000\<rparr>" "radio_inv (drv', h')"
    by (rule init_result [OF b])
  have "w = put_str (bytes_of ''mesh init done, loop'' @ crlf)
      (put_str (bytes_of ''Meshtastic_mini started'' @ crlf) (mesh_mini_init e hal f ?w1))"
    using assms clk ser
    by (simp add: main_boot_def radio_stm32wl_register_def radio_phy_set_ops_def) (simp add: world_reset_def)
  then have w: "world_inv e w = world_inv e (mesh_mini_init e hal f ?w1)"
    "g_config w = g_config (mesh_mini_init e hal f ?w1)" "aes_st w = aes_st (mesh_mini_init e hal f ?w1)"
    "next_packet_id w = next_packet_id (mesh_mini_init e hal f ?w1)"
    "serial_st w = serial_st (mesh_mini_init e hal f ?w1)" "flood_st w = flood_st (mesh_mini_init e hal f ?w1)"
    "lora_st w = lora_st (mesh_mini_init e hal f ?w1)"
    by simp_all
  show "world_inv e w" "g_config w = stored_config hal f" "next_packet_id w = 0" "online w" "flood_st w = flood_reset"
    "s_params (lora_st w) = \<lparr>sf = 11, bw_hz = 250000, cr = 5, freq_hz = 869525000\<rparr>"
    unfolding w i(1) using i(2,3) s by (simp_all add: world_inv_def world_reset_def radio_inv_def)
  show "hw_key (aes_st w) = bytes_to_be_words (channel_psk (stored_config hal f))"
    unfolding w i(1) by (simp add: hw_key_set_channel_key stored_config_key world_reset_def aes_reset_def MESH_AES_KEY_LEN_def)
qed

text \<open>
  C35. After start-up the node runs with the configuration stored in flash, or the defaults, as its id
  and channel key, its buffers satisfy the invariant, the terminal is connected, nothing has been seen
  and the packet counter is 0; but the region and the modem preset stored in flash have no effect: the
  radio parameters are always those of EU 868 and LONG_FAST.
\<close>

theorem main_boot_correct:
  assumes "main_boot e hal f world_reset = Inr w"
  shows "world_inv e w \<and> g_config w = stored_config hal f \<and>
    hw_key (aes_st w) = bytes_to_be_words (channel_psk (stored_config hal f)) \<and>
    next_packet_id w = 0 \<and> online w \<and> (\<forall>a b. flood_was_seen a b (flood_st w) \<longleftrightarrow> a = 0 \<and> b = 0) \<and>
    s_params (lora_st w) = \<lparr>sf = 11, bw_hz = 250000, cr = 5, freq_hz = 869525000\<rparr>"
  using main_boot_result [OF assms] by (auto simp: flood_was_seen_iff)

lemma demo_clock:
  assumes "\<And>h fl. env_flag e h fl = (fl \<noteq> RfBusys \<and> fl \<noteq> VosBusy)"
  obtains h' where "SystemClock_Config_LL e h = Inr h'"
proof -
  have "spin_until e fl (fl \<noteq> RfBusys \<and> fl \<noteq> VosBusy) h = Some (issue (PollFlag fl) h)" for fl h
    by (subst spin_until.simps) (simp add: assms Let_def)
  from this [of FlashLatencyIs2] this [of VosBusy] this [of MsiReady] this [of SysClkIsMsi] that show ?thesis
    by (simp add: SystemClock_Config_LL_def wait_flag_def)
qed

lemma demo_boot:
  assumes "\<And>h fl. env_flag e h fl = (fl \<noteq> RfBusys \<and> fl \<noteq> VosBusy)"
  obtains w where "main_boot e hal f world_reset = Inr w"
proof -
  from demo_clock [OF assms] obtain h' where "SystemClock_Config_LL e (hist world_reset) = Inr h'"
    by blast
  with that show ?thesis
    by (cases "serial_init e (serial_st world_reset) (issue (Setup HalInit) h')") (simp add: main_boot_def)
qed

theorem main_boot_correct_witness:
  "\<exists>w. main_boot demo_tx_env demo_flash (False, (\<lambda>_. 0), 8) world_reset = Inr w \<and> world_inv demo_tx_env w \<and>
    freq_hz (s_params (lora_st w)) = 869525000"
proof -
  obtain w where b: "main_boot demo_tx_env demo_flash (False, (\<lambda>_. 0), 8) world_reset = Inr w"
    by (rule demo_boot [OF demo_tx_env_simps(3)])
  from main_boot_correct [OF b] b show ?thesis by auto
qed

lemma ctr_spec_xor:
  assumes "i < m" and "i < n" and "i < length p" and "i < length q"
  shows "ctr_spec e key pid frm m p ! i XOR ctr_spec e key pid frm n q ! i = p ! i XOR q ! i"
proof (rule bit_word_eqI)
  fix k
  show "bit (ctr_spec e key pid frm m p ! i XOR ctr_spec e key pid frm n q ! i) k \<longleftrightarrow> bit (p ! i XOR q ! i) k"
    using assms by (auto simp: ctr_spec_def bit_xor_iff)
qed

text \<open>
  C36. The packet counter restarts at 0, so the keystream repeats after every restart: for the first
  packets sent after two starts of the same node, the XOR of the two encrypted bodies is the XOR of
  the two plain messages.
\<close>

theorem restart_repeats_keystream:
  assumes "main_boot e hal f world_reset = Inr w1" and "main_boot e' hal f world_reset = Inr w2"
    and "send_lora_packet e to1 a (length a) w1 = Inr (True, w1')"
    and "send_lora_packet e' to2 b (length b) w2 = Inr (True, w2')"
    and "length a \<le> 127" and "length b \<le> 127" and "cryp_ok e" and "cryp_ok e'" and "env_ecb e = env_ecb e'"
    and "i < 4 + length a" and "i < 4 + length b"
  shows "drop 16 (last (frames_sent (hist w1'))) ! i XOR drop 16 (last (frames_sent (hist w2'))) ! i =
    pb_message PORTNUM_TEXT_MESSAGE a ! i XOR pb_message PORTNUM_TEXT_MESSAGE b ! i"
proof -
  note b1 = main_boot_result [OF assms(1)] and b2 = main_boot_result [OF assms(2)]
  have "drop 16 (last (frames_sent (hist w1'))) = ctr_spec e (hw_key (aes_st w1)) 0 (node_id (stored_config hal f))
      (4 + length a) (pb_message PORTNUM_TEXT_MESSAGE a)"
    using send_correct [OF assms(3,5) order_refl b1(1) assms(7)] b1(2,4) by (simp add: text_frame_def)
  moreover have "drop 16 (last (frames_sent (hist w2'))) = ctr_spec e (hw_key (aes_st w1)) 0 (node_id (stored_config hal f))
      (4 + length b) (pb_message PORTNUM_TEXT_MESSAGE b)"
    using send_correct [OF assms(4,6) order_refl b2(1) assms(8)] b1(3) b2(2,3,4) ctr_spec_cong [OF assms(9)]
    by (simp add: text_frame_def)
  ultimately show ?thesis
    using ctr_spec_xor [OF assms(10,11)] assms(10,11) by simp
qed

theorem restart_repeats_keystream_witness:
  "\<exists>w w1 w2. main_boot demo_tx_env demo_flash (False, (\<lambda>_. 0), 8) world_reset = Inr w \<and>
     send_lora_packet demo_tx_env 9 [0x61] (length [0x61 :: u8]) w = Inr (True, w1) \<and>
     send_lora_packet demo_tx_env 9 [0x62] (length [0x62 :: u8]) w = Inr (True, w2) \<and>
     drop 16 (last (frames_sent (hist w1))) ! 4 XOR drop 16 (last (frames_sent (hist w2))) ! 4 = 3"
proof -
  obtain w where b: "main_boot demo_tx_env demo_flash (False, (\<lambda>_. 0), 8) world_reset = Inr w"
    by (rule demo_boot [OF demo_tx_env_simps(3)])
  have n: "length [c :: u8] \<le> 127" "length [c] \<le> length [c]" for c by simp_all
  note inv = main_boot_result(1) [OF b]
  obtain w1 where 1: "send_lora_packet demo_tx_env 9 [0x61] (length [0x61 :: u8]) w = Inr (True, w1)"
    using send_works [OF demo_tx_works n inv] by blast
  obtain w2 where 2: "send_lora_packet demo_tx_env 9 [0x62] (length [0x62 :: u8]) w = Inr (True, w2)"
    using send_works [OF demo_tx_works n inv] by blast
  have "drop 16 (last (frames_sent (hist w1))) ! 4 XOR drop 16 (last (frames_sent (hist w2))) ! 4 =
      pb_message PORTNUM_TEXT_MESSAGE [0x61] ! 4 XOR pb_message PORTNUM_TEXT_MESSAGE [0x62] ! 4"
    by (rule restart_repeats_keystream [OF b b 1 2 n(1) n(1) demo_tx_env_cryp demo_tx_env_cryp refl]) simp_all
  then have "drop 16 (last (frames_sent (hist w1))) ! 4 XOR drop 16 (last (frames_sent (hist w2))) ! 4 = 3"
    by (simp only:) (simp add: pb_message_def)
  with b 1 2 show ?thesis by blast
qed

end
