(* ===== verification/Interrupts.thy ===== *)
theory Interrupts
  imports Boot
begin

text \<open>
  The interrupts, and that the operations of the main loop commute with them: nothing but
  \<open>serial_get_byte\<close> looks at the receive ring and nothing but \<open>stm32wl_radio_rx_poll\<close> looks at the flags
  that the radio's callbacks set. Theory \<open>Preemption\<close> lets interrupts occur inside the operations.
\<close>

section \<open>What the interrupts change\<close>

text \<open>A state with another ring and other flags.\<close>

definition with_irq :: "serial_state \<Rightarrow> bool \<Rightarrow> bool \<Rightarrow> world \<Rightarrow> world" where
  "with_irq st p q w = w\<lparr>serial_st := st, drv := (drv w)\<lparr>rx_pending := p, tx_done_flag := q\<rparr>\<rparr>"

lemma irq_out:
  "(with_irq st p q w)\<lparr>line_buf := a1\<rparr> = with_irq st p q (w\<lparr>line_buf := a1\<rparr>)"
  "(with_irq st p q w)\<lparr>line_len := a2\<rparr> = with_irq st p q (w\<lparr>line_len := a2\<rparr>)"
  "(with_irq st p q w)\<lparr>g_config := a3\<rparr> = with_irq st p q (w\<lparr>g_config := a3\<rparr>)"
  "(with_irq st p q w)\<lparr>aes_st := a4\<rparr> = with_irq st p q (w\<lparr>aes_st := a4\<rparr>)"
  "(with_irq st p q w)\<lparr>hist := a5\<rparr> = with_irq st p q (w\<lparr>hist := a5\<rparr>)"
  "(with_irq st p q w)\<lparr>flood_st := a6\<rparr> = with_irq st p q (w\<lparr>flood_st := a6\<rparr>)"
  "(with_irq st p q w)\<lparr>lora_rx_buf := a7\<rparr> = with_irq st p q (w\<lparr>lora_rx_buf := a7\<rparr>)"
  "(with_irq st p q w)\<lparr>lora_tx_buf := a8\<rparr> = with_irq st p q (w\<lparr>lora_tx_buf := a8\<rparr>)"
  "(with_irq st p q w)\<lparr>led_st := a9\<rparr> = with_irq st p q (w\<lparr>led_st := a9\<rparr>)"
  "(with_irq st p q w)\<lparr>next_packet_id := a10\<rparr> = with_irq st p q (w\<lparr>next_packet_id := a10\<rparr>)"
  by (simp_all add: with_irq_def)

lemma irq_fields [simp]:
  "line_buf (with_irq st p q w) = line_buf w" "line_len (with_irq st p q w) = line_len w"
  "g_config (with_irq st p q w) = g_config w" "aes_st (with_irq st p q w) = aes_st w"
  "hist (with_irq st p q w) = hist w" "flood_st (with_irq st p q w) = flood_st w"
  "lora_rx_buf (with_irq st p q w) = lora_rx_buf w" "lora_tx_buf (with_irq st p q w) = lora_tx_buf w"
  "led_st (with_irq st p q w) = led_st w" "next_packet_id (with_irq st p q w) = next_packet_id w"
  "phy (with_irq st p q w) = phy w" "lora_st (with_irq st p q w) = lora_st w"
  "serial_st (with_irq st p q w) = st" "drv (with_irq st p q w) = (drv w)\<lparr>rx_pending := p, tx_done_flag := q\<rparr>"
  by (simp_all add: with_irq_def)

lemma irq_twice [simp]: "with_irq st p q (with_irq st' p' q' w) = with_irq st p q w"
  by (simp add: with_irq_def)

lemma irq_same: "with_irq (serial_st w) (rx_pending (drv w)) (tx_done_flag (drv w)) w = w"
  by (simp add: with_irq_def)

text \<open>The ring aside, \<open>st\<close> is the serial state of \<open>w\<close>, and the driver is registered.\<close>

definition irq_ok :: "hal_env \<Rightarrow> serial_state \<Rightarrow> world \<Rightarrow> bool" where
  "irq_ok e st w \<longleftrightarrow> uart_instance st = online w \<and> phy w = Some (stm32wl_ops e)"

section \<open>The operations do not look at it\<close>

lemma put_with_irq:
  "irq_ok e st w \<Longrightarrow> put_str s (with_irq st p q w) = with_irq st p q (put_str s w)"
  "irq_ok e st w \<Longrightarrow> put_num v (with_irq st p q w) = with_irq st p q (put_num v w)"
  "irq_ok e st w \<Longrightarrow> put_bytes d n (with_irq st p q w) = with_irq st p q (put_bytes d n w)"
  by (simp_all add: irq_ok_def put_str_def put_num_def put_bytes_def serial_puts_def serial_put_int16_def serial_write_def
      irq_out split: option.split)

lemma irq_ok_simps [simp]:
  "irq_ok e st (put_str s w) = irq_ok e st w" "irq_ok e st (put_num v w) = irq_ok e st w"
  "irq_ok e st (put_bytes d n w) = irq_ok e st w"
  "irq_ok e st (w\<lparr>line_buf := a1\<rparr>) = irq_ok e st w" "irq_ok e st (w\<lparr>line_len := a2\<rparr>) = irq_ok e st w"
  "irq_ok e st (w\<lparr>g_config := a3\<rparr>) = irq_ok e st w" "irq_ok e st (w\<lparr>aes_st := a4\<rparr>) = irq_ok e st w"
  "irq_ok e st (w\<lparr>hist := a5\<rparr>) = irq_ok e st w" "irq_ok e st (w\<lparr>flood_st := a6\<rparr>) = irq_ok e st w"
  by (simp_all add: irq_ok_def)

lemma tx_any_drv:
  "stm32wl_radio_tx e b n (d', h) =
     map_sum id (\<lambda>(ok, d, h). (ok, d', h)) (stm32wl_radio_tx e b n (d, h))"
  by (simp add: stm32wl_radio_tx_def Let_def split: option.split)

text \<open>Sending, with the state it leaves.\<close>

definition send_left :: "u32 \<Rightarrow> u8 list \<Rightarrow> aes_state \<Rightarrow> radio \<Rightarrow> world \<Rightarrow> world" where
  "send_left to buf aes' r w = w\<lparr>next_packet_id := next_packet_id w + 1, lora_tx_buf := buf, aes_st := aes',
     flood_st := flood_seen (node_id (g_config w)) (next_packet_id w) (flood_st w), drv := fst r, hist := snd r\<rparr>"

lemma send_eq:
  assumes "pb_encode_data (replicate 240 0) 240 PORTNUM_TEXT_MESSAGE t n = (pb, len)" and "len \<noteq> 0"
    and "b = memcpy_at (the (mesh_header_to_buf (Some (own_header to w)) (Some (lora_tx_buf w)))) 16 (take len pb)"
    and "phy w = Some (stm32wl_ops e)"
  shows "send_lora_packet e to t n w =
    run_bind (aes_ctr_crypt e (drop 16 b) len (next_packet_id w) (node_id (g_config w)) (aes_st w) (hist w))
      (\<lambda>(pl, aes', h'). run_bind (stm32wl_radio_tx e (Some (memcpy_at b 16 pl)) (16 + len) (drv w, h'))
         (\<lambda>(ok, r). Inr (ok, send_left to (memcpy_at b 16 pl) aes' r w)))"
  using assms by (simp add: send_lora_packet_def Let_def send_left_def split_def)

lemma send_left_irq:
  "fst r = drv w \<Longrightarrow> send_left to b a ((drv w)\<lparr>rx_pending := p, tx_done_flag := q\<rparr>, snd r) (with_irq st p q w) =
     with_irq st p q (send_left to b a r w)"
  by (simp add: send_left_def with_irq_def)

lemma send_with_irq:
  assumes "irq_ok e st w"
  shows "send_lora_packet e to t n (with_irq st p q w) =
    map_sum id (map_prod id (with_irq st p q)) (send_lora_packet e to t n w)"
proof -
  have phy: "phy w = Some (stm32wl_ops e)" "phy (with_irq st p q w) = Some (stm32wl_ops e)"
    using assms by (simp_all add: irq_ok_def)
  have o: "own_header x (with_irq st p q w) = own_header x w" for x by (simp add: own_header_def)
  obtain pb len where enc: "pb_encode_data (replicate 240 0) 240 PORTNUM_TEXT_MESSAGE t n = (pb, len)" by fastforce
  let ?b = "memcpy_at (the (mesh_header_to_buf (Some (own_header to w)) (Some (lora_tx_buf w)))) 16 (take len pb)"
  let ?d = "(drv w)\<lparr>rx_pending := p, tx_done_flag := q\<rparr>"
  show ?thesis
  proof (cases "len = 0")
    case True
    then show ?thesis by (simp add: send_lora_packet_def enc Let_def)
  next
    case False
    note eq = send_eq [OF enc False refl phy(1), of to] send_eq [OF enc False refl phy(2), of to, unfolded o irq_fields]
    show ?thesis
    proof (cases "aes_ctr_crypt e (drop 16 ?b) len (next_packet_id w) (node_id (g_config w)) (aes_st w) (hist w)")
      case (Inl f)
      then show ?thesis unfolding eq by simp
    next
      case (Inr r)
      obtain pl aes' h' where r: "r = (pl, aes', h')" by (metis prod_cases3)
      let ?tx = "\<lambda>d. stm32wl_radio_tx e (Some (memcpy_at ?b 16 pl)) (16 + len) (d, h')"
      have tx: "?tx ?d = map_sum id (\<lambda>(ok, d, h). (ok, ?d, h)) (?tx (drv w))" by (rule tx_any_drv)
      show ?thesis
      proof (cases "?tx (drv w)")
        case (Inl f)
        with tx Inr r show ?thesis unfolding eq by simp
      next
        case s: (Inr s)
        obtain ok d'' h'' where s': "s = (ok, d'', h'')" by (metis prod_cases3)
        have "d'' = drv w" using tx_uart s s' by blast
        with send_left_irq [of "(d'', h'')" w] tx Inr r s s' show ?thesis unfolding eq by simp
      qed
    qed
  qed
qed

lemma signal_with_irq:
  assumes "irq_ok e st w"
  shows "lora_last_rssi (phy w) a0 a (d\<lparr>rx_pending := p, tx_done_flag := q\<rparr>, h) = lora_last_rssi (phy w) a0 a (d, h)"
    and "lora_last_snr (phy w) b0 b (d\<lparr>rx_pending := p, tx_done_flag := q\<rparr>, h) = lora_last_snr (phy w) b0 b (d, h)"
  using assms by (simp_all add: irq_ok_def)

lemma info_with_irq:
  assumes "irq_ok e st w"
  shows "info_line (with_irq st p q w) = with_irq st p q (info_line w)"
  by (simp add: info_line_def Let_def put_with_irq(1,2) [where e = e and st = st] signal_with_irq [OF assms] assms)

lemma show_with_irq:
  assumes "irq_ok e st w"
  shows "show_text d n (with_irq st p q w) = with_irq st p q (show_text d n w)"
  by (simp add: show_text_def Let_def put_with_irq [where e = e and st = st] signal_with_irq [OF assms] assms)

lemma irq_ok_show [simp]: "irq_ok e st (show_text d n w) = irq_ok e st w"
  by (simp add: irq_ok_def)

lemma irq_ok_sent: "send_lora_packet e' to t n w = Inr (ok, w') \<Longrightarrow> irq_ok e st w' = irq_ok e st w"
  by (simp add: irq_ok_def send_keeps)

lemma handle_line_with_irq:
  assumes "irq_ok e st w"
  shows "handle_line e (with_irq st p q w) = map_sum id (with_irq st p q) (handle_line e w)"
proof -
  have s: "run_bind (send_lora_packet e MESH_BROADCAST_ID (line_buf w) (line_len w) (with_irq st p q w)) k =
      map_sum id (with_irq st p q) (run_bind (send_lora_packet e MESH_BROADCAST_ID (line_buf w) (line_len w) w) k)"
    if "k = (\<lambda>(ok, w1). Inr ((put_str (bytes_of (if ok then ''Sent.'' else ''TX failed.'') @ crlf) w1)\<lparr>line_len := 0\<rparr>))" for k
  proof (cases "send_lora_packet e MESH_BROADCAST_ID (line_buf w) (line_len w) w")
    case (Inr r)
    obtain ok w1 where r: "r = (ok, w1)" by fastforce
    then have "irq_ok e st w1" using Inr assms by (simp add: irq_ok_sent)
    with Inr r that show ?thesis
      by (simp add: send_with_irq [OF assms] irq_out put_with_irq(1) [where e = e and st = st])
  qed (simp add: send_with_irq [OF assms])
  have n: "put_str x (with_irq st p q (w\<lparr>g_config := c\<rparr>)) = with_irq st p q (put_str x (w\<lparr>g_config := c\<rparr>))" for x c
    by (rule put_with_irq(1) [where e = e]) (simp add: assms)
  have h: "put_str x (with_irq st p q w) = with_irq st p q (put_str x w)" for x
    by (rule put_with_irq [OF assms])
  show ?thesis
    unfolding handle_line_def Let_def irq_fields irq_out(3) n s [OF refl]
    by (simp add: irq_out(2) n h info_with_irq [OF assms]) auto
qed

lemma line_byte_with_irq:
  assumes "irq_ok e st w"
  shows "line_byte e b (with_irq st p q w) = map_sum id (with_irq st p q) (line_byte e b w)"
proof -
  have "handle_line e ((with_irq st p q w)\<lparr>line_buf := l\<rparr>) = map_sum id (with_irq st p q) (handle_line e (w\<lparr>line_buf := l\<rparr>))" for l
    using handle_line_with_irq [of e st "w\<lparr>line_buf := l\<rparr>"] assms by (simp add: irq_out)
  then show ?thesis by (simp add: line_byte_def irq_out)
qed

lemma deliver_with_irq:
  assumes "irq_ok e st w"
  shows "deliver_text e h d n (with_irq st p q w) = map_sum id (with_irq st p q) (deliver_text e h d n w)"
proof -
  have s: "send_lora_packet e to t k (with_irq st p q (show_text d n w)) =
      map_sum id (map_prod id (with_irq st p q)) (send_lora_packet e to t k (show_text d n w))" for to t k
    by (rule send_with_irq) (simp add: assms)
  show ?thesis
    unfolding deliver_text_def show_with_irq [OF assms] s Let_def
    by (cases "send_lora_packet e (from_id h) (bytes_of ''pong'' @ [0]) 4 (show_text d n w)") auto
qed

lemma receive_with_irq:
  assumes "irq_ok e st w"
  shows "receive_packet e h n (with_irq st p q w) = map_sum id (with_irq st p q) (receive_packet e h n w)"
proof (cases "aes_ctr_crypt e (take (n - 16) (drop 16 (lora_rx_buf w))) (n - 16) (packet_id h) (from_id h) (aes_st w) (hist w)")
  case (Inr r)
  obtain x a g where r: "r = (x, a, g)" by (metis prod_cases3)
  have "deliver_text e h y k (with_irq st p q (w\<lparr>aes_st := a, hist := g\<rparr>)) =
      map_sum id (with_irq st p q) (deliver_text e h y k (w\<lparr>aes_st := a, hist := g\<rparr>))" for y k
    by (rule deliver_with_irq) (simp add: assms)
  with Inr r show ?thesis
    by (cases "pb_decode_data x (n - 16)") (auto simp: receive_packet_def Let_def irq_out split: prod.splits)
qed (simp add: receive_packet_def Let_def)

lemma forward_with_irq:
  assumes "irq_ok e st w"
  shows "forward_packet e n (with_irq st p q w) = map_sum id (with_irq st p q) (forward_packet e n w)"
proof -
  have phy: "phy w = Some (stm32wl_ops e)" using assms by (simp add: irq_ok_def)
  obtain buf where buf: "flood_prepare_forward (Some (lora_rx_buf w)) n (ucast (node_id (g_config w) AND 0xFF)) = Some buf"
    by (cases "flood_prepare_forward (Some (lora_rx_buf w)) n (ucast (node_id (g_config w) AND 0xFF))")
      (auto simp: flood_prepare_forward_def mesh_header_to_buf_def split: if_splits)
  let ?d = "(drv w)\<lparr>rx_pending := p, tx_done_flag := q\<rparr>"
  let ?tx = "\<lambda>d. stm32wl_radio_tx e (Some buf) n (d, hist w)"
  have tx: "?tx ?d = map_sum id (\<lambda>(ok, d, h). (ok, ?d, h)) (?tx (drv w))" by (rule tx_any_drv)
  show ?thesis
  proof (cases "?tx (drv w)")
    case (Inl f)
    with tx show ?thesis by (simp add: forward_packet_def buf phy Let_def)
  next
    case (Inr s)
    obtain ok d'' h'' where s: "s = (ok, d'', h'')" by (metis prod_cases3)
    have "d'' = drv w" using tx_uart Inr s by blast
    with tx Inr s show ?thesis by (simp add: forward_packet_def buf phy Let_def with_irq_def)
  qed
qed

lemma deliver_serial:
  "deliver_text e h d n w = Inr w' \<Longrightarrow> serial_st w' = serial_st w"
  by (auto simp: deliver_text_def Let_def run_bind_eq_Inr send_keeps(1) split: if_splits)

lemma irq_ok_received: "receive_packet e h n w = Inr w' \<Longrightarrow> irq_ok e st w \<Longrightarrow> irq_ok e st w'"
proof -
  assume r: "receive_packet e h n w = Inr w'" "irq_ok e st w"
  have "serial_st w' = serial_st w"
    using r(1) by (auto simp: receive_packet_def Let_def run_bind_eq_Inr dest!: deliver_serial split: prod.splits if_splits)
  with r show ?thesis using receive_drv [OF r(1)] by (simp add: irq_ok_def)
qed

lemma handle_packet_with_irq:
  assumes "irq_ok e st w"
  shows "handle_packet e n (with_irq st p q w) = map_sum id (with_irq st p q) (handle_packet e n w)"
proof (cases "n \<le> 16")
  case False
  let ?h = "header_of (lora_rx_buf w)"
  let ?w1 = "w\<lparr>flood_st := flood_seen (from_id ?h) (packet_id ?h) (flood_st w)\<rparr>"
  let ?r = "if to_id ?h = MESH_BROADCAST_ID \<or> to_id ?h = node_id (g_config w) then receive_packet e ?h n ?w1 else Inr ?w1"
  let ?f = "flood_should_forward (flood_st w) (Some (lora_rx_buf w)) n"
  have hp: "handle_packet e n w = run_bind ?r (\<lambda>w2. if ?f then forward_packet e n w2 else Inr w2)"
    using False by (simp add: handle_packet_def Let_def)
  have "receive_packet e ?h n (with_irq st p q ?w1) = map_sum id (with_irq st p q) (receive_packet e ?h n ?w1)"
    by (rule receive_with_irq) (simp add: assms)
  then have hp': "handle_packet e n (with_irq st p q w) =
      run_bind (map_sum id (with_irq st p q) ?r) (\<lambda>w2. if ?f then forward_packet e n w2 else Inr w2)"
    using False by (simp add: handle_packet_def Let_def irq_out)
  show ?thesis
  proof (cases ?r)
    case (Inl f)
    then show ?thesis unfolding hp hp' by (simp only: run_simps map_sum.simps id_apply)
  next
    case (Inr w2)
    then have "irq_ok e st w2" using assms by (auto dest: irq_ok_received split: if_splits)
    then show ?thesis unfolding hp hp' Inr by (simp add: forward_with_irq)
  qed
qed (simp add: handle_packet_def)

section \<open>The interrupts\<close>

text \<open>An interrupt: the UART's, with or without a byte, or one of the radio's callbacks from the HAL.\<close>

datatype irq = Uart_Irq bool u16 | Rx_Irq | Tx_Irq | Timeout_Irq

fun isr :: "irq \<Rightarrow> world \<Rightarrow> world" where
  "isr (Uart_Irq rxne rdr) w = w\<lparr>serial_st := USART1_IRQHandler rxne rdr (serial_st w)\<rparr>"
| "isr Rx_Irq w = w\<lparr>drv := HAL_SUBGHZ_RxCpltCallback (drv w)\<rparr>"
| "isr Tx_Irq w = w\<lparr>drv := HAL_SUBGHZ_TxCpltCallback (drv w)\<rparr>"
| "isr Timeout_Irq w = w\<lparr>drv := HAL_SUBGHZ_RxTxTimeoutCallback (drv w)\<rparr>"

definition irq_ring :: "irq \<Rightarrow> serial_state \<Rightarrow> serial_state" where
  "irq_ring i st = (case i of Uart_Irq rxne rdr \<Rightarrow> USART1_IRQHandler rxne rdr st | _ \<Rightarrow> st)"

lemma isr_with_irq:
  "isr i w = with_irq (irq_ring i (serial_st w)) (rx_pending (drv w) \<or> i = Rx_Irq) (tx_done_flag (drv w) \<or> i = Tx_Irq) w"
  by (cases i) (simp_all add: with_irq_def irq_ring_def HAL_SUBGHZ_RxCpltCallback_def HAL_SUBGHZ_TxCpltCallback_def
      HAL_SUBGHZ_RxTxTimeoutCallback_def)

lemma irq_ring_online [simp]: "uart_instance (irq_ring i st) = uart_instance st"
  by (simp add: irq_ring_def USART1_IRQHandler_def serial_push_byte_def Let_def split: irq.split)

text \<open>A part of the program that neither looks at the ring and the flags nor changes them.\<close>

locale unaware =
  fixes e :: hal_env and f :: "world \<Rightarrow> world run"
  assumes with_irq_out: "irq_ok e st w \<Longrightarrow> f (with_irq st p q w) = map_sum id (with_irq st p q) (f w)"
begin

lemma keeps:
  assumes "f w = Inr w'" and "phy w = Some (stm32wl_ops e)"
  shows "serial_st w' = serial_st w" and "rx_pending (drv w') = rx_pending (drv w)"
    and "tx_done_flag (drv w') = tx_done_flag (drv w)"
proof -
  have "irq_ok e (serial_st w) w" using assms(2) by (simp add: irq_ok_def)
  from with_irq_out [OF this, of "rx_pending (drv w)" "tx_done_flag (drv w)"] assms(1)
  have "with_irq (serial_st w) (rx_pending (drv w)) (tx_done_flag (drv w)) w' = w'" by (simp add: irq_same)
  then have s: "w' = with_irq (serial_st w) (rx_pending (drv w)) (tx_done_flag (drv w)) w'" ..
  show "serial_st w' = serial_st w" "rx_pending (drv w') = rx_pending (drv w)" "tx_done_flag (drv w') = tx_done_flag (drv w)"
    by (subst s, simp)+
qed

lemma interrupt_out:
  assumes "phy w = Some (stm32wl_ops e)"
  shows "f (isr i w) = map_sum id (isr i) (f w)"
proof -
  have "irq_ok e (irq_ring i (serial_st w)) w" using assms by (simp add: irq_ok_def)
  note run = with_irq_out [OF this, of "rx_pending (drv w) \<or> i = Rx_Irq" "tx_done_flag (drv w) \<or> i = Tx_Irq"]
  show ?thesis
  proof (cases "f w")
    case (Inr w')
    with run keeps [OF Inr assms] show ?thesis by (simp only: isr_with_irq map_sum.simps)
  qed (use run in \<open>simp add: isr_with_irq\<close>)
qed

end

interpretation terminal_unaware: unaware e "line_byte e b" for e b
  by unfold_locales (rule line_byte_with_irq)

interpretation packet_unaware: unaware e "handle_packet e n" for e n
  by unfold_locales (rule handle_packet_with_irq)

section \<open>The poll of the radio\<close>

definition radio_poll :: "world \<Rightarrow> nat \<times> world" where
  "radio_poll w =
     (case lora_rx_poll (phy w) (Some (lora_rx_buf w)) LORA_BUF_SIZE (drv w, hist w) of
        (n, buf, (drv', h)) \<Rightarrow> (n, w\<lparr>lora_rx_buf := the buf, drv := drv', hist := h\<rparr>))"

lemma rx_poll_unaware:
  "stm32wl_radio_rx_poll e b m (d\<lparr>tx_done_flag := q\<rparr>, h) =
     map_prod id (map_prod id (map_prod (\<lambda>d. d\<lparr>tx_done_flag := q\<rparr>) id)) (stm32wl_radio_rx_poll e b m (d, h))"
  by (cases b) (simp_all add: stm32wl_radio_rx_poll_def Let_def)

lemma radio_poll_isr:
  assumes "phy w = Some (stm32wl_ops e)" and "i \<noteq> Rx_Irq"
  shows "radio_poll (isr i w) = map_prod id (isr i) (radio_poll w)"
proof -
  have t: "isr i w = with_irq (irq_ring i (serial_st w)) (rx_pending (drv w)) (tx_done_flag (drv w) \<or> i = Tx_Irq) w" for w
    using assms(2) by (simp add: isr_with_irq)
  obtain n b d h where r: "stm32wl_radio_rx_poll e (Some (lora_rx_buf w)) 256 (drv w, hist w) = (n, b, (d, h))"
    by (metis prod_cases4)
  have "tx_done_flag d = tx_done_flag (drv w)"
    using r by (auto simp: stm32wl_radio_rx_poll_def Let_def split: if_splits)
  then show ?thesis
    using assms(1) r rx_poll_unaware [where d = "drv w" and h = "hist w" and q = "tx_done_flag (drv w) \<or> i = Tx_Irq"]
    by (simp add: t radio_poll_def with_irq_def)
qed

end
