(* ===== verification/Boot_Facts.thy ===== *)
theory Boot_Facts
  imports Boot
begin

text \<open>
  The state that start-up leaves, from the stages of \<open>main_boot\<close>: nothing was transmitted, nothing
  received and no line begun.
\<close>

section \<open>Start-up transmits nothing\<close>

lemma frames_append:
  "list_all (\<lambda>c. \<forall>bs. c \<noteq> ExecSetCmd RADIO_SET_TX bs) cs \<Longrightarrow> frames_sent (h @ cs) = frames_sent h"
proof (induction cs arbitrary: h)
  case (Cons c cs)
  have "frames_sent (h @ [c]) = frames_sent h"
    using Cons.prems frames_sent_issue [of c h] by (simp add: issue_def)
  then show ?case using Cons.IH [of "h @ [c]"] Cons.prems by simp
qed simp

lemma spin_frames:
  assumes "spin_until e fl v h = Some h'"
  shows "frames_sent h' = frames_sent h"
proof (rule spin_until.raw_induct [where P = "\<lambda>e fl v h h'. frames_sent h' = frames_sent h", OF _ assms])
  fix spin e fl v h h'
  assume "\<And>e fl v h h'. spin e fl v h = Some h' \<Longrightarrow> frames_sent h' = frames_sent h"
    and "(let h' = issue (PollFlag fl) h in if env_flag e h fl = v then Some h' else spin e fl v h') = Some h'"
  then show "frames_sent h' = frames_sent h"
    by (auto simp: Let_def frames_sent_issue split: if_splits)
qed

lemma clock_frames: "SystemClock_Config_LL e h = Inr h' \<Longrightarrow> frames_sent h' = frames_sent h"
proof -
  have "frames_sent h' = frames_sent h" if "wait_flag e fl v h = Inr h'" for fl v h h'
    using that by (auto simp: wait_flag_def dest: spin_frames split: option.splits)
  then show "SystemClock_Config_LL e h = Inr h' \<Longrightarrow> frames_sent h' = frames_sent h"
    by (fastforce simp: SystemClock_Config_LL_def run_bind_eq_Inr frames_sent_issue frames_append)
qed

lemma serial_init_frames: "serial_init e st h = (st', h') \<Longrightarrow> frames_sent h' = frames_sent h"
  by (auto simp: serial_init_def Let_def frames_sent_issue frames_append split: if_splits)

lemma radio_frames:
  "frames_sent (subghz_wait_busy e h) = frames_sent h" "frames_sent (clr_irq h) = frames_sent h"
  "frames_sent (set_rx h) = frames_sent h" "frames_sent (rf_ctrl_set_rx e h) = frames_sent h"
  "frames_sent (rf_ctrl_set_off e h) = frames_sent h" "frames_sent (rf_ctrl_init e h) = frames_sent h"
  "c \<noteq> RADIO_SET_TX \<Longrightarrow> frames_sent (set_cmd c bs h) = frames_sent h"
  by (rule wait_busy_invariant)
    (simp_all add: frames_sent_issue clr_irq_def set_rx_def set_cmd_def rf_ctrl_set_rx_def rf_ctrl_set_off_def rf_ctrl_init_def)

lemma apply_params_frames: "frames_sent (radio_apply_lora_params e f s b c h) = frames_sent h"
  by (simp add: radio_apply_lora_params_def apply_pa_tx_params_def tcxo_start_def Let_def radio_frames frames_sent_issue)

lemma init_frames: "stm32wl_radio_init e (d, h) = (ok, (d', h')) \<Longrightarrow> frames_sent h' = frames_sent h"
  by (auto simp: stm32wl_radio_init_def Let_def subghz_spi_init_before_reset_def radio_frames frames_sent_issue
      apply_params_frames)

lemma set_params_frames:
  "stm32wl_radio_set_freq e f (d, h) = (ok, (d', h')) \<Longrightarrow> frames_sent h' = frames_sent h"
  "stm32wl_radio_set_lora e s b c (d, h) = (ok, (d', h')) \<Longrightarrow> frames_sent h' = frames_sent h"
  by (auto simp: stm32wl_radio_set_freq_def stm32wl_radio_set_lora_def Let_def radio_frames frames_sent_issue split: if_splits)

text \<open>The stages of start-up.\<close>

lemma main_boot_stages:
  assumes "main_boot e hal f world_reset = Inr w"
  obtains h1 ser h2 h3 ok1 lora1 drv1 h4 ok2 lora2 h5 where
    "SystemClock_Config_LL e [] = Inr h1" "serial_init e serial_reset (issue (Setup HalInit) h1) = (ser, h2)"
    "snd (led_init led_reset h2) = h3"
    "lora_init (Some (stm32wl_ops e)) lora_reset (radio_drv_reset, h3) = (ok1, lora1, (drv1, h4))"
    "lora_set_region_preset (Some (stm32wl_ops e)) REGION_EU_868 MODEM_LONG_FAST lora1 (drv1, h4) =
       (ok2, lora2, (drv w, h5))"
    "serial_st w = ser" "line_len w = 0" "frames_sent (hist w) = frames_sent h5"
proof -
  obtain h1 where clk: "SystemClock_Config_LL e [] = Inr h1"
    using assms by (auto simp: main_boot_def run_bind_eq_Inr world_reset_def)
  obtain ser h2 where ser: "serial_init e serial_reset (issue (Setup HalInit) h1) = (ser, h2)" by fastforce
  let ?w1 = "world_reset\<lparr>serial_st := ser, hist := h2, phy := Some (stm32wl_ops e)\<rparr>"
  have w: "w = put_str (bytes_of ''mesh init done, loop'' @ crlf)
      (put_str (bytes_of ''Meshtastic_mini started'' @ crlf) (mesh_mini_init e hal f ?w1))"
    using assms clk ser
    by (simp add: main_boot_def radio_stm32wl_register_def radio_phy_set_ops_def) (simp add: world_reset_def)
  let ?h3 = "snd (led_init led_reset h2)"
  obtain ok1 lora1 drv1 h4 where i1: "lora_init (Some (stm32wl_ops e)) lora_reset (radio_drv_reset, ?h3) = (ok1, lora1, (drv1, h4))"
    by (metis prod_cases4)
  obtain ok2 lora2 drv2 h5 where i2:
    "lora_set_region_preset (Some (stm32wl_ops e)) REGION_EU_868 MODEM_LONG_FAST lora1 (drv1, h4) = (ok2, lora2, (drv2, h5))"
    by (metis prod_cases4)
  have m: "hist (mesh_mini_init e hal f ?w1) = h5" "serial_st (mesh_mini_init e hal f ?w1) = ser"
    "line_len (mesh_mini_init e hal f ?w1) = 0" "drv (mesh_mini_init e hal f ?w1) = drv2"
    using i1 i2 by (simp_all add: mesh_mini_init_def Let_def split_def world_reset_def)
  have "drv w = drv2" by (simp add: w m)
  with i2 show ?thesis
    by (intro that [OF clk ser refl i1]) (simp_all add: w m)
qed

lemma main_boot_idle:
  assumes "main_boot e hal f world_reset = Inr w"
  shows "frames_sent (hist w) = []" and "ring_contents (serial_st w) = []" and "line_text w = []"
    and "last_rssi (drv w) = 0" and "last_snr (drv w) = 0" and "\<not> rx_pending (drv w)"
proof -
  obtain h1 ser h2 h3 ok1 lora1 drv1 h4 ok2 lora2 h5 where st:
    "SystemClock_Config_LL e [] = Inr h1" "serial_init e serial_reset (issue (Setup HalInit) h1) = (ser, h2)"
    "snd (led_init led_reset h2) = h3"
    "lora_init (Some (stm32wl_ops e)) lora_reset (radio_drv_reset, h3) = (ok1, lora1, (drv1, h4))"
    "lora_set_region_preset (Some (stm32wl_ops e)) REGION_EU_868 MODEM_LONG_FAST lora1 (drv1, h4) =
       (ok2, lora2, (drv w, h5))"
    "serial_st w = ser" "line_len w = 0" "frames_sent (hist w) = frames_sent h5"
    by (rule main_boot_stages [OF assms])
  have "frames_sent [] = []" by (simp add: frames_sent_def air_def)
  then have "frames_sent h3 = []"
    using clock_frames [OF st(1)] serial_init_frames [OF st(2)] st(3) by (auto simp: led_init_def frames_sent_issue)
  then have "frames_sent h4 = []"
    using st(4) by (auto simp: lora_init_def radio_phy_init_def current_ops_def stm32wl_ops_def Let_def
        dest!: init_frames split: prod.splits if_splits)
  then show "frames_sent (hist w) = []"
    unfolding st(8) using st(5) by (auto simp: lora_set_region_preset_def radio_phy_set_freq_def radio_phy_set_lora_def
        current_ops_def stm32wl_ops_def Let_def dest!: set_params_frames split: prod.splits if_splits)
  have "rx_head ser = 0" "rx_tail ser = 0"
    using st(2) by (auto simp: serial_init_def Let_def serial_reset_def split: if_splits)
  then show "ring_contents (serial_st w) = []" by (simp add: st(6) ring_contents_def ring_count_def)
  show "line_text w = []" by (simp add: st(7) line_text_def)
  have "drv w = drv1"
    using st(5) by (auto simp: lora_set_region_preset_def radio_phy_set_freq_def radio_phy_set_lora_def current_ops_def
        stm32wl_ops_def Let_def dest!: set_freq_drv set_lora_drv split: prod.splits if_splits)
  moreover have "last_rssi drv1 = 0 \<and> last_snr drv1 = 0 \<and> \<not> rx_pending drv1"
    using st(4) by (auto simp: lora_init_def radio_phy_init_def current_ops_def stm32wl_ops_def Let_def
        stm32wl_radio_init_def lora_reset_def split: prod.splits if_splits)
  ultimately show "last_rssi (drv w) = 0" "last_snr (drv w) = 0" "\<not> rx_pending (drv w)" by simp_all
qed

end
