(* ===== verification/Loop_Phases.thy ===== *)
theory Loop_Phases
  imports Interrupts Boot_Facts Traces
begin

text \<open>
  The main loop of \<open>Core/main_loop.c\<close> in small steps, with the interrupts between any two of them: the
  LED, each byte from the terminal, the poll of the radio and the handling of the packet are one step
  each. \<open>Preemption\<close> shows that interrupts inside a step are as good as interrupts before or after it.
\<close>

section \<open>The steps of the loop\<close>

text \<open>
  Where the main loop is: before the LED, in \<open>uart_rx_line_poll\<close>, before \<open>lora_rx_poll\<close>, or with the
  packet this gave, by its length or, in the abstract node, by its bytes.
\<close>

datatype 'p phase = Top | Terminal | Radio | Handling 'p

datatype loop_event = Typed u8 | Consumes u8 | Polls "u8 list" "u16 \<times> u8" | Silent

fun irq_event :: "irq \<Rightarrow> loop_event" where
  "irq_event (Uart_Irq rxne rdr) = (if rxne then Typed (ucast (rdr AND 0xFF)) else Silent)"
| "irq_event _ = Silent"

inductive loop_work :: "hal_env \<Rightarrow> nat phase \<times> world \<Rightarrow> loop_event \<Rightarrow> nat phase \<times> world \<Rightarrow> bool" for e :: hal_env where
  begins: "led_tick e (led_st w) (hist w) = (led', h) \<Longrightarrow>
    loop_work e (Top, w) Silent (Terminal, w\<lparr>led_st := led', hist := h\<rparr>)"
| takes: "serial_next (serial_st w) = Some (b, st') \<Longrightarrow> line_byte e b (w\<lparr>serial_st := st'\<rparr>) = Inr w' \<Longrightarrow>
    loop_work e (Terminal, w) (Consumes b) (Terminal, w')"
| drained: "serial_next (serial_st w) = None \<Longrightarrow> loop_work e (Terminal, w) Silent (Radio, w)"
| polls: "radio_poll w = (n, w') \<Longrightarrow>
    loop_work e (Radio, w) (Polls (take n (lora_rx_buf w')) (last_rssi (drv w'), last_snr (drv w'))) (Handling n, w')"
| handles: "handle_packet e n w = Inr w' \<Longrightarrow> loop_work e (Handling n, w) Silent (Top, w')"

inductive_simps loop_work_simps:
  "loop_work e (Top, w) ev s" "loop_work e (Terminal, w) (Consumes b) s" "loop_work e (Terminal, w) Silent s"
  "loop_work e (Radio, w) ev s" "loop_work e (Handling n, w) ev s"

inductive loop_step :: "hal_env \<Rightarrow> nat phase \<times> world \<Rightarrow> loop_event \<Rightarrow> nat phase \<times> world \<Rightarrow> bool" for e :: hal_env where
  work: "loop_work e s ev s' \<Longrightarrow> loop_step e s ev s'"
| interrupt: "loop_step e (ph, w) (irq_event i) (ph, isr i w)"

inductive_cases loop_stepE: "loop_step e s ev s'"

text \<open>
  The radio's interrupt handler passes on to the HAL's, which is not in the repository and a parameter
  here: the callbacks of the driver that it makes. A call is a sequence of interrupt steps.
\<close>

definition SUBGHZ_Radio_IRQHandler :: "(world \<Rightarrow> irq list) \<Rightarrow> world \<Rightarrow> world" where
  "SUBGHZ_Radio_IRQHandler HAL_SUBGHZ_IRQHandler w = fold isr (HAL_SUBGHZ_IRQHandler w) w"

lemma isr_trace: "trace (loop_step e) (ph, w) (map irq_event is) (ph, fold isr is w)"
  by (induction "is" arbitrary: w) (auto simp: trace_Cons_iff intro: loop_step.interrupt)

lemma radio_irq_trace:
  "trace (loop_step e) (ph, w) (map irq_event (hal w)) (ph, SUBGHZ_Radio_IRQHandler hal w)"
  by (simp add: SUBGHZ_Radio_IRQHandler_def isr_trace)

section \<open>The loop is its steps\<close>

definition received :: "hal_env \<Rightarrow> world \<Rightarrow> u8 list" where
  "received e w = (case poll_phase e w of Inl _ \<Rightarrow> [] | Inr (n, w1) \<Rightarrow> take n (lora_rx_buf w1))"

definition received_signal :: "hal_env \<Rightarrow> world \<Rightarrow> u16 \<times> u8" where
  "received_signal e w = (case poll_phase e w of Inl _ \<Rightarrow> (0, 0) | Inr (n, w1) \<Rightarrow> (last_rssi (drv w1), last_snr (drv w1)))"

lemma terminal_trace:
  "world_inv e w \<Longrightarrow> ring_contents (serial_st w) = bs \<Longrightarrow>
     trace (loop_work e) (Terminal, w) (map Consumes bs @ Silent # evs) s \<longleftrightarrow>
     (\<exists>w1. line_bytes e bs w = Inr w1 \<and> trace (loop_work e) (Radio, w1) evs s)"
proof (induction bs arbitrary: w)
  case Nil
  then have "serial_next (serial_st w) = None"
    using rx_queue.get_empty [of "serial_st w"] by (simp add: world_inv_def)
  then show ?case by (auto simp: trace_Cons_iff loop_work_simps)
next
  case (Cons b bs)
  have st: "serial_inv (serial_st w)" using Cons.prems(1) by (simp add: world_inv_def)
  obtain st' where st': "serial_next (serial_st w) = Some (b, st')"
    using rx_queue.get_front [OF st Cons.prems(2)] by blast
  then have d: "drop_byte w = w\<lparr>serial_st := st'\<rparr>" by (simp add: drop_byte_def)
  note inv = drop_byte_inv [OF Cons.prems]
  show ?case
  proof (cases "line_byte e b (drop_byte w)")
    case (Inl f)
    then show ?thesis using st' d by (simp add: trace_Cons_iff loop_work_simps)
  next
    case (Inr w')
    have "world_inv e w'" "ring_contents (serial_st w') = bs"
      using line_byte_keeps [OF Inr] inv by simp_all
    from Cons.IH [OF this] Inr st' d show ?thesis
      by (auto simp: trace_Cons_iff loop_work_simps)
  qed
qed

lemma iteration_trace:
  assumes "world_inv e w"
  shows "mesh_mini_loop e w = Inr w' \<longleftrightarrow>
    trace (loop_work e) (Top, w)
      (Silent # map Consumes (ring_contents (serial_st w)) @ [Silent, Polls (received e w) (received_signal e w), Silent])
      (Top, w')"
proof -
  obtain led' h where led: "led_tick e (led_st w) (hist w) = (led', h)" by fastforce
  let ?w0 = "w\<lparr>led_st := led', hist := h\<rparr>"
  have inv0: "world_inv e ?w0" using assms by (simp add: world_inv_def radio_inv_def)
  have ring: "ring_contents (serial_st ?w0) = ring_contents (serial_st w)" by simp
  have step: "loop_work e (Top, w) Silent s \<longleftrightarrow> s = (Terminal, ?w0)" for s
    using led by (auto simp: loop_work_simps)
  have poll: "poll_phase e w = run_bind (line_bytes e (ring_contents (serial_st w)) ?w0) (\<lambda>w1. Inr (radio_poll w1))"
    using led by (simp add: poll_phase_def radio_poll_def uart_rx_line_poll_bytes [OF inv0] case_prod_unfold)
  show ?thesis
  proof (cases "line_bytes e (ring_contents (serial_st w)) ?w0")
    case (Inl f)
    then have "poll_phase e w = Inl f" by (simp add: poll)
    with Inl terminal_trace [OF inv0 ring] step show ?thesis
      by (auto simp: mesh_mini_loop_phases trace_Cons_iff [of _ "(Top, w)"])
  next
    case (Inr w1)
    obtain n w2 where rp: "radio_poll w1 = (n, w2)" by fastforce
    have pp: "poll_phase e w = Inr (n, w2)" using Inr rp by (simp add: poll)
    have "mesh_mini_loop e w = handle_packet e n w2" by (simp add: mesh_mini_loop_phases pp)
    moreover have "trace (loop_work e) (Top, w) (Silent # map Consumes (ring_contents (serial_st w)) @ Silent # evs) s \<longleftrightarrow>
        trace (loop_work e) (Radio, w1) evs s" for evs s
      using terminal_trace [OF inv0 ring] step Inr by (auto simp: trace_Cons_iff [of _ "(Top, w)"])
    moreover have "loop_work e (Radio, w1) (Polls (received e w) (received_signal e w)) s \<longleftrightarrow> s = (Handling n, w2)" for s
      using rp by (auto simp: loop_work_simps received_def received_signal_def pp)
    ultimately show ?thesis
      by (simp add: trace_Cons_iff loop_work_simps)
  qed
qed

text \<open>
  C14. \<open>mesh_mini_loop\<close> is its steps: an uninterrupted pass through the phases consumes exactly the bytes
  in the ring, polls the radio once, handles what this gave, and ends in the state that the function
  returns. If there is no such pass the function does not return.
\<close>

theorem loop_is_its_steps:
  assumes "world_inv e w"
  shows "mesh_mini_loop e w = Inr w' \<longleftrightarrow>
    trace (loop_work e) (Top, w)
      (Silent # map Consumes (ring_contents (serial_st w)) @ [Silent, Polls (received e w) (received_signal e w), Silent])
      (Top, w')"
  by (rule iteration_trace [OF assms])

theorem loop_is_its_steps_witness:
  "\<exists>w' s. trace (loop_work demo_tx_env) (Top, demo_world) [Silent, Silent, Polls [] s, Silent] (Top, w')"
proof -
  have ring: "ring_contents (serial_st demo_world) = []"
    by (simp add: demo_world_def world_reset_def ring_contents_def ring_count_def serial_reset_def)
  have "\<not> rx_pending (drv demo_world)" by (simp add: demo_world_def world_reset_def radio_drv_reset_def)
  from poll_phase_idle [OF demo_world_inv ring this] obtain w1 where p: "poll_phase demo_tx_env demo_world = Inr (0, w1)" by blast
  then have "mesh_mini_loop demo_tx_env demo_world = Inr w1" "received demo_tx_env demo_world = []"
    by (simp_all add: mesh_mini_loop_phases handle_packet_def received_def)
  with loop_is_its_steps [OF demo_world_inv, of w1] ring show ?thesis
    by (intro exI [of _ w1] exI [of _ "received_signal demo_tx_env demo_world"]) simp
qed

section \<open>The invariant\<close>

lemma handle_packet_inv:
  assumes "handle_packet e n w = Inr w'" and "world_inv e w" and "n \<le> 255"
  shows "world_inv e w'"
proof (cases "n \<le> 16")
  case False
  let ?h = "header_of (lora_rx_buf w)"
  let ?w1 = "w\<lparr>flood_st := flood_seen (from_id ?h) (packet_id ?h) (flood_st w)\<rparr>"
  have inv1: "world_inv e ?w1" by (rule flood_seen_world_inv [OF assms(2)])
  from False assms(1) obtain w2 where
    "(if to_id ?h = MESH_BROADCAST_ID \<or> to_id ?h = node_id (g_config w) then receive_packet e ?h n ?w1 else Inr ?w1) = Inr w2"
    and f: "(if flood_should_forward (flood_st w) (Some (lora_rx_buf w)) n then forward_packet e n w2 else Inr w2) = Inr w'"
    by (auto simp: handle_packet_def Let_def run_bind_eq_Inr)
  then have inv2: "world_inv e w2" using inv1 by (auto dest: receive_inv split: if_splits)
  show ?thesis
  proof (cases "flood_should_forward (flood_st w) (Some (lora_rx_buf w)) n")
    case True
    then have "forward_packet e n w2 = Inr w'" using f by simp
    then show ?thesis using False assms(3) inv2 by (elim forward_result) auto
  qed (use f inv2 in simp)
qed (use assms in \<open>simp add: handle_packet_def\<close>)

lemma radio_poll_result:
  assumes "radio_poll w = (n, w')" and "world_inv e w"
  obtains b d h where "w' = w\<lparr>lora_rx_buf := b, drv := d, hist := h\<rparr>" "n \<le> 255" "world_inv e w'"
    "frames_sent h = frames_sent (hist w)" "uart_out h = uart_out (hist w)" "frames_done e h = frames_done e (hist w)"
proof -
  obtain m buf d h where rx: "stm32wl_radio_rx_poll e (Some (lora_rx_buf w)) 256 (drv w, hist w) = (m, buf, (d, h))"
    by (metis prod_cases4)
  have p: "phy w = Some (stm32wl_ops e)" "length (lora_rx_buf w) = 256" "length (rx_buf (drv w)) = 256"
    using assms(2) by (simp_all add: world_inv_def radio_inv_def)
  obtain b where b: "buf = Some b" "length b = 256"
    using rx_poll_buffer [OF rx] p by auto
  have w': "w' = w\<lparr>lora_rx_buf := b, drv := d, hist := h\<rparr>" "n = m"
    using assms(1) rx p(1) b(1) by (simp_all add: radio_poll_def)
  have "world_inv e w'"
    using assms(2) b rx_poll_inv [OF rx] p by (simp add: w'(1) world_inv_def radio_inv_def)
  moreover have "n \<le> 255" using rx_poll_bound [OF rx] w'(2) by simp
  ultimately show ?thesis
    using that w'(1) rx_poll_frames [OF rx] rx_poll_uart [OF rx] rx_poll_done [OF rx] by blast
qed

lemma isr_inv:
  assumes "world_inv e w"
  shows "world_inv e (isr i w)"
proof (cases i)
  case (Uart_Irq rxne rdr)
  have "serial_inv (serial_st w)" using assms by (simp add: world_inv_def)
  then have "serial_inv (USART1_IRQHandler rxne rdr (serial_st w))"
    by (simp add: USART1_IRQHandler_def serial_inv_push)
  with Uart_Irq assms show ?thesis by (simp add: world_inv_def)
qed (use assms in \<open>simp_all add: world_inv_def radio_inv_def HAL_SUBGHZ_RxCpltCallback_def
  HAL_SUBGHZ_TxCpltCallback_def HAL_SUBGHZ_RxTxTimeoutCallback_def\<close>)

text \<open>Taking a byte from the ring.\<close>

lemma take_byte:
  assumes "serial_next (serial_st w) = Some (b, st')" and "world_inv e w"
  shows "world_inv e (w\<lparr>serial_st := st'\<rparr>)" and "ring_contents (serial_st w) = b # ring_contents st'"
    and "drop_byte w = w\<lparr>serial_st := st'\<rparr>"
proof -
  have inv: "serial_inv (serial_st w)" using assms(2) by (simp add: world_inv_def)
  from rx_queue.get_SomeD [OF inv assms(1)]
  show c: "ring_contents (serial_st w) = b # ring_contents st'" by simp
  show d: "drop_byte w = w\<lparr>serial_st := st'\<rparr>" by (simp add: drop_byte_def assms(1))
  show "world_inv e (w\<lparr>serial_st := st'\<rparr>)" using drop_byte_inv(1) [OF assms(2) c] by (simp only: d)
qed

definition loop_inv :: "hal_env \<Rightarrow> nat phase \<times> world \<Rightarrow> bool" where
  "loop_inv e s \<longleftrightarrow> world_inv e (snd s) \<and> (\<forall>n. fst s = Handling n \<longrightarrow> n \<le> 255)"

lemma loop_step_inv:
  assumes "loop_step e s ev s'" and "loop_inv e s"
  shows "loop_inv e s'"
  using assms(1)
proof cases
  case work
  then show ?thesis
  proof cases
    case (takes w b st' w')
    have "world_inv e (w\<lparr>serial_st := st'\<rparr>)"
      using take_byte(1) [OF takes(4)] assms(2) takes(1) by (simp add: loop_inv_def)
    then show ?thesis using line_byte_keeps(2) [OF takes(5)] by (simp add: takes(3) loop_inv_def)
  next
    case (polls w n w')
    then show ?thesis using assms(2) by (auto simp: loop_inv_def elim: radio_poll_result)
  next
    case (handles n w w')
    then show ?thesis using assms(2) handle_packet_inv by (simp add: loop_inv_def)
  qed (use assms(2) in \<open>simp_all add: loop_inv_def world_inv_def radio_inv_def\<close>)
next
  case (interrupt ph w i)
  then show ?thesis using assms(2) by (auto simp: loop_inv_def intro: isr_inv)
qed

text \<open>What a step puts on the air; polling the radio and interrupts put nothing there.\<close>

lemma loop_step_air_ok:
  assumes "loop_step e s ev s'" and "loop_inv e s"
  shows "air_ok e (hist (snd s)) (hist (snd s'))"
  using assms(1)
proof cases
  case work
  then show ?thesis
  proof cases
    case (begins w led' h)
    then show ?thesis
      by (auto simp: led_tick_def Let_def frames_sent_issue frames_done_issue intro!: air_ok_none split: if_splits)
  next
    case (takes w b st' w')
    have "world_inv e (w\<lparr>serial_st := st'\<rparr>)"
      using take_byte(1) [OF takes(4)] assms(2) takes(1) by (simp add: loop_inv_def)
    from line_byte_air_ok [OF takes(5) this] show ?thesis by (simp add: takes(1,3))
  next
    case (polls w n w')
    have w: "world_inv e w" using assms(2) polls(1) by (simp add: loop_inv_def)
    have "air_ok e (hist w) (hist w')"
      by (rule radio_poll_result [OF polls(4) w]) (simp add: air_ok_none)
    then show ?thesis by (simp add: polls(1,3))
  next
    case (handles n w w')
    then show ?thesis using assms(2) handle_packet_air_ok by (simp add: loop_inv_def)
  qed simp
next
  case (interrupt ph w i)
  then show ?thesis by (cases i) (simp_all add: air_ok_none)
qed

lemma polls_no_frames:
  assumes "loop_step e s (Polls f g) s'" and "loop_inv e s"
  shows "frames_sent (hist (snd s')) = frames_sent (hist (snd s))"
  using assms(1)
proof cases
  case work
  then show ?thesis
  proof cases
    case (polls w n w')
    then show ?thesis using assms(2) by (auto simp: loop_inv_def elim: radio_poll_result)
  qed
next
  case (interrupt ph w i)
  then show ?thesis by (cases i) (auto split: if_splits)
qed

section \<open>The states of the running system\<close>

inductive sys_reachable :: "hal_env \<Rightarrow> 'f flash_hal \<Rightarrow> 'f \<Rightarrow> nat phase \<times> world \<Rightarrow> bool"
  for e :: hal_env and hal :: "'f flash_hal" and f :: 'f where
  boot: "main_boot e hal f world_reset = Inr w \<Longrightarrow> sys_reachable e hal f (Top, w)"
| step: "sys_reachable e hal f s \<Longrightarrow> loop_step e s ev s' \<Longrightarrow> sys_reachable e hal f s'"

text \<open>
  C12. In every state the node can reach from power-on, by any steps of the main loop and any interrupts
  between them, the ring indices, the line length, the seen-packet index and the buffer lengths are in
  range, the driver stays registered, and the packet being handled fits its buffer.
\<close>

theorem reachable_states_in_bounds:
  assumes "sys_reachable e hal f (ph, w)"
  shows "world_inv e w \<and> (\<forall>n. ph = Handling n \<longrightarrow> n \<le> 255)"
proof -
  have "loop_inv e s" if "sys_reachable e hal f s" for s
    using that
  proof induction
    case (boot w)
    then show ?case by (simp add: loop_inv_def main_boot_result(1))
  qed (rule loop_step_inv)
  from this [OF assms] show ?thesis by (simp add: loop_inv_def)
qed

theorem reachable_states_in_bounds_witness:
  "\<exists>w n. sys_reachable demo_tx_env demo_flash (False, (\<lambda>_. 0), 8) (Handling n, w) \<and> n \<le> 255 \<and> world_inv demo_tx_env w"
proof -
  let ?r = "sys_reachable demo_tx_env demo_flash (False, (\<lambda>_. 0), 8)"
  obtain w where b: "main_boot demo_tx_env demo_flash (False, (\<lambda>_. 0), 8) world_reset = Inr w"
    by (rule demo_boot [OF demo_tx_env_simps(3)])
  obtain led' h where led: "led_tick demo_tx_env (led_st w) (hist w) = (led', h)" by fastforce
  let ?w0 = "w\<lparr>led_st := led', hist := h\<rparr>"
  have "serial_next (serial_st w) = None"
    using rx_queue.get_empty main_boot_result(1) [OF b] main_boot_idle(2) [OF b] by (simp add: world_inv_def)
  then have e: "serial_next (serial_st ?w0) = None" by simp
  have "?r (Terminal, ?w0)"
    by (rule sys_reachable.step [OF sys_reachable.boot [OF b] loop_step.work [OF loop_work.begins [OF led]]])
  from sys_reachable.step [OF this loop_step.work [OF loop_work.drained [OF e]]] have 1: "?r (Radio, ?w0)" .
  obtain n w1 where p: "radio_poll (isr Rx_Irq ?w0) = (n, w1)" by fastforce
  have "?r (Radio, isr Rx_Irq ?w0)"
    by (rule sys_reachable.step [OF 1 loop_step.interrupt])
  from sys_reachable.step [OF this loop_step.work [OF loop_work.polls [OF p]]] have r: "?r (Handling n, w1)" .
  with reachable_states_in_bounds [OF r] show ?thesis by blast
qed

end
