(* ===== verification/Preemption.thy ===== *)
theory Preemption
  imports Loop_Phases
begin

text \<open>
  Interrupts at any point inside the steps of the main loop. The operations of \<open>Core/main_loop.c\<close> are
  written out once more, statement by statement, over the state and a schedule of the interrupts that
  occur at each point between two statements; that this changes nothing but what the interrupts
  themselves do is proved by carrying one relation through each of them.

  A point lies between any two calls of a function of another component. Inside such a call there is
  nothing to interleave: output, encryption and the flood ring are no part of what the interrupts change,
  and while the driver transmits, or reads a packet, the radio's interrupt is masked
  (\<open>tx_masks_radio\<close>, \<open>rx_poll_masks_radio\<close>).
\<close>

section \<open>The driver masks the radio's interrupt\<close>

text \<open>The calls in a history that mask and unmask it.\<close>

definition mask_calls :: "hw \<Rightarrow> hal_call list" where
  "mask_calls h = filter (\<lambda>c. c = NvicDisable SUBGHZ_Radio_IRQn \<or> c = NvicEnable SUBGHZ_Radio_IRQn) h"

lemma mask_calls_issue [mon_simps]:
  "mask_calls (issue c h) = mask_calls h @
     (if c = NvicDisable SUBGHZ_Radio_IRQn \<or> c = NvicEnable SUBGHZ_Radio_IRQn then [c] else [])"
  by (simp add: mask_calls_def issue_def)

lemma mask_calls_frame [mon_simps]:
  "mask_calls (subghz_wait_busy e h) = mask_calls h"
  "mask_calls (rf_ctrl_set_off e h) = mask_calls h" "mask_calls (rf_ctrl_set_rx e h) = mask_calls h"
  "mask_calls (rf_ctrl_set_tx e h) = mask_calls h" "mask_calls (apply_pa_tx_params e h) = mask_calls h"
  by (rule wait_busy_invariant, simp add: mask_calls_issue)
    (simp_all add: rf_ctrl_set_off_def rf_ctrl_set_rx_def rf_ctrl_set_tx_def apply_pa_tx_params_def set_cmd_def
      Let_def mask_calls_issue)

text \<open>An operation that masks the interrupt by its first call and unmasks it by its last.\<close>

definition masks_radio :: "hw \<Rightarrow> hw \<Rightarrow> bool" where
  "masks_radio h h' \<longleftrightarrow> (\<exists>g. h' = issue (NvicEnable SUBGHZ_Radio_IRQn) g \<and>
     extends (issue (NvicDisable SUBGHZ_Radio_IRQn) h) g \<and>
     mask_calls g = mask_calls h @ [NvicDisable SUBGHZ_Radio_IRQn])"

lemma extends_apply_pa [simp, intro]: "extends g h \<Longrightarrow> extends g (apply_pa_tx_params e h)"
  by (auto simp: apply_pa_tx_params_def set_cmd_def Let_def)

lemma prepare_masks:
  "extends (issue (NvicDisable SUBGHZ_Radio_IRQn) h) (tx_prepare e len h)"
  "mask_calls (tx_prepare e len h) = mask_calls h @ [NvicDisable SUBGHZ_Radio_IRQn]"
  "extends (issue (NvicDisable SUBGHZ_Radio_IRQn) h) (tx_started e bs len h)"
  "mask_calls (tx_started e bs len h) = mask_calls h @ [NvicDisable SUBGHZ_Radio_IRQn]"
  by (auto simp: tx_started_def tx_ready_def tx_prepare_def set_cmd_def clr_irq_def Let_def mon_simps)

lemma return_masks:
  "\<exists>g. return_to_rx e h = issue (NvicEnable SUBGHZ_Radio_IRQn) g \<and> extends h g \<and> mask_calls g = mask_calls h"
  by (auto simp: return_to_rx_def set_cmd_def clr_irq_def set_rx_def Let_def mon_simps)

lemma tx_masks_radio:
  assumes "stm32wl_radio_tx e (Some bs) len (d, h) = Inr (ok, (d', h'))" and "len \<le> 256"
  shows "masks_radio h h'"
  using assms
proof (cases rule: tx_cases)
  case (write_fails c)
  then show ?thesis
    using prepare_masks(1,2) [where e = e and len = len and h = h] by (auto simp: masks_radio_def mon_simps)
next
  case tx_fails
  then show ?thesis
    using prepare_masks(3,4) [where e = e and bs = bs and len = len and h = h] by (auto simp: masks_radio_def mon_simps)
next
  case (polled h5)
  let ?g = "tx_started e bs len h"
  have "mask_calls h5 = mask_calls (issue GetTick ?g)"
    by (rule tx_poll_invariant [OF polled(3)]) (simp_all add: mon_simps)
  moreover have "extends (issue (NvicDisable SUBGHZ_Radio_IRQn) h) h5"
  proof -
    obtain k where "poll_ends e (env_tick e ?g) (issue GetTick ?g) k ok h5" by (rule tx_poll_ends [OF polled(3)])
    moreover have "extends (issue (NvicDisable SUBGHZ_Radio_IRQn) h) (polled j (issue GetTick ?g))" for j
      using prepare_masks(3) [where e = e and bs = bs and len = len and h = h] by (induction j) (auto simp: poll_turn_def)
    ultimately show ?thesis by (auto simp: poll_ends_def poll_turn_def split: if_splits)
  qed
  ultimately show ?thesis
    using return_masks [of e h5] prepare_masks(4) [where e = e and bs = bs and len = len and h = h] polled(5)
    by (auto simp: masks_radio_def mon_simps intro: extends_trans)
qed

lemma rx_poll_masks_radio:
  assumes "stm32wl_radio_rx_poll e (Some b) m (d, h) = (n, b', (d', h'))" and "rx_pending d" and "0 < m"
  shows "masks_radio h h'"
  using assms by (auto simp: stm32wl_radio_rx_poll_def masks_radio_def Let_def unlock_irq_def rearm_rx_def set_rx_def
      clr_irq_def set_cmd_def mon_simps split: if_splits)

section \<open>Points of interruption\<close>

text \<open>The interrupts that occur at each of the points still ahead.\<close>

type_synonym preemptible = "world \<times> irq list list"

fun pause :: "preemptible \<Rightarrow> preemptible" where
  "pause (w, []) = (w, [])"
| "pause (w, is # iss) = (fold isr is w, iss)"

text \<open>One statement, and the point after it.\<close>

definition act :: "(world \<Rightarrow> world) \<Rightarrow> preemptible \<Rightarrow> preemptible" where
  "act f s = pause (f (fst s), snd s)"

text \<open>The state after an uninterrupted run and the interrupts of the first \<open>k\<close> points, with the later points.\<close>

definition after_irqs :: "nat \<Rightarrow> irq list list \<Rightarrow> world \<Rightarrow> preemptible" where
  "after_irqs k iss w = (fold isr (concat (take k iss)) w, drop k iss)"

section \<open>The operations, interruptible\<close>

definition send_lora_packet_i :: "hal_env \<Rightarrow> u32 \<Rightarrow> u8 list \<Rightarrow> nat \<Rightarrow> preemptible \<Rightarrow> (bool \<times> preemptible) run" where
  "send_lora_packet_i e to text text_len s =
     (let (pb_buf, pb_len) = pb_encode_data (replicate (LORA_BUF_SIZE - MESH_HEADER_SIZE) 0)
            (LORA_BUF_SIZE - MESH_HEADER_SIZE) PORTNUM_TEXT_MESSAGE text text_len;
          s0 = pause s
      in if pb_len = 0 then Inr (False, s0)
      else let h = own_header to (fst s0);
               s1 = act (\<lambda>w. w\<lparr>next_packet_id := next_packet_id w + 1\<rparr>) s0;
               s2 = act (\<lambda>w. w\<lparr>lora_tx_buf := the (mesh_header_to_buf (Some h) (Some (lora_tx_buf w)))\<rparr>) s1;
               s3 = act (\<lambda>w. w\<lparr>lora_tx_buf := memcpy_at (lora_tx_buf w) MESH_HEADER_SIZE (take pb_len pb_buf)\<rparr>) s2
        in run_bind (aes_ctr_crypt e (drop MESH_HEADER_SIZE (lora_tx_buf (fst s3))) pb_len (packet_id h) (from_id h)
                       (aes_st (fst s3)) (hist (fst s3)))
             (\<lambda>(payload, aes', hist').
                let s4 = act (\<lambda>w. w\<lparr>lora_tx_buf := memcpy_at (lora_tx_buf w) MESH_HEADER_SIZE payload,
                                    aes_st := aes', hist := hist'\<rparr>) s3;
                    s5 = act (\<lambda>w. w\<lparr>flood_st := flood_seen (from_id h) (packet_id h) (flood_st w)\<rparr>) s4
                in run_bind (lora_tx (phy (fst s5)) (Some (lora_tx_buf (fst s5))) (MESH_HEADER_SIZE + pb_len)
                               (drv (fst s5), hist (fst s5)))
                     (\<lambda>(ok, (drv', hist'')). Inr (ok, act (\<lambda>w. w\<lparr>drv := drv', hist := hist''\<rparr>) s5))))"

definition info_line_i :: "preemptible \<Rightarrow> preemptible" where
  "info_line_i s =
     (let params = (case lora_get_params (Some (s_params lora_reset)) (lora_st (fst s)) of
                      Some p \<Rightarrow> p | None \<Rightarrow> s_params lora_reset);
          s1 = act (put_num (ucast (freq_hz params div 1000000))) (act (put_str (bytes_of ''Freq: '')) (pause s));
          s2 = act (put_num (ucast (sf params))) (act (put_str (bytes_of '' MHz  SF: '')) s1);
          s3 = act (put_num (ucast (node_id (g_config (fst s2))))) (act (put_str (bytes_of ''  NodeId: '')) s2);
          s4 = act (put_str (bytes_of ''  Last RSSI: '')) s3;
          r = lora_last_rssi (phy (fst s4)) 0 0 (drv (fst s4), hist (fst s4));
          s5 = act (put_num r) (pause s4)
      in act (put_str (bytes_of '' dBm'' @ crlf)) s5)"

definition handle_line_i :: "hal_env \<Rightarrow> preemptible \<Rightarrow> preemptible run" where
  "handle_line_i e s =
     (let w = fst s in
      if line_len w \<ge> 2 \<and> (line_buf w ! 0 = of_char (CHR ''N'') \<or> line_buf w ! 0 = of_char (CHR ''n'')) then
        let c = line_buf w ! 1;
            s1 = (if c \<ge> of_char (CHR ''1'') \<and> c \<le> of_char (CHR ''9'')
                  then act (put_str (bytes_of ''node_id set'' @ crlf))
                         (act (\<lambda>w. w\<lparr>g_config := (g_config w)\<lparr>node_id := ucast (c - of_char (CHR ''0''))\<rparr>\<rparr>) s)
                  else s)
        in Inr (act (\<lambda>w. w\<lparr>line_len := 0\<rparr>) s1)
      else if line_len w = 4 \<and> take 4 (line_buf w) = bytes_of ''help'' then
        Inr (act (\<lambda>w. w\<lparr>line_len := 0\<rparr>) (act (put_str help_text) s))
      else if line_len w = 4 \<and> take 4 (line_buf w) = bytes_of ''info'' then
        Inr (act (\<lambda>w. w\<lparr>line_len := 0\<rparr>) (info_line_i s))
      else run_bind (send_lora_packet_i e MESH_BROADCAST_ID (line_buf w) (line_len w) s)
             (\<lambda>(ok, s1). Inr (act (\<lambda>w. w\<lparr>line_len := 0\<rparr>)
                                (act (put_str (bytes_of (if ok then ''Sent.'' else ''TX failed.'') @ crlf)) s1))))"

definition line_byte_i :: "hal_env \<Rightarrow> u8 \<Rightarrow> preemptible \<Rightarrow> preemptible run" where
  "line_byte_i e b s =
     (if b = 0x0D \<or> b = 0x0A then
        if line_len (fst s) = 0 then Inr s
        else handle_line_i e (act (\<lambda>w. w\<lparr>line_buf := (line_buf w)[line_len w := 0]\<rparr>) s)
      else if line_len (fst s) < LINE_BUF_SIZE - 1 then
        Inr (act (\<lambda>w. w\<lparr>line_len := line_len w + 1\<rparr>) (act (\<lambda>w. w\<lparr>line_buf := (line_buf w)[line_len w := b]\<rparr>) s))
      else Inr s)"

definition show_text_i :: "u8 list \<Rightarrow> nat \<Rightarrow> preemptible \<Rightarrow> preemptible" where
  "show_text_i text text_len s =
     (let s1 = act (put_bytes text text_len) (act (put_str (bytes_of ''RX: '')) s);
          s2 = act (put_str (bytes_of ''  RSSI: '')) s1;
          r = lora_last_rssi (phy (fst s2)) 0 0 (drv (fst s2), hist (fst s2));
          s3 = act (put_num r) (pause s2);
          s4 = act (put_str (bytes_of '' dBm  SNR: '')) s3;
          q = lora_last_snr (phy (fst s4)) 0 0 (drv (fst s4), hist (fst s4));
          s5 = act (put_num (scast q)) (pause s4)
      in act (put_str (bytes_of '' dB'' @ crlf)) s5)"

definition deliver_text_i :: "hal_env \<Rightarrow> mesh_lora_header \<Rightarrow> u8 list \<Rightarrow> nat \<Rightarrow> preemptible \<Rightarrow> preemptible run" where
  "deliver_text_i e h text text_len s =
     (let s1 = show_text_i text text_len s in
      if text_len \<noteq> 4 \<or> take 4 text \<noteq> bytes_of ''pong''
      then run_bind (send_lora_packet_i e (from_id h) (bytes_of ''pong'' @ [0]) 4 s1) (\<lambda>(_, s2). Inr s2)
      else Inr s1)"

definition receive_packet_i :: "hal_env \<Rightarrow> mesh_lora_header \<Rightarrow> nat \<Rightarrow> preemptible \<Rightarrow> preemptible run" where
  "receive_packet_i e h n s =
     (let enc_len = n - MESH_HEADER_SIZE;
          dec_buf = take enc_len (drop MESH_HEADER_SIZE (lora_rx_buf (fst s)));
          s0 = pause s
      in run_bind (aes_ctr_crypt e dec_buf enc_len (packet_id h) (from_id h) (aes_st (fst s0)) (hist (fst s0)))
           (\<lambda>(dec_buf', aes', hist').
              let s1 = act (\<lambda>w. w\<lparr>aes_st := aes', hist := hist'\<rparr>) s0
              in run_bind (pb_decode_data dec_buf' enc_len)
                   (\<lambda>(found, out).
                      if found \<and> pb_payload_len out > 0
                      then deliver_text_i e h (drop (the (pb_payload out)) dec_buf') (pb_payload_len out) (pause s1)
                      else Inr (pause s1))))"

definition forward_packet_i :: "hal_env \<Rightarrow> nat \<Rightarrow> preemptible \<Rightarrow> preemptible run" where
  "forward_packet_i e n s =
     (let s1 = act (\<lambda>w. w\<lparr>lora_rx_buf :=
                 the (flood_prepare_forward (Some (lora_rx_buf w)) n (ucast (node_id (g_config w) AND 0xFF)))\<rparr>) s
      in run_bind (lora_tx (phy (fst s1)) (Some (lora_rx_buf (fst s1))) n (drv (fst s1), hist (fst s1)))
           (\<lambda>(_, (drv', hist')). Inr (act (\<lambda>w. w\<lparr>drv := drv', hist := hist'\<rparr>) s1)))"

definition handle_packet_i :: "hal_env \<Rightarrow> nat \<Rightarrow> preemptible \<Rightarrow> preemptible run" where
  "handle_packet_i e n s =
     (if n \<le> MESH_HEADER_SIZE then Inr s
      else let h = header_of (lora_rx_buf (fst s));
               s0 = pause s;
               should_fwd = flood_should_forward (flood_st (fst s0)) (Some (lora_rx_buf (fst s0))) n;
               s1 = act (\<lambda>w. w\<lparr>flood_st := flood_seen (from_id h) (packet_id h) (flood_st w)\<rparr>) (pause s0)
        in run_bind
             (if to_id h = MESH_BROADCAST_ID \<or> to_id h = node_id (g_config (fst s1))
              then receive_packet_i e h n s1 else Inr s1)
             (\<lambda>s2. if should_fwd then forward_packet_i e n s2 else Inr s2))"

text \<open>
  The poll of the radio: between the test of the flag and the masking of the interrupt there is a point,
  and without a pending packet there is nothing but the return after the test.
\<close>

definition radio_poll_i :: "preemptible \<Rightarrow> nat \<times> preemptible" where
  "radio_poll_i s =
     (if rx_pending (drv (fst s)) then let s0 = pause s; (n, w') = radio_poll (fst s0) in (n, pause (w', snd s0))
      else (0, pause s))"

section \<open>An interrupted run lags behind by its interrupts\<close>

definition late :: "hal_env \<Rightarrow> irq list list \<Rightarrow> preemptible \<Rightarrow> world \<Rightarrow> bool" where
  "late e iss s w \<longleftrightarrow> phy w = Some (stm32wl_ops e) \<and> (\<exists>k. s = after_irqs k iss w)"

text \<open>What any number of interrupts leaves alone.\<close>

lemma isr_fields [simp]:
  "line_buf (isr i w) = line_buf w" "line_len (isr i w) = line_len w" "g_config (isr i w) = g_config w"
  "aes_st (isr i w) = aes_st w" "hist (isr i w) = hist w" "flood_st (isr i w) = flood_st w"
  "lora_rx_buf (isr i w) = lora_rx_buf w" "lora_tx_buf (isr i w) = lora_tx_buf w"
  "next_packet_id (isr i w) = next_packet_id w" "phy (isr i w) = phy w" "lora_st (isr i w) = lora_st w"
  "last_rssi (drv (isr i w)) = last_rssi (drv w)" "last_snr (drv (isr i w)) = last_snr (drv w)"
  by (simp_all add: isr_with_irq)

lemma fold_isr_keeps: "(\<And>i w. f (isr i w) = f w) \<Longrightarrow> f (fold isr is w) = f w"
  by (induction "is" arbitrary: w) simp_all

lemma late_reads: "late e iss s w \<Longrightarrow> (\<And>i w. f (isr i w) = f w) \<Longrightarrow> f (fst s) = f w"
  by (auto simp: late_def after_irqs_def fold_isr_keeps)

lemma late_fields:
  assumes "late e iss s w"
  shows "line_buf (fst s) = line_buf w" "line_len (fst s) = line_len w" "g_config (fst s) = g_config w"
    "aes_st (fst s) = aes_st w" "hist (fst s) = hist w" "flood_st (fst s) = flood_st w"
    "lora_rx_buf (fst s) = lora_rx_buf w" "lora_tx_buf (fst s) = lora_tx_buf w"
    "next_packet_id (fst s) = next_packet_id w" "phy (fst s) = phy w" "lora_st (fst s) = lora_st w"
    "own_header to (fst s) = own_header to w"
    "lora_last_rssi (phy w) a b (drv (fst s), h) = lora_last_rssi (phy w) a b (drv w, h)"
    "lora_last_snr (phy w) a b (drv (fst s), h) = lora_last_snr (phy w) a b (drv w, h)"
proof -
  show "line_buf (fst s) = line_buf w" "line_len (fst s) = line_len w" "aes_st (fst s) = aes_st w"
    "hist (fst s) = hist w" "flood_st (fst s) = flood_st w" "lora_rx_buf (fst s) = lora_rx_buf w"
    "lora_tx_buf (fst s) = lora_tx_buf w" "phy (fst s) = phy w" "lora_st (fst s) = lora_st w"
    and c: "g_config (fst s) = g_config w" and n: "next_packet_id (fst s) = next_packet_id w"
    by (rule late_reads [OF assms], simp)+
  show "own_header to (fst s) = own_header to w" by (simp add: own_header_def c n)
  have "phy w = Some (stm32wl_ops e)" using assms by (simp add: late_def)
  then show "lora_last_rssi (phy w) a b (drv (fst s), h) = lora_last_rssi (phy w) a b (drv w, h)"
    "lora_last_snr (phy w) a b (drv (fst s), h) = lora_last_snr (phy w) a b (drv w, h)"
    using late_reads [OF assms, of "\<lambda>w. last_rssi (drv w)"] late_reads [OF assms, of "\<lambda>w. last_snr (drv w)"] by simp_all
qed

lemma late_start: "phy w = Some (stm32wl_ops e) \<Longrightarrow> late e iss (w, iss) w"
  by (auto simp: late_def after_irqs_def intro: exI [of _ 0])

lemma late_pause [intro]: "late e iss s w \<Longrightarrow> late e iss (pause s) w"
proof -
  assume "late e iss s w"
  then obtain k where k: "phy w = Some (stm32wl_ops e)" "s = after_irqs k iss w" by (auto simp: late_def)
  have "\<exists>k. pause s = after_irqs k iss w"
  proof (cases "drop k iss")
    case Nil
    then show ?thesis using k(2) by (auto simp: after_irqs_def intro!: exI [of _ k])
  next
    case (Cons a rest)
    then have "k < length iss" by (simp add: not_le [symmetric] flip: drop_eq_Nil)
    then have "take (Suc k) iss = take k iss @ [a]" "drop (Suc k) iss = rest"
      using Cons by (simp_all add: take_Suc_conv_app_nth Cons_nth_drop_Suc [symmetric])
    then show ?thesis using k(2) Cons by (auto simp: after_irqs_def intro!: exI [of _ "Suc k"])
  qed
  with k(1) show ?thesis by (auto simp: late_def)
qed

text \<open>A statement that commutes with an interrupt keeps the relation.\<close>

lemma late_act [intro]:
  assumes "late e iss s w" and "\<And>i w. phy w = Some (stm32wl_ops e) \<Longrightarrow> f (isr i w) = isr i (f w)" and "phy (f w) = phy w"
  shows "late e iss (act f s) (f w)"
proof -
  from assms(1) obtain k where k: "phy w = Some (stm32wl_ops e)" "s = after_irqs k iss w" by (auto simp: late_def)
  have "f (fold isr is w) = fold isr is (f w)" if "phy w = Some (stm32wl_ops e)" for "is" w
    using that by (induction "is" arbitrary: w) (simp_all add: assms(2))
  then have "late e iss (f (fst s), snd s) (f w)"
    using k assms(3) by (auto simp: late_def after_irqs_def)
  then show ?thesis by (auto simp: act_def)
qed

lemma late_put [intro]:
  assumes "late e iss s w"
  shows "late e iss (act (put_str x) s) (put_str x w)" "late e iss (act (put_num v) s) (put_num v w)"
    "late e iss (act (put_bytes d n) s) (put_bytes d n w)"
proof -
  have ok: "irq_ok e (irq_ring i (serial_st w)) w" if "phy w = Some (stm32wl_ops e)" for i w
    using that by (simp add: irq_ok_def)
  show "late e iss (act (put_str x) s) (put_str x w)" "late e iss (act (put_num v) s) (put_num v w)"
    "late e iss (act (put_bytes d n) s) (put_bytes d n w)"
    by (rule late_act [OF assms], simp add: isr_with_irq put_with_irq [OF ok], simp)+
qed

lemma late_set [intro]:
  assumes "late e iss s w"
  shows "late e iss (act (\<lambda>w. w\<lparr>line_len := n\<rparr>) s) (w\<lparr>line_len := n\<rparr>)"
    "late e iss (act (\<lambda>w. w\<lparr>line_len := line_len w + 1\<rparr>) s) (w\<lparr>line_len := line_len w + 1\<rparr>)"
    "late e iss (act (\<lambda>w. w\<lparr>line_buf := (line_buf w)[line_len w := b]\<rparr>) s) (w\<lparr>line_buf := (line_buf w)[line_len w := b]\<rparr>)"
    "late e iss (act (\<lambda>w. w\<lparr>g_config := c (g_config w)\<rparr>) s) (w\<lparr>g_config := c (g_config w)\<rparr>)"
    "late e iss (act (\<lambda>w. w\<lparr>next_packet_id := next_packet_id w + 1\<rparr>) s) (w\<lparr>next_packet_id := next_packet_id w + 1\<rparr>)"
    "late e iss (act (\<lambda>w. w\<lparr>lora_tx_buf := t (lora_tx_buf w)\<rparr>) s) (w\<lparr>lora_tx_buf := t (lora_tx_buf w)\<rparr>)"
    "late e iss (act (\<lambda>w. w\<lparr>lora_tx_buf := t (lora_tx_buf w), aes_st := a, hist := h\<rparr>) s)
       (w\<lparr>lora_tx_buf := t (lora_tx_buf w), aes_st := a, hist := h\<rparr>)"
    "late e iss (act (\<lambda>w. w\<lparr>aes_st := a, hist := h\<rparr>) s) (w\<lparr>aes_st := a, hist := h\<rparr>)"
    "late e iss (act (\<lambda>w. w\<lparr>flood_st := f (flood_st w)\<rparr>) s) (w\<lparr>flood_st := f (flood_st w)\<rparr>)"
    "late e iss (act (\<lambda>w. w\<lparr>lora_rx_buf := r (lora_rx_buf w) (g_config w)\<rparr>) s)
       (w\<lparr>lora_rx_buf := r (lora_rx_buf w) (g_config w)\<rparr>)"
  by (rule late_act [OF assms], (case_tac i; simp), simp)+

text \<open>The driver leaves its flags alone when it transmits, so those set meanwhile stay.\<close>

lemma late_sent:
  assumes "late e iss s w"
  shows "late e iss (act (\<lambda>w. w\<lparr>drv := drv (fst s), hist := h\<rparr>) s) (w\<lparr>hist := h\<rparr>)"
proof -
  have "act (\<lambda>w. w\<lparr>drv := drv (fst s), hist := h\<rparr>) s = act (\<lambda>w. w\<lparr>hist := h\<rparr>) s"
    by (simp add: act_def)
  moreover have "late e iss (act (\<lambda>w. w\<lparr>hist := h\<rparr>) s) (w\<lparr>hist := h\<rparr>)"
    by (rule late_act [OF assms], (case_tac i; simp), simp)
  ultimately show ?thesis by simp
qed

lemma tx_result:
  obtains (hangs) f where "\<And>d. stm32wl_radio_tx e b n (d, h) = Inl f"
  | (sent) ok h' where "\<And>d. stm32wl_radio_tx e b n (d, h) = Inr (ok, (d, h'))"
proof (cases "stm32wl_radio_tx e b n (undefined, h)")
  case (Inl f)
  have "stm32wl_radio_tx e b n (d, h) = Inl f" for d
    by (subst tx_any_drv [of e b n d h undefined]) (simp add: Inl)
  then show ?thesis by (rule hangs)
next
  case (Inr r)
  obtain ok d h' where r: "r = (ok, d, h')" by (metis prod_cases3)
  have "stm32wl_radio_tx e b n (d, h) = Inr (ok, (d, h'))" for d
    by (subst tx_any_drv [of e b n d h undefined]) (simp add: Inr r)
  then show ?thesis by (rule sent)
qed

section \<open>Each operation keeps the relation\<close>

abbreviation late_run :: "hal_env \<Rightarrow> irq list list \<Rightarrow> preemptible run \<Rightarrow> world run \<Rightarrow> bool" where
  "late_run e iss \<equiv> rel_sum (=) (late e iss)"

lemma bind_late:
  assumes "rel_sum (=) A x y" and "\<And>a b. A a b \<Longrightarrow> rel_sum (=) B (f a) (g b)"
  shows "rel_sum (=) B (run_bind x f) (run_bind y g)"
  using assms by (cases x; cases y) auto

lemma bind_same:
  assumes "\<And>a. x = Inr a \<Longrightarrow> rel_sum (=) B (f a) (g a)"
  shows "rel_sum (=) B (run_bind x f) (run_bind x g)"
  using assms by (cases x) auto

lemma send_late:
  assumes "late e iss s w"
  shows "rel_sum (=) (rel_prod (=) (late e iss)) (send_lora_packet_i e to t n s) (send_lora_packet e to t n w)"
proof -
  obtain pb len where enc: "pb_encode_data (replicate 240 0) 240 PORTNUM_TEXT_MESSAGE t n = (pb, len)" by fastforce
  have s0: "late e iss (pause s) w" using assms by blast
  show ?thesis
  proof (cases "len = 0")
    case True
    then show ?thesis using s0 by (simp add: send_lora_packet_i_def send_lora_packet_def enc Let_def)
  next
    case False
    let ?h = "own_header to w"
    let ?w1 = "w\<lparr>next_packet_id := next_packet_id w + 1\<rparr>"
    let ?w2 = "?w1\<lparr>lora_tx_buf := the (mesh_header_to_buf (Some ?h) (Some (lora_tx_buf ?w1)))\<rparr>"
    let ?w3 = "?w2\<lparr>lora_tx_buf := memcpy_at (lora_tx_buf ?w2) 16 (take len pb)\<rparr>"
    define s3 where "s3 = act (\<lambda>w. w\<lparr>lora_tx_buf := memcpy_at (lora_tx_buf w) 16 (take len pb)\<rparr>)
      (act (\<lambda>w. w\<lparr>lora_tx_buf := the (mesh_header_to_buf (Some ?h) (Some (lora_tx_buf w)))\<rparr>)
        (act (\<lambda>w. w\<lparr>next_packet_id := next_packet_id w + 1\<rparr>) (pause s)))"
    have s3: "late e iss s3 ?w3" unfolding s3_def by (intro late_set s0)
    note f3 = late_fields [OF s3]
    have phy: "phy w = Some (stm32wl_ops e)" using assms by (simp add: late_def)
    let ?b = "lora_tx_buf ?w3"
    show ?thesis
    proof (cases "aes_ctr_crypt e (drop 16 ?b) len (next_packet_id w) (node_id (g_config w)) (aes_st w) (hist w)")
      case (Inl f)
      then show ?thesis
        using False
        by (simp add: send_lora_packet_i_def send_lora_packet_def Let_def enc late_fields [OF s0] s3_def [symmetric] f3)
    next
      case (Inr r)
      obtain pl a h where r: "r = (pl, a, h)" by (metis prod_cases3)
      let ?w4 = "?w3\<lparr>lora_tx_buf := memcpy_at (lora_tx_buf ?w3) 16 pl, aes_st := a, hist := h\<rparr>"
      let ?w5 = "?w4\<lparr>flood_st := flood_seen (node_id (g_config w)) (next_packet_id w) (flood_st ?w4)\<rparr>"
      define s5 where "s5 = act (\<lambda>w'. w'\<lparr>flood_st := flood_seen (node_id (g_config w)) (next_packet_id w) (flood_st w')\<rparr>)
        (act (\<lambda>w. w\<lparr>lora_tx_buf := memcpy_at (lora_tx_buf w) 16 pl, aes_st := a, hist := h\<rparr>) s3)"
      have s5: "late e iss s5 ?w5" unfolding s5_def by (intro late_set s3)
      show ?thesis
      proof (cases rule: tx_result [of e "Some (lora_tx_buf ?w5)" "16 + len" h])
        case (hangs f)
        then show ?thesis using False Inr phy
          by (simp add: send_lora_packet_i_def send_lora_packet_def Let_def enc late_fields [OF s0] s3_def [symmetric] f3 r
              s5_def [symmetric] late_fields [OF s5])
      next
        case (sent ok h')
        then show ?thesis using False Inr phy late_sent [OF s5, of h']
          by (simp add: send_lora_packet_i_def send_lora_packet_def Let_def enc late_fields [OF s0] s3_def [symmetric] f3 r
              s5_def [symmetric] late_fields [OF s5])
      qed
    qed
  qed
qed

lemma show_late [intro]:
  assumes "late e iss s w"
  shows "late e iss (show_text_i t n s) (show_text t n w)"
proof -
  let ?w2 = "put_str (bytes_of ''  RSSI: '') (put_bytes t n (put_str (bytes_of ''RX: '') w))"
  define s2 where "s2 = act (put_str (bytes_of ''  RSSI: '')) (act (put_bytes t n) (act (put_str (bytes_of ''RX: '')) s))"
  have s2: "late e iss s2 ?w2" unfolding s2_def by (intro late_put assms)
  let ?r = "lora_last_rssi (phy ?w2) 0 0 (drv ?w2, hist ?w2)"
  let ?w4 = "put_str (bytes_of '' dBm  SNR: '') (put_num ?r ?w2)"
  define s4 where "s4 = act (put_str (bytes_of '' dBm  SNR: '')) (act (put_num ?r) (pause s2))"
  have s4: "late e iss s4 ?w4" unfolding s4_def by (intro late_put late_pause s2)
  let ?q = "lora_last_snr (phy ?w4) 0 0 (drv ?w4, hist ?w4)"
  have "late e iss (act (put_str (bytes_of '' dB'' @ crlf)) (act (put_num (scast ?q)) (pause s4)))
      (put_str (bytes_of '' dB'' @ crlf) (put_num (scast ?q) ?w4))"
    by (intro late_put late_pause s4)
  moreover have "lora_last_rssi (phy (fst s2)) 0 0 (drv (fst s2), hist (fst s2)) = ?r"
    "lora_last_snr (phy (fst s4)) 0 0 (drv (fst s4), hist (fst s4)) = ?q"
    by (simp_all only: late_fields [OF s2] late_fields [OF s4])
  ultimately show ?thesis
    unfolding show_text_i_def show_text_def Let_def s2_def [symmetric] by (simp only: s4_def [symmetric])
qed

lemma info_late [intro]:
  assumes "late e iss s w"
  shows "late e iss (info_line_i s) (info_line w)"
proof -
  define p where "p = (case lora_get_params (Some (s_params lora_reset)) (lora_st w) of Some p \<Rightarrow> p | None \<Rightarrow> s_params lora_reset)"
  let ?w2 = "put_num (ucast (sf p)) (put_str (bytes_of '' MHz  SF: '')
    (put_num (ucast (freq_hz p div 1000000)) (put_str (bytes_of ''Freq: '') w)))"
  define s2 where "s2 = act (put_num (ucast (sf p))) (act (put_str (bytes_of '' MHz  SF: ''))
    (act (put_num (ucast (freq_hz p div 1000000))) (act (put_str (bytes_of ''Freq: '')) (pause s))))"
  have s2: "late e iss s2 ?w2" unfolding s2_def by (intro late_put late_pause assms)
  let ?w4 = "put_str (bytes_of ''  Last RSSI: '') (put_num (ucast (node_id (g_config ?w2))) (put_str (bytes_of ''  NodeId: '') ?w2))"
  define s4 where "s4 = act (put_str (bytes_of ''  Last RSSI: ''))
    (act (put_num (ucast (node_id (g_config ?w2)))) (act (put_str (bytes_of ''  NodeId: '')) s2))"
  have s4: "late e iss s4 ?w4" unfolding s4_def by (intro late_put s2)
  let ?r = "lora_last_rssi (phy ?w4) 0 0 (drv ?w4, hist ?w4)"
  have "late e iss (act (put_str (bytes_of '' dBm'' @ crlf)) (act (put_num ?r) (pause s4)))
      (put_str (bytes_of '' dBm'' @ crlf) (put_num ?r ?w4))"
    by (intro late_put late_pause s4)
  moreover have "lora_last_rssi (phy (fst s4)) 0 0 (drv (fst s4), hist (fst s4)) = ?r"
    by (simp only: late_fields [OF s4])
  ultimately show ?thesis
    unfolding info_line_i_def info_line_def Let_def late_fields(11) [OF assms] p_def [symmetric] s2_def [symmetric]
    by (simp only: late_fields(3) [OF s2] s4_def [symmetric])
qed

lemma late_ok: "late e iss s w \<Longrightarrow> late_run e iss (Inr s) (Inr w)"
  by simp

lemma late_if:
  "(P \<Longrightarrow> late e iss s w) \<Longrightarrow> (\<not> P \<Longrightarrow> late e iss s' w') \<Longrightarrow>
     late e iss (if P then s else s') (if P then w else w')"
  by simp

lemma late_run_if:
  "(P \<Longrightarrow> late_run e iss a b) \<Longrightarrow> (\<not> P \<Longrightarrow> late_run e iss c d) \<Longrightarrow>
     late_run e iss (if P then a else c) (if P then b else d)"
  by simp

lemma handle_line_late:
  assumes "late e iss s w"
  shows "late_run e iss (handle_line_i e s) (handle_line e w)"
proof -
  note f = late_fields [OF assms]
  have sent: "late_run e iss
      (run_bind (send_lora_packet_i e to t k s) (\<lambda>(ok, s1). Inr (act (\<lambda>w. w\<lparr>line_len := 0\<rparr>) (act (put_str (x ok)) s1))))
      (run_bind (send_lora_packet e to t k w) (\<lambda>(ok, w1). Inr ((put_str (x ok) w1)\<lparr>line_len := 0\<rparr>)))" for to t k x
    by (rule bind_late [OF send_late [OF assms]])
      (clarsimp split: prod.splits, rule late_set(1), rule late_put(1), assumption)
  show ?thesis
    unfolding handle_line_i_def handle_line_def Let_def f
    by (rule late_run_if late_ok late_set(1) late_if late_put(1) late_set(4) info_late sent assms)+
qed

lemma line_byte_late:
  assumes "late e iss s w"
  shows "late_run e iss (line_byte_i e b s) (line_byte e b w)"
  unfolding line_byte_i_def line_byte_def late_fields(2) [OF assms]
proof (intro late_run_if)
  show "late_run e iss (handle_line_i e (act (\<lambda>w. w\<lparr>line_buf := (line_buf w)[line_len w := 0]\<rparr>) s))
      (handle_line e (w\<lparr>line_buf := (line_buf w)[line_len w := 0]\<rparr>))"
    by (rule handle_line_late) (rule late_set(3) [OF assms])
  have "late e iss (act (\<lambda>w. w\<lparr>line_len := line_len w + 1\<rparr>) (act (\<lambda>w. w\<lparr>line_buf := (line_buf w)[line_len w := b]\<rparr>) s))
      ((w\<lparr>line_buf := (line_buf w)[line_len w := b]\<rparr>)\<lparr>line_len := line_len (w\<lparr>line_buf := (line_buf w)[line_len w := b]\<rparr>) + 1\<rparr>)"
    by (intro late_set assms)
  then show "late_run e iss (Inr (act (\<lambda>w. w\<lparr>line_len := line_len w + 1\<rparr>) (act (\<lambda>w. w\<lparr>line_buf := (line_buf w)[line_len w := b]\<rparr>) s)))
      (Inr (w\<lparr>line_buf := (line_buf w)[line_len w := b], line_len := line_len w + 1\<rparr>))"
    by simp
qed (use assms in simp_all)

lemma deliver_late:
  assumes "late e iss s w"
  shows "late_run e iss (deliver_text_i e h t n s) (deliver_text e h t n w)"
  unfolding deliver_text_i_def deliver_text_def Let_def
proof (intro late_run_if late_ok show_late assms)
  show "late_run e iss
      (run_bind (send_lora_packet_i e (from_id h) (bytes_of ''pong'' @ [0]) 4 (show_text_i t n s)) (\<lambda>(_, s2). Inr s2))
      (run_bind (send_lora_packet e (from_id h) (bytes_of ''pong'' @ [0]) 4 (show_text t n w)) (\<lambda>(_, w2). Inr w2))"
    by (rule bind_late [OF send_late [OF show_late [OF assms]]]) auto
qed

lemma receive_late:
  assumes "late e iss s w"
  shows "late_run e iss (receive_packet_i e h n s) (receive_packet e h n w)"
proof -
  have s0: "late e iss (pause s) w" using assms by blast
  show ?thesis
    unfolding receive_packet_i_def receive_packet_def Let_def late_fields [OF s0] late_fields(7) [OF assms]
  proof (rule bind_same, clarify, rule bind_same, clarify, rule late_run_if)
    fix d a g found out
    let ?s1 = "act (\<lambda>w. w\<lparr>aes_st := a, hist := g\<rparr>) (pause s)" and ?w1 = "w\<lparr>aes_st := a, hist := g\<rparr>"
    have s1: "late e iss (pause ?s1) ?w1" by (intro late_pause late_set s0)
    show "late_run e iss (deliver_text_i e h (drop (the (pb_payload out)) d) (pb_payload_len out) (pause ?s1))
        (deliver_text e h (drop (the (pb_payload out)) d) (pb_payload_len out) ?w1)"
      by (rule deliver_late [OF s1])
    show "late_run e iss (Inr (pause ?s1)) (Inr ?w1)" by (rule late_ok [OF s1])
  qed
qed

lemma forward_late:
  assumes "late e iss s w"
  shows "late_run e iss (forward_packet_i e n s) (forward_packet e n w)"
proof -
  let ?r = "\<lambda>b c. the (flood_prepare_forward (Some b) n (ucast (node_id c AND 0xFF)))"
  let ?w1 = "w\<lparr>lora_rx_buf := ?r (lora_rx_buf w) (g_config w)\<rparr>"
  define s1 where "s1 = act (\<lambda>w. w\<lparr>lora_rx_buf := ?r (lora_rx_buf w) (g_config w)\<rparr>) s"
  have s1: "late e iss s1 ?w1" unfolding s1_def by (rule late_set(10) [OF assms])
  have phy: "phy w = Some (stm32wl_ops e)" using assms by (simp add: late_def)
  show ?thesis
  proof (cases rule: tx_result [of e "Some (lora_rx_buf ?w1)" n "hist w"])
    case (hangs f)
    then show ?thesis using phy
      by (simp add: forward_packet_i_def forward_packet_def Let_def s1_def [symmetric] late_fields [OF s1])
  next
    case (sent ok h')
    then show ?thesis using phy late_sent [OF s1, of h']
      by (simp add: forward_packet_i_def forward_packet_def Let_def s1_def [symmetric] late_fields [OF s1])
  qed
qed

lemma handle_packet_late:
  assumes "late e iss s w"
  shows "late_run e iss (handle_packet_i e n s) (handle_packet e n w)"
  unfolding handle_packet_i_def handle_packet_def
proof (intro late_run_if late_ok assms)
  let ?h = "header_of (lora_rx_buf w)"
  let ?w1 = "w\<lparr>flood_st := flood_seen (from_id ?h) (packet_id ?h) (flood_st w)\<rparr>"
  let ?s1 = "act (\<lambda>w. w\<lparr>flood_st := flood_seen (from_id ?h) (packet_id ?h) (flood_st w)\<rparr>) (pause (pause s))"
  have s0: "late e iss (pause s) w" using assms by blast
  have s1: "late e iss ?s1 ?w1" by (intro late_set late_pause assms)
  have r: "late_run e iss (if c then receive_packet_i e ?h n ?s1 else Inr ?s1) (if c then receive_packet e ?h n ?w1 else Inr ?w1)" for c
    by (intro late_run_if receive_late late_ok s1)
  have f: "late_run e iss (if c then forward_packet_i e n s2 else Inr s2) (if c then forward_packet e n w2 else Inr w2)"
    if "late e iss s2 w2" for c s2 w2
    by (intro late_run_if forward_late late_ok that)
  show "late_run e iss
      (let h = header_of (lora_rx_buf (fst s)); s0 = pause s;
           should_fwd = flood_should_forward (flood_st (fst s0)) (Some (lora_rx_buf (fst s0))) n;
           s1 = act (\<lambda>w. w\<lparr>flood_st := flood_seen (from_id h) (packet_id h) (flood_st w)\<rparr>) (pause s0)
       in run_bind (if to_id h = MESH_BROADCAST_ID \<or> to_id h = node_id (g_config (fst s1)) then receive_packet_i e h n s1 else Inr s1)
            (\<lambda>s2. if should_fwd then forward_packet_i e n s2 else Inr s2))
      (let h = header_of (lora_rx_buf w);
           should_fwd = flood_should_forward (flood_st w) (Some (lora_rx_buf w)) n;
           w1 = w\<lparr>flood_st := flood_seen (from_id h) (packet_id h) (flood_st w)\<rparr>
       in run_bind (if to_id h = MESH_BROADCAST_ID \<or> to_id h = node_id (g_config w1) then receive_packet e h n w1 else Inr w1)
            (\<lambda>w2. if should_fwd then forward_packet e n w2 else Inr w2))"
    unfolding Let_def late_fields(7) [OF assms] late_fields [OF s0] late_fields [OF s1]
    by (rule bind_late [OF r f])
qed

section \<open>Interrupts inside the steps\<close>

lemma late_run_after:
  "late_run e iss r x \<Longrightarrow> \<exists>k. r = map_sum id (after_irqs k iss) x"
  by (cases r; cases x) (auto simp: late_def)

lemma pause_after: "\<exists>k. pause (w, iss) = after_irqs k iss w"
  by (cases iss) (auto simp: after_irqs_def intro: exI [of _ 0] exI [of _ 1])

lemma radio_poll_after:
  assumes "phy w = Some (stm32wl_ops e)"
  shows "\<exists>j k. radio_poll_i (w, iss) =
    (case radio_poll (fst (after_irqs j iss w)) of (n, w') \<Rightarrow> (n, after_irqs k (drop j iss) w'))"
proof (cases "rx_pending (drv w)")
  case True
  obtain j where j: "pause (w, iss) = after_irqs j iss w" using pause_after by blast
  obtain n w' where r: "radio_poll (fst (after_irqs j iss w)) = (n, w')" by fastforce
  obtain k where k: "pause (w', drop j iss) = after_irqs k (drop j iss) w'" using pause_after by blast
  have "snd (after_irqs j iss w) = drop j iss" by (simp add: after_irqs_def)
  then have "radio_poll_i (w, iss) = (n, after_irqs k (drop j iss) w')"
    using True j r k by (simp add: radio_poll_i_def Let_def)
  then show ?thesis using r by (intro exI [of _ j] exI [of _ k]) simp
next
  case False
  obtain k where k: "pause (w, iss) = after_irqs k iss w" using pause_after by blast
  have "radio_poll w = (0, w)"
    using False assms by (simp add: radio_poll_def stm32wl_radio_rx_poll_def)
  then have "radio_poll_i (w, iss) =
      (case radio_poll (fst (after_irqs 0 iss w)) of (n, w') \<Rightarrow> (n, after_irqs k (drop 0 iss) w'))"
    using False k by (simp add: radio_poll_i_def after_irqs_def)
  then show ?thesis by blast
qed

section \<open>Preempted steps are steps of the loop\<close>

lemma preempted_packet_trace:
  assumes "phy w = Some (stm32wl_ops e)" and "handle_packet_i e n (w, iss) = Inr (w', rest)"
  shows "\<exists>evs. trace (loop_step e) (Handling n, w) (Silent # evs) (Top, w')"
proof -
  obtain k where "handle_packet_i e n (w, iss) = map_sum id (after_irqs k iss) (handle_packet e n w)"
    using late_run_after [OF handle_packet_late [OF late_start [OF assms(1)]]] by blast
  with assms(2) obtain w1 where w1: "handle_packet e n w = Inr w1" "w' = fold isr (concat (take k iss)) w1"
    by (cases "handle_packet e n w") (auto simp: after_irqs_def)
  have "loop_step e (Handling n, w) Silent (Top, w1)"
    using w1(1) by (intro loop_step.work loop_work.handles)
  then show ?thesis using isr_trace [of e Top w1 "concat (take k iss)"] w1(2) by (auto simp: trace_Cons_iff)
qed

lemma preempted_byte_trace:
  assumes "phy w = Some (stm32wl_ops e)" and "serial_next (serial_st w) = Some (b, st')"
    and "line_byte_i e b (w\<lparr>serial_st := st'\<rparr>, iss) = Inr (w', rest)"
  shows "\<exists>evs. trace (loop_step e) (Terminal, w) (Consumes b # evs) (Terminal, w')"
proof -
  let ?w = "w\<lparr>serial_st := st'\<rparr>"
  have "phy ?w = Some (stm32wl_ops e)" using assms(1) by simp
  then obtain k where "line_byte_i e b (?w, iss) = map_sum id (after_irqs k iss) (line_byte e b ?w)"
    using late_run_after [OF line_byte_late [OF late_start]] by blast
  with assms(3) obtain w1 where w1: "line_byte e b ?w = Inr w1" "w' = fold isr (concat (take k iss)) w1"
    by (cases "line_byte e b ?w") (auto simp: after_irqs_def)
  have "loop_step e (Terminal, w) (Consumes b) (Terminal, w1)"
    using assms(2) w1(1) by (intro loop_step.work loop_work.takes)
  then show ?thesis using isr_trace [of e Terminal w1 "concat (take k iss)"] w1(2) by (auto simp: trace_Cons_iff)
qed

text \<open>
  C15. Interrupts inside the steps of the main loop are as good as interrupts between them. With any
  interrupts of the UART and the radio at each point between two statements of the processing of a byte, or
  of the handling of a packet with its output, sending and relaying, the outcome is that of the
  uninterrupted operation, and the state is the one it leaves with those interrupts, in their order, after
  it: none is lost. Polling the radio is as good as a poll after some of the interrupts that occur inside
  it and before the others.
\<close>

theorem interrupts_inside_steps:
  assumes "phy w = Some (stm32wl_ops e)"
  shows "(\<exists>k. line_byte_i e b (w, iss) = map_sum id (after_irqs k iss) (line_byte e b w)) \<and>
    (\<exists>k. handle_packet_i e n (w, iss) = map_sum id (after_irqs k iss) (handle_packet e n w)) \<and>
    (\<exists>j k. radio_poll_i (w, iss) =
       (case radio_poll (fst (after_irqs j iss w)) of (m, w') \<Rightarrow> (m, after_irqs k (drop j iss) w')))"
  using late_run_after [OF line_byte_late [OF late_start [OF assms]]] radio_poll_after [OF assms]
    late_run_after [OF handle_packet_late [OF late_start [OF assms]]] by blast

theorem interrupts_inside_steps_witness:
  "\<exists>s. line_byte_i demo_tx_env 0x41 (demo_world, [[Uart_Irq True 0x42, Rx_Irq], [Tx_Irq]]) = Inr s \<and>
     line_len (fst s) = 1"
proof -
  let ?iss = "[[Uart_Irq True 0x42, Rx_Irq], [Tx_Irq]]"
  have phy: "phy demo_world = Some (stm32wl_ops demo_tx_env)" using demo_world_inv by (simp add: world_inv_def)
  obtain k where k: "line_byte_i demo_tx_env 0x41 (demo_world, ?iss) =
      map_sum id (after_irqs k ?iss) (line_byte demo_tx_env 0x41 demo_world)"
    using interrupts_inside_steps [OF phy] by blast
  obtain w' where w': "line_byte demo_tx_env 0x41 demo_world = Inr w'" "line_len w' = 1"
    by (simp add: line_byte_def demo_world_def world_reset_def)
  then have "line_len (fst (after_irqs k ?iss w')) = 1"
    by (simp add: after_irqs_def fold_isr_keeps)
  with k w'(1) show ?thesis by simp
qed

end
