(* ===== verification/Radio_Buffer.thy ===== *)
theory Radio_Buffer
  imports Radio_Facts
begin

text \<open>
  The radio's data buffer. Frames to transmit and received packets share its 256 bytes; the driver sets
  the bases of the two parts to 0 and 128 when it configures the radio and writes frames from 0 on.
\<close>

fun bases_step :: "u8 \<times> u8 \<Rightarrow> hal_call \<Rightarrow> u8 \<times> u8" where
  "bases_step b (ExecSetCmd c ps) = (if c = RADIO_SET_BUFFERBASEADDRESS then (ps ! 0, ps ! 1) else b)"
| "bases_step b _ = b"

text \<open>The bases of the transmitted and the received data, and what \<open>WriteBuffer\<close> made of the buffer.\<close>

definition buffer_bases :: "hw \<Rightarrow> u8 \<times> u8" where
  "buffer_bases h = foldl bases_step (0, 0) h"

definition data_buffer :: "hw \<Rightarrow> u8 list" where
  "data_buffer h = fst (air h)"

lemma buffer_bases_issue [mon_simps]: "buffer_bases (issue c h) = bases_step (buffer_bases h) c"
  by (simp add: buffer_bases_def issue_def)

lemma bases_wait_busy [mon_simps, simp]: "buffer_bases (subghz_wait_busy e h) = buffer_bases h"
  by (rule wait_busy_invariant) (simp add: mon_simps)

lemma bases_rf [mon_simps, simp]:
  "buffer_bases (rf_ctrl_set_off e h) = buffer_bases h" "buffer_bases (rf_ctrl_set_rx e h) = buffer_bases h"
  "buffer_bases (rf_ctrl_set_tx e h) = buffer_bases h" "buffer_bases (apply_pa_tx_params e h) = buffer_bases h"
  by (simp_all add: rf_ctrl_set_off_def rf_ctrl_set_rx_def rf_ctrl_set_tx_def apply_pa_tx_params_def set_cmd_def
      Let_def mon_simps)

lemma bases_tx [mon_simps]:
  "buffer_bases (tx_prepare e n h) = buffer_bases h" "buffer_bases (return_to_rx e h) = buffer_bases h"
  "data_buffer (tx_prepare e n h) = data_buffer h"
  by (simp_all add: tx_prepare_def return_to_rx_def set_cmd_def clr_irq_def set_rx_def Let_def mon_simps)
    (simp add: data_buffer_def tx_prepare_mon(4) [unfolded tx_prepare_def set_cmd_def clr_irq_def Let_def])

text \<open>Configuring the radio sets the bases to 0 and 128, and nothing else sets them.\<close>

lemma bases_configured: "buffer_bases (radio_apply_lora_params e f s b c h) = (0, 0x80)"
  by (simp add: radio_apply_lora_params_def set_cmd_def Let_def mon_simps)

lemma bases_init: "buffer_bases (snd (snd (stm32wl_radio_init e (d, h)))) = (0, 0x80)"
  by (simp add: stm32wl_radio_init_def Let_def clr_irq_def set_rx_def set_cmd_def mon_simps bases_configured)

lemma tx_poll_bases:
  "tx_poll e t0 h = Some (ok, h') \<Longrightarrow> buffer_bases h' = buffer_bases h \<and> data_buffer h' = data_buffer h"
  by (auto simp: data_buffer_def tx_poll_mon(4) mon_simps intro: tx_poll_invariant)

lemma data_return [simp]: "data_buffer (return_to_rx e h) = data_buffer h"
  by (cases "air h") (simp add: return_to_rx_def set_cmd_def clr_irq_def set_rx_def Let_def data_buffer_def mon_simps)

lemma data_rf [simp]:
  "data_buffer (rf_ctrl_set_rx e h) = data_buffer h" "data_buffer (rf_ctrl_set_tx e h) = data_buffer h"
  "data_buffer (subghz_wait_busy e h) = data_buffer h"
  by (simp_all add: data_buffer_def)

lemma data_issue [simp]:
  "data_buffer (issue (WriteBuffer off bs) h) = memcpy_at (data_buffer h) (unat off) bs"
  "data_buffer (issue (ExecSetCmd c ps) h) = data_buffer h" "data_buffer (issue GetTick h) = data_buffer h"
  "data_buffer (issue (NvicEnable q) h) = data_buffer h"
  by (cases "air h"; simp add: data_buffer_def mon_simps)+

lemma tx_data:
  assumes "stm32wl_radio_tx e (Some bs) len (d, h) = Inr (ok, (d', h'))" and "len \<le> 256"
  shows "data_buffer h' = memcpy_at (data_buffer h) 0 (take len bs) \<and> buffer_bases h' = buffer_bases h"
  using assms
proof (cases rule: tx_cases)
  case (polled h5)
  then show ?thesis using tx_poll_bases [OF polled(3)] by (simp add: mon_simps tx_started_def tx_ready_def)
qed (simp_all add: mon_simps tx_started_def tx_ready_def)

text \<open>
  C25. A transmission writes its frame over the data buffer from 0 on, and the received packet lies from
  the second base on. A frame of at most 128 bytes leaves a packet that was received and not yet polled
  as it is; a longer frame, such as that of a text of more than 108 bytes, destroys its beginning.
\<close>

theorem long_frames_overwrite_received:
  assumes "stm32wl_radio_tx e (Some bs) (length bs) (d, h) = Inr (ok, (d', h'))" and "length bs \<le> 255"
    and "buffer_bases h = (0, 0x80)" and "length (data_buffer h) = 256"
  shows "buffer_bases h' = (0, 0x80) \<and>
    (if length bs \<le> 128 then drop 128 (data_buffer h') = drop 128 (data_buffer h)
     else take (length bs - 128) (drop 128 (data_buffer h')) = drop 128 bs)"
  using tx_data [OF assms(1)] assms(2-4) by (auto simp: memcpy_at_def)

theorem long_frames_overwrite_received_witness:
  "\<exists>h'. stm32wl_radio_tx demo_tx_env (Some (replicate 130 0x55)) (length (replicate 130 (0x55 :: u8)))
       (radio_drv_reset, [ExecSetCmd RADIO_SET_BUFFERBASEADDRESS [0x00, 0x80]]) = Inr (True, (radio_drv_reset, h')) \<and>
     take 2 (drop 128 (data_buffer h')) = [0x55, 0x55]"
proof -
  let ?h = "[ExecSetCmd RADIO_SET_BUFFERBASEADDRESS [0x00, 0x80]]"
  obtain h' where r: "stm32wl_radio_tx demo_tx_env (Some (replicate 130 0x55)) (length (replicate 130 (0x55 :: u8)))
      (radio_drv_reset, ?h) = Inr (True, (radio_drv_reset, h'))"
    by (rule demo_tx_runs [where len = "length (replicate 130 (0x55 :: u8))"]) simp
  have h: "buffer_bases ?h = (0, 0x80)" "length (data_buffer ?h) = 256"
    by (simp_all add: buffer_bases_def data_buffer_def air_def)
  have "length (replicate 130 (0x55 :: u8)) \<le> 255" by simp
  from long_frames_overwrite_received [OF r this h]
  have "take 2 (drop 128 (data_buffer h')) = [0x55, 0x55]" by (simp add: numeral_eq_Suc)
  with r show ?thesis by blast
qed

end
