(* ===== verification/Network.thy ===== *)
theory Network
  imports Boot Traces "HOL-Library.Multiset"
begin

text \<open>
  Several nodes. What a node transmits in answer to a frame; a network of nodes that share a channel,
  whose step is the delivery of a frame: the radio's interrupt and one iteration of the main loop of
  \<open>Core/main_loop.c\<close>. One text causes a bounded number of deliveries, although duplicates are answered
  again and the seen-packet ring is not relied on: only the hop limit and the rule that a \<open>pong\<close> is not
  answered bound it. And a text reaches a node behind as many relays as its hop limit.
\<close>

section \<open>What a frame says\<close>

text \<open>The text a node with channel key \<open>key\<close> reads from a frame, if any.\<close>

definition frame_data :: "hal_env \<Rightarrow> u32 list \<Rightarrow> u8 list \<Rightarrow> u8 list" where
  "frame_data e key f =
     ctr_spec e key (packet_id (header_of f)) (from_id (header_of f)) (length f - 16) (drop 16 f)"

definition frame_text :: "hal_env \<Rightarrow> u32 list \<Rightarrow> u8 list \<Rightarrow> u8 list option" where
  "frame_text e key f =
     (if length f \<le> 16 then None
      else case pb_decode_data (frame_data e key f) (length f - 16) of
          Inl _ \<Rightarrow> None
        | Inr (found, out) \<Rightarrow>
            if found \<and> pb_payload_len out > 0
            then Some (bytes_at (frame_data e key f) (the (pb_payload out)) (pb_payload_len out)) else None)"

definition asks_reply :: "hal_env \<Rightarrow> u32 list \<Rightarrow> u8 list \<Rightarrow> bool" where
  "asks_reply e key f \<longleftrightarrow> (case frame_text e key f of None \<Rightarrow> False | Some t \<Rightarrow> t \<noteq> bytes_of ''pong'')"

definition hops :: "u8 list \<Rightarrow> nat" where
  "hops f = unat (mesh_hop_limit (flags (header_of f)))"

lemma header_of_relay [simp]: "header_of (relay_frame n f) = forward_header (header_of f) n"
  by (simp add: relay_frame_def)

lemma hops_relay [simp]: "hops (relay_frame n f) = hops f - 1"
  by (simp add: hops_def forward_header_hop)

lemma frame_text_relay [simp]:
  assumes "16 \<le> length f"
  shows "frame_text e key (relay_frame n f) = frame_text e key f"
proof -
  have d: "drop 16 (relay_frame n f) = drop 16 f" by (simp add: relay_frame_def)
  have "frame_data e key (relay_frame n f) = frame_data e key f"
    by (simp add: frame_data_def forward_header_fields length_relay_frame assms d)
  then show ?thesis by (simp only: frame_text_def length_relay_frame [OF assms])
qed

lemma asks_reply_relay [simp]: "16 \<le> length f \<Longrightarrow> asks_reply e key (relay_frame n f) = asks_reply e key f"
  by (simp add: asks_reply_def)

lemma frame_text_text_frame:
  assumes "t \<noteq> []" and "length t \<le> 127"
  shows "frame_text e key (text_frame e key h t) = Some t"
proof -
  let ?m = "pb_message PORTNUM_TEXT_MESSAGE t"
  have "frame_data e key (text_frame e key h t) = ?m"
    by (simp add: frame_data_def text_frame_def)
  moreover have "pb_decode_data ?m (4 + length t) =
      Inr (True, \<lparr>pb_portnum = PORTNUM_TEXT_MESSAGE, pb_payload = Some 4, pb_payload_len = length t\<rparr>)"
    using pb_decode_message [OF assms(2), of PORTNUM_TEXT_MESSAGE "[]"] by (simp add: PORTNUM_TEXT_MESSAGE_def)
  moreover have "bytes_at ?m 4 (length t) = t"
    by (simp add: pb_message_def bytes_at_def)
  ultimately show ?thesis
    using assms(1) by (simp add: frame_text_def)
qed

lemma pong_frame [simp]:
  "frame_text e key (text_frame e key h (bytes_of ''pong'')) = Some (bytes_of ''pong'')"
  "\<not> asks_reply e key (text_frame e key h (bytes_of ''pong''))"
  "hops (text_frame e key h t) = unat (mesh_hop_limit (flags h))"
  "header_of (text_frame e key h t) = h"
proof -
  show t: "frame_text e key (text_frame e key h (bytes_of ''pong'')) = Some (bytes_of ''pong'')"
    by (rule frame_text_text_frame) (simp_all add: bytes_of_def)
  show "\<not> asks_reply e key (text_frame e key h (bytes_of ''pong''))"
    by (simp add: asks_reply_def t)
qed (simp_all add: hops_def text_frame_def)

section \<open>What a node sends in answer to a frame\<close>

lemma send_frames:
  assumes "send_lora_packet e to text n w = Inr (ok, w')" and "n \<le> 127" and "n \<le> length text"
    and "world_inv e w" and "cryp_ok e"
  shows "(frames_sent (hist w') = frames_sent (hist w) \<or>
      frames_sent (hist w') = frames_sent (hist w) @
        [text_frame e (hw_key (aes_st w)) (own_header to w) (take n text)]) \<and>
    hw_key (aes_st w') = hw_key (aes_st w) \<and> world_inv e w'"
proof -
  from assms(1-4) obtain p aes' h' h'' where
    a: "aes_ctr_crypt e (pb_message 1 (take n text) @ drop (20 + n) (lora_tx_buf w)) (4 + n)
       (next_packet_id w) (node_id (g_config w)) (aes_st w) (hist w) = Inr (p, aes', h')"
    and w': "w' = sent_world to p aes' (drv w, h'') w"
    and f: "frames_sent h'' = frames_sent (hist w) @ [header_bytes (own_header to w) @ take (4 + n) p] \<or>
      frames_sent h'' = frames_sent (hist w)"
    by (rule send_result) blast
  have "length (pb_message 1 (take n text)) = 4 + n" using assms(3) by simp
  from send_encrypted [OF a assms(5,2) this] f assms(3) show ?thesis
    using send_inv [OF assms(1,3,4)]
    by (auto simp: w' text_frame_def PORTNUM_TEXT_MESSAGE_def min_absorb2)
qed

text \<open>A possible list of new frames: perhaps one answer, perhaps one relayed copy.\<close>

definition answers :: "hal_env \<Rightarrow> u32 list \<Rightarrow> u8 \<Rightarrow> u8 list \<Rightarrow> u8 list list \<Rightarrow> bool" where
  "answers e key n8 f new \<longleftrightarrow>
     (\<exists>rep rel. new = rep @ rel \<and>
        (rep = [] \<or> asks_reply e key f \<and> (\<exists>h. flags h = 3 \<and> rep = [text_frame e key h (bytes_of ''pong'')])) \<and>
        (rel = [] \<or> 0 < hops f \<and> rel = [relay_frame n8 f]))"

lemma deliver_frames:
  assumes "deliver_text e h d n w = Inr w'" and "world_inv e w" and "cryp_ok e"
  shows "(frames_sent (hist w') = frames_sent (hist w) \<or>
      (n \<noteq> 4 \<or> take 4 d \<noteq> bytes_of ''pong'') \<and> (\<exists>h'. flags h' = 3 \<and> frames_sent (hist w') = frames_sent (hist w) @
        [text_frame e (hw_key (aes_st w)) h' (bytes_of ''pong'')])) \<and>
    hw_key (aes_st w') = hw_key (aes_st w) \<and> world_inv e w'"
proof (cases "n \<noteq> 4 \<or> take 4 d \<noteq> bytes_of ''pong''")
  case False
  then have "w' = show_text d n w" using assms(1) by (simp add: deliver_text_def Let_def)
  then show ?thesis using assms(2) by simp
next
  case True
  let ?w = "show_text d n w"
  obtain ok where s: "send_lora_packet e (from_id h) (bytes_of ''pong'' @ [0]) 4 ?w = Inr (ok, w')"
    using True assms(1) by (auto simp: deliver_text_def Let_def run_bind_eq_Inr)
  have "world_inv e ?w" using assms(2) by simp
  from send_frames [OF s _ _ this assms(3)] True show ?thesis
    by (auto simp: bytes_of_def own_header_def intro!: exI [of _ "own_header (from_id h) ?w"])
qed

lemma deliver_keeps:
  "deliver_text e h d n w = Inr w' \<Longrightarrow>
     lora_rx_buf w' = lora_rx_buf w \<and> g_config w' = g_config w \<and> serial_st w' = serial_st w"
  by (auto simp: deliver_text_def Let_def run_bind_eq_Inr dest: send_keeps(1,2,6) split: if_splits)

lemma receive_frames:
  assumes "receive_packet e h n w = Inr w'" and "world_inv e w" and "cryp_ok e" and "16 < n" and "n \<le> 255"
    and h: "h = header_of (lora_rx_buf w)" and f: "f = take n (lora_rx_buf w)" and key: "key = hw_key (aes_st w)"
  shows "(frames_sent (hist w') = frames_sent (hist w) \<or>
      asks_reply e key f \<and> (\<exists>h'. flags h' = 3 \<and> frames_sent (hist w') = frames_sent (hist w) @
        [text_frame e key h' (bytes_of ''pong'')])) \<and>
    hw_key (aes_st w') = key \<and> world_inv e w' \<and> lora_rx_buf w' = lora_rx_buf w \<and> g_config w' = g_config w"
proof -
  have lf: "length f = n" using assms(2,5) f by (simp add: world_inv_def)
  have hf: "header_of f = h"
    unfolding h f using assms(2,4,5) by (intro header_of_take) (simp_all add: world_inv_def)
  let ?p = "take (n - 16) (drop 16 (lora_rx_buf w))"
  have p: "?p = drop 16 f" by (simp add: f drop_take)
  have fd: "ctr_spec e (hw_key (aes_st w)) (packet_id h) (from_id h) (n - 16) ?p = frame_data e key f"
    by (simp only: frame_data_def lf hf p key)
  have le: "n - 16 \<le> 65520" using assms(5) by simp
  obtain aes' h' where a: "aes_ctr_crypt e ?p (n - 16) (packet_id h) (from_id h) (aes_st w) (hist w) =
      Inr (frame_data e key f, aes', h')" "hw_key aes' = key" "frames_sent h' = frames_sent (hist w)"
    by (rule aes_frames [OF assms(3) le, of ?p "packet_id h" "from_id h" "aes_st w" "hist w", unfolded fd])
      (rule that, assumption, simp_all add: key)
  let ?w = "w\<lparr>aes_st := aes', hist := h'\<rparr>"
  have inv: "world_inv e ?w" using assms(2) by (simp add: world_inv_def radio_inv_def)
  from assms(1) a obtain found out where dec: "pb_decode_data (frame_data e key f) (n - 16) = Inr (found, out)"
    and run: "(if found \<and> pb_payload_len out > 0
      then deliver_text e h (drop (the (pb_payload out)) (frame_data e key f)) (pb_payload_len out) ?w
      else Inr ?w) = Inr w'"
    by (auto simp: receive_packet_def Let_def run_bind_eq_Inr)
  show ?thesis
  proof (cases "found \<and> pb_payload_len out > 0")
    case False
    then have "w' = ?w" using run by auto
    with a inv show ?thesis by simp
  next
    case True
    let ?d = "drop (the (pb_payload out)) (frame_data e key f)"
    have t: "frame_text e key f = Some (take (pb_payload_len out) ?d)"
      using True dec assms(4) by (simp add: frame_text_def lf bytes_at_def)
    have asks: "asks_reply e key f" if "pb_payload_len out \<noteq> 4 \<or> take 4 ?d \<noteq> bytes_of ''pong''"
    proof -
      have "pb_decode_data (frame_data e key f) (n - 16) = Inr (True, out)" using dec True by simp
      from pb_payload_bound [OF this] obtain off where "pb_payload out = Some off" "off + pb_payload_len out \<le> n - 16"
        by blast
      moreover have "length (frame_data e key f) = n - 16" by (simp add: frame_data_def lf)
      ultimately have l: "length (take (pb_payload_len out) ?d) = pb_payload_len out" by simp
      have "take (pb_payload_len out) ?d \<noteq> bytes_of ''pong''"
      proof
        assume eq: "take (pb_payload_len out) ?d = bytes_of ''pong''"
        then have "pb_payload_len out = 4" using l unfolding eq by (simp add: bytes_of_def)
        with eq that show False by simp
      qed
      with t show ?thesis by (simp add: asks_reply_def)
    qed
    have run': "deliver_text e h ?d (pb_payload_len out) ?w = Inr w'" using run True by simp
    from deliver_frames [OF run' inv assms(3)] asks a deliver_keeps [OF run'] show ?thesis by auto
  qed
qed

lemma forward_frames:
  assumes "forward_packet e n w = Inr w'" and "16 < n" and "n \<le> 255" and "world_inv e w"
  shows "(frames_sent (hist w') = frames_sent (hist w) \<or>
      frames_sent (hist w') = frames_sent (hist w) @ [relay_frame (relay_id w) (take n (lora_rx_buf w))]) \<and>
    world_inv e w' \<and> aes_st w' = aes_st w \<and> g_config w' = g_config w \<and> serial_st w' = serial_st w"
proof -
  have l: "length (lora_rx_buf w) = 256" using assms(4) by (simp add: world_inv_def)
  from assms obtain ok h' where tx: "stm32wl_radio_tx e (Some (relay_frame (relay_id w) (lora_rx_buf w))) n (drv w, hist w) =
      Inr (ok, (drv w, h'))" and w': "w' = w\<lparr>lora_rx_buf := relay_frame (relay_id w) (lora_rx_buf w), hist := h'\<rparr>"
    and inv: "world_inv e w'"
    by (rule forward_result)
  have "n \<le> length (relay_frame (relay_id w) (lora_rx_buf w))"
    using l assms(3) by (simp add: length_relay_frame)
  from tx_frames [OF tx assms(3) this] inv w' assms(2,3) l show ?thesis
    by (auto simp: take_relay_frame)
qed

lemma handle_frames:
  assumes "handle_packet e n w = Inr w'" and "world_inv e w" and "cryp_ok e" and "n \<le> 255"
    and f: "f = take n (lora_rx_buf w)" and key: "key = hw_key (aes_st w)"
  obtains new where "frames_sent (hist w') = frames_sent (hist w) @ new" "answers e key (relay_id w) f new"
    "world_inv e w'" "hw_key (aes_st w') = key" "g_config w' = g_config w"
proof (cases "n \<le> 16")
  case True
  then have "w' = w" using assms(1) by (simp add: handle_packet_def)
  with assms(2) key show ?thesis by (intro that [of "[]"]) (simp_all add: answers_def)
next
  case False
  then have n: "16 < n" by simp
  let ?h = "header_of (lora_rx_buf w)"
  let ?w1 = "w\<lparr>flood_st := flood_seen (from_id ?h) (packet_id ?h) (flood_st w)\<rparr>"
  have inv1: "world_inv e ?w1" by (rule flood_seen_world_inv [OF assms(2)])
  have hf: "header_of f = ?h"
    unfolding f using assms(2,4) n by (intro header_of_take) (simp_all add: world_inv_def)
  obtain w2 where
    w2: "(if to_id ?h = MESH_BROADCAST_ID \<or> to_id ?h = node_id (g_config w) then receive_packet e ?h n ?w1 else Inr ?w1) = Inr w2"
    and w': "(if flood_should_forward (flood_st w) (Some (lora_rx_buf w)) n then forward_packet e n w2 else Inr w2) = Inr w'"
    using assms(1) n by (auto simp: handle_packet_def Let_def run_bind_eq_Inr)
  obtain rep where rep: "frames_sent (hist w2) = frames_sent (hist w) @ rep"
    "rep = [] \<or> asks_reply e key f \<and> (\<exists>h'. flags h' = 3 \<and> rep = [text_frame e key h' (bytes_of ''pong'')])"
    "hw_key (aes_st w2) = key" "world_inv e w2" "lora_rx_buf w2 = lora_rx_buf w" "g_config w2 = g_config w"
  proof (cases "to_id ?h = MESH_BROADCAST_ID \<or> to_id ?h = node_id (g_config w)")
    case True
    then have "receive_packet e ?h n ?w1 = Inr w2" using w2 by simp
    from receive_frames [OF this inv1 assms(3) n assms(4) _ _ refl, of f] that show ?thesis
      by (auto simp: f key)
  next
    case False
    then have "w2 = ?w1" using w2 by simp
    with inv1 that [of "[]"] show ?thesis by (simp add: key)
  qed
  have rid: "relay_id w2 = relay_id w" using rep(6) by (simp add: relay_id_def)
  obtain rel where rel: "frames_sent (hist w') = frames_sent (hist w2) @ rel"
    "rel = [] \<or> 0 < hops f \<and> rel = [relay_frame (relay_id w) f]"
    "hw_key (aes_st w') = key" "world_inv e w'" "g_config w' = g_config w"
  proof (cases "flood_should_forward (flood_st w) (Some (lora_rx_buf w)) n")
    case True
    then have "forward_packet e n w2 = Inr w'" "0 < hops f"
      using w' by (simp_all add: flood_should_forward_iff hops_def hf)
    with forward_frames [OF this(1) n assms(4) rep(4)] rep that show ?thesis by (auto simp: f rid)
  next
    case False
    then have "w' = w2" using w' by simp
    with rep that [of "[]"] show ?thesis by simp
  qed
  show ?thesis
    by (rule that [of "rep @ rel"]) (use rep rel in \<open>auto simp: answers_def\<close>)
qed

section \<open>A network\<close>

text \<open>
  The nodes' states, and the frames that are on the air and to whom: \<open>(i, f)\<close> is frame \<open>f\<close> on its way
  to node \<open>i\<close>. \<open>envs i\<close> is the hardware of node \<open>i\<close>, \<open>hears i\<close> the nodes in reach of its radio.
\<close>

type_synonym net = "world list \<times> (nat \<times> u8 list) multiset"

datatype net_event = Deliver nat "u8 list" | Lose nat "u8 list" | Idle nat

definition new_frames :: "world \<Rightarrow> world \<Rightarrow> u8 list list" where
  "new_frames w w' = drop (length (frames_sent (hist w))) (frames_sent (hist w'))"

definition fan_out :: "nat list \<Rightarrow> u8 list list \<Rightarrow> (nat \<times> u8 list) multiset" where
  "fan_out js fs = mset (List.product js fs)"

text \<open>
  Delivery: the radio of node \<open>i\<close> holds the frame, its interrupt sets \<open>rx_pending\<close>, an iteration of the
  main loop runs, and what it transmits is on the air to everybody in reach. A frame can also be lost,
  and a node can run an iteration without a packet. Nobody types.
\<close>

inductive net_step :: "(nat \<Rightarrow> hal_env) \<Rightarrow> (nat \<Rightarrow> nat list) \<Rightarrow> net \<Rightarrow> net_event \<Rightarrow> net \<Rightarrow> bool"
  for envs :: "nat \<Rightarrow> hal_env" and hears :: "nat \<Rightarrow> nat list" where
  deliver: "i < length ws \<Longrightarrow> ring_contents (serial_st (ws ! i)) = [] \<Longrightarrow>
     radio_holds (envs i) (loop_hist (envs i) (ws ! i)) f \<Longrightarrow>
     mesh_mini_loop (envs i) ((ws ! i)\<lparr>drv := HAL_SUBGHZ_RxCpltCallback (drv (ws ! i))\<rparr>) = Inr w' \<Longrightarrow>
     net_step envs hears (ws, add_mset (i, f) q) (Deliver i f)
       (ws[i := w'], q + fan_out (hears i) (new_frames (ws ! i) w'))"
| lose: "net_step envs hears (ws, add_mset (i, f) q) (Lose i f) (ws, q)"
| idle: "i < length ws \<Longrightarrow> ring_contents (serial_st (ws ! i)) = [] \<Longrightarrow> \<not> rx_pending (drv (ws ! i)) \<Longrightarrow>
     mesh_mini_loop (envs i) (ws ! i) = Inr w' \<Longrightarrow>
     net_step envs hears (ws, q) (Idle i) (ws[i := w'], q)"

inductive_cases net_stepE: "net_step envs hears s ev s'"

text \<open>Nodes that share a channel: the same cipher and key, and working AES units.\<close>

definition node_ok :: "hal_env \<Rightarrow> u32 list \<Rightarrow> hal_env \<Rightarrow> world \<Rightarrow> bool" where
  "node_ok c key e w \<longleftrightarrow> world_inv e w \<and> cryp_ok e \<and> env_ecb e = env_ecb c \<and> hw_key (aes_st w) = key"

definition net_ok :: "hal_env \<Rightarrow> u32 list \<Rightarrow> (nat \<Rightarrow> hal_env) \<Rightarrow> net \<Rightarrow> bool" where
  "net_ok c key envs s \<longleftrightarrow> (\<forall>i < length (fst s). node_ok c key (envs i) (fst s ! i)) \<and>
     (\<forall>x \<in># snd s. 16 < length (snd x) \<and> length (snd x) \<le> 255)"

section \<open>The cost of a frame\<close>

text \<open>
  How many frames a frame can still cause, itself included, when every transmission reaches at most
  \<open>n\<close> nodes and nothing is filtered as seen: a \<open>pong\<close> with \<open>h\<close> hops, and a text with \<open>h\<close> hops.
\<close>

fun pong_cost :: "nat \<Rightarrow> nat \<Rightarrow> nat" where
  "pong_cost n 0 = 1"
| "pong_cost n (Suc h) = 1 + n * pong_cost n h"

fun text_cost :: "nat \<Rightarrow> nat \<Rightarrow> nat" where
  "text_cost n 0 = 1 + n * pong_cost n 3"
| "text_cost n (Suc h) = 1 + n * pong_cost n 3 + n * text_cost n h"

definition frame_cost :: "nat \<Rightarrow> hal_env \<Rightarrow> u32 list \<Rightarrow> u8 list \<Rightarrow> nat" where
  "frame_cost n c key f = (if asks_reply c key f then text_cost n (hops f) else pong_cost n (hops f))"

definition air_cost :: "nat \<Rightarrow> hal_env \<Rightarrow> u32 list \<Rightarrow> (nat \<times> u8 list) multiset \<Rightarrow> nat" where
  "air_cost n c key q = (\<Sum>x \<in># q. frame_cost n c key (snd x))"

lemma air_cost_simps [simp]:
  "air_cost n c key {#} = 0"
  "air_cost n c key (add_mset x q) = frame_cost n c key (snd x) + air_cost n c key q"
  "air_cost n c key (a + b) = air_cost n c key a + air_cost n c key b"
  by (simp_all add: air_cost_def)

lemma air_cost_fan_out:
  "air_cost n c key (fan_out js fs) = length js * sum_list (map (frame_cost n c key) fs)"
proof (induction js)
  case Nil
  then show ?case by (simp add: fan_out_def)
next
  case (Cons j js)
  have "air_cost n c key (mset (map (Pair j) fs)) = sum_list (map (frame_cost n c key) fs)"
    by (induction fs) simp_all
  with Cons show ?case by (simp add: fan_out_def)
qed

lemma pong_cost_closed: "pong_cost n h = (\<Sum>k\<le>h. n ^ k)"
  by (induction h) (simp_all add: sum.atMost_Suc_shift sum_distrib_left del: sum.atMost_Suc)

lemma text_cost_closed: "text_cost n h = (1 + n * pong_cost n 3) * pong_cost n h"
  by (induction h) (simp_all add: algebra_simps)

text \<open>The answers to a frame cost less than the frame.\<close>

lemma answers_cost:
  assumes "answers c key n8 f new" and "16 \<le> length f" and "m \<le> n"
  shows "m * sum_list (map (frame_cost n c key) new) < frame_cost n c key f"
proof -
  obtain rep rel where new: "new = rep @ rel"
    and rep: "rep = [] \<or> asks_reply c key f \<and> (\<exists>h. flags h = 3 \<and> rep = [text_frame c key h (bytes_of ''pong'')])"
    and rel: "rel = [] \<or> 0 < hops f \<and> rel = [relay_frame n8 f]"
    using assms(1) by (auto simp: answers_def)
  have "mesh_hop_limit 3 = 3" by (simp add: mesh_hop_limit_def MESH_HOP_LIMIT_MASK_def)
  then have p: "sum_list (map (frame_cost n c key) rep) \<le> (if asks_reply c key f then pong_cost n 3 else 0)"
    using rep by (auto simp: frame_cost_def)
  have r: "sum_list (map (frame_cost n c key) rel) \<le>
      (if hops f = 0 then 0 else if asks_reply c key f then text_cost n (hops f - 1) else pong_cost n (hops f - 1))"
    using rel assms(2) by (auto simp: frame_cost_def)
  have "m * sum_list (map (frame_cost n c key) new) \<le> n * sum_list (map (frame_cost n c key) new)"
    using assms(3) by simp
  also have "\<dots> < frame_cost n c key f"
  proof -
    have "n * sum_list (map (frame_cost n c key) new) \<le>
        n * (if asks_reply c key f then pong_cost n 3 else 0) +
        n * (if hops f = 0 then 0 else if asks_reply c key f then text_cost n (hops f - 1) else pong_cost n (hops f - 1))"
      using p r by (simp add: new distrib_left add_mono)
    then show ?thesis
      by (cases "hops f") (auto simp: frame_cost_def less_Suc_eq_le)
  qed
  finally show ?thesis .
qed

section \<open>One delivery\<close>

lemma ctr_text_cong:
  assumes "env_ecb e = env_ecb c"
  shows "text_frame e = text_frame c" "frame_text e = frame_text c" "asks_reply e = asks_reply c" "answers e = answers c"
proof -
  have ctr: "ctr_spec e = ctr_spec c" by (rule ctr_spec_cong [OF assms])
  show t: "text_frame e = text_frame c" "frame_text e = frame_text c"
    by (intro ext, simp only: text_frame_def frame_text_def frame_data_def ctr)+
  show a: "asks_reply e = asks_reply c"
    by (intro ext) (simp only: asks_reply_def t)
  show "answers e = answers c"
    by (intro ext) (simp only: answers_def t a)
qed

lemma delivery:
  assumes "node_ok c key e w" and "ring_contents (serial_st w) = []" and "radio_holds e (loop_hist e w) f"
    and "0 < length f" and "length f \<le> 255"
    and "mesh_mini_loop e (w\<lparr>drv := HAL_SUBGHZ_RxCpltCallback (drv w)\<rparr>) = Inr w'"
  shows "node_ok c key e w' \<and> answers c key (relay_id w) f (new_frames w w')"
proof -
  let ?w = "w\<lparr>drv := HAL_SUBGHZ_RxCpltCallback (drv w)\<rparr>"
  have w: "world_inv e ?w" "ring_contents (serial_st ?w) = []" "rx_pending (drv ?w)"
    using assms(1,2) by (simp_all add: node_ok_def world_inv_def radio_inv_def HAL_SUBGHZ_RxCpltCallback_def)
  have "radio_holds e (loop_hist e ?w) f" using assms(3) by (simp add: loop_hist_def)
  from w this assms(4,5) obtain w1 where w1: "mesh_mini_loop e ?w = handle_packet e (length f) w1" "world_inv e w1"
    "take (length f) (lora_rx_buf w1) = f" "aes_st w1 = aes_st ?w" "g_config w1 = g_config ?w"
    "frames_sent (hist w1) = frames_sent (hist ?w)"
    by (rule mesh_mini_loop_receives)
  have run: "handle_packet e (length f) w1 = Inr w'" using assms(6) w1(1) by simp
  have n: "cryp_ok e" "env_ecb e = env_ecb c" "key = hw_key (aes_st w1)"
    using assms(1) w1(4) by (simp_all add: node_ok_def)
  from run w1(2) n(1) assms(5) w1(3) [symmetric] n(3) obtain new where new:
    "frames_sent (hist w') = frames_sent (hist w1) @ new" "answers e key (relay_id w1) f new"
    "world_inv e w'" "hw_key (aes_st w') = key" "g_config w' = g_config w1"
    by (rule handle_frames)
  have "relay_id w1 = relay_id w" using w1(5) by (simp add: relay_id_def)
  with new w1(6) n(1,2) show ?thesis
    by (simp add: node_ok_def new_frames_def ctr_text_cong(4) [OF n(2)])
qed

lemma idle_iteration:
  assumes "node_ok c key e w" and "ring_contents (serial_st w) = []" and "\<not> rx_pending (drv w)"
    and "mesh_mini_loop e w = Inr w'"
  shows "node_ok c key e w'"
proof -
  have inv: "world_inv e w" using assms(1) by (simp add: node_ok_def)
  obtain w1 where w1: "poll_phase e w = Inr (0, w1)" "world_inv e w1" "aes_st w1 = aes_st w"
    by (rule poll_phase_idle [OF inv assms(2,3)])
  then have "w' = w1"
    using assms(4) by (simp add: mesh_mini_loop_phases handle_packet_def)
  with w1 assms(1) show ?thesis by (simp add: node_ok_def)
qed

section \<open>A run of the network\<close>

definition on_air :: "net_event \<Rightarrow> bool" where
  "on_air ev \<longleftrightarrow> (\<forall>i. ev \<noteq> Idle i)"

lemma answers_lengths:
  "answers c key n8 f new \<Longrightarrow> 16 < length f \<Longrightarrow> length f \<le> 255 \<Longrightarrow>
     \<forall>g \<in> set new. 16 < length g \<and> length g \<le> 255"
  by (auto simp: answers_def length_relay_frame bytes_of_def)

lemma net_step_cost:
  assumes "net_step envs hears s ev s'" and "net_ok c key envs s" and "\<And>i. length (hears i) \<le> n"
  shows "net_ok c key envs s' \<and>
    air_cost n c key (snd s') + (if on_air ev then 1 else 0) \<le> air_cost n c key (snd s)"
  using assms(1)
proof cases
  case (deliver i ws f w' q)
  have ok: "node_ok c key (envs i) (ws ! i)" "16 < length f" "length f \<le> 255"
    using assms(2) deliver(1,4) by (simp_all add: net_ok_def)
  then have "0 < length f" by linarith
  from delivery [OF ok(1) deliver(5,6) this ok(3) deliver(7)]
  have d: "node_ok c key (envs i) w'" "answers c key (relay_id (ws ! i)) f (new_frames (ws ! i) w')" by simp_all
  have "length (hears i) * sum_list (map (frame_cost n c key) (new_frames (ws ! i) w')) < frame_cost n c key f"
    using answers_cost [OF d(2) _ assms(3) [of i]] ok(2) by simp
  then have "air_cost n c key (snd s') + 1 \<le> air_cost n c key (snd s)"
    by (simp add: deliver(1,3) air_cost_fan_out)
  moreover have "net_ok c key envs s'"
    using assms(2) d(1) answers_lengths [OF d(2) ok(2,3)] deliver(4)
    by (auto simp: net_ok_def deliver(1,3) nth_list_update fan_out_def)
  ultimately show ?thesis by simp
next
  case (lose ws i f q)
  then have "1 \<le> frame_cost n c key f"
    by (cases "hops f") (simp_all add: frame_cost_def)
  with lose assms(2) show ?thesis by (simp add: net_ok_def)
next
  case (idle i ws w' q)
  then have "node_ok c key (envs i) w'"
    using idle_iteration [of c key "envs i" "ws ! i" w'] assms(2) by (simp add: net_ok_def)
  with idle assms(2) show ?thesis by (auto simp: net_ok_def on_air_def nth_list_update)
qed

lemma net_run_cost:
  assumes "trace (net_step envs hears) s evs s'" and "net_ok c key envs s" and "\<And>i. length (hears i) \<le> n"
  shows "net_ok c key envs s' \<and>
    length (filter on_air evs) + air_cost n c key (snd s') \<le> air_cost n c key (snd s)"
  using assms(1,2)
proof induction
  case (start s)
  then show ?case by simp
next
  case (more s evs s' ev s'')
  then have "net_ok c key envs s'"
    and a: "length (filter on_air evs) + air_cost n c key (snd s') \<le> air_cost n c key (snd s)" by simp_all
  from net_step_cost [OF more(2) this(1) assms(3)] a show ?case
    by (cases "on_air ev") simp_all
qed

text \<open>
  One text in a network. The frame of a packet with at most three hops left is on its way to at
  most \<open>n\<close> nodes, and every transmission reaches at most \<open>n\<close> nodes, in any topology. Then in every run
  of the network in which nobody types, however frames are lost and iterations interleave, the number
  of frames delivered or lost is bounded by a polynomial of \<open>n\<close>: relaying and answering end, although
  each node answers every copy it receives.
\<close>

lemma flooding_ends:
  assumes "trace (net_step envs hears) (ws, fan_out js [f]) evs (ws', q)"
    and "net_ok c key envs (ws, fan_out js [f])" and "\<And>i. length (hears i) \<le> n" and "length js \<le> n"
    and "hops f \<le> 3"
  shows "length (filter on_air evs) \<le> n * (1 + n + n\<^sup>2 + n ^ 3) * (1 + n * (1 + n + n\<^sup>2 + n ^ 3))"
proof -
  let ?p = "1 + n + n\<^sup>2 + n ^ 3"
  have mono: "pong_cost n a \<le> pong_cost n 3" if "a \<le> 3" for a
    unfolding pong_cost_closed by (rule sum_mono2) (use that in auto)
  have p: "pong_cost n 3 = ?p"
    by (simp add: pong_cost_closed numeral_eq_Suc)
  have "frame_cost n c key f \<le> (1 + n * pong_cost n 3) * pong_cost n 3"
  proof (cases "asks_reply c key f")
    case True
    then show ?thesis
      using mono [OF assms(5)] by (simp add: frame_cost_def text_cost_closed del: mult_Suc)
  next
    case False
    have "pong_cost n (hops f) \<le> pong_cost n 3" by (rule mono [OF assms(5)])
    also have "\<dots> \<le> (1 + n * pong_cost n 3) * pong_cost n 3" by simp
    finally show ?thesis using False by (simp add: frame_cost_def)
  qed
  then have "length js * frame_cost n c key f \<le> n * ((1 + n * pong_cost n 3) * pong_cost n 3)"
    by (rule mult_le_mono [OF assms(4)])
  moreover have "air_cost n c key (fan_out js [f]) = length js * frame_cost n c key f"
    by (simp add: air_cost_fan_out)
  ultimately have "air_cost n c key (fan_out js [f]) \<le> n * ?p * (1 + n * ?p)"
    unfolding p by (simp only: ac_simps)
  moreover have "length (filter on_air evs) \<le> air_cost n c key (fan_out js [f])"
    using net_run_cost [OF assms(1-3)] by simp
  ultimately show ?thesis by (rule le_trans [rotated])
qed

lemma demo_listener_runs:
  "\<exists>w'. mesh_mini_loop (demo_rx_env (text_frame demo_tx_env (hw_key aes_reset) demo_header [0x68, 0x69]))
     (demo_listener (text_frame demo_tx_env (hw_key aes_reset) demo_header [0x68, 0x69])) = Inr w'"
proof -
  let ?f = "text_frame demo_tx_env (hw_key aes_reset) demo_header [0x68, 0x69]"
  let ?e = "demo_rx_env ?f"
  let ?w = "demo_listener ?f"
  have len: "0 < length ?f" "length ?f \<le> 255" by simp_all
  obtain w1 where w1: "mesh_mini_loop ?e ?w = handle_packet ?e (length ?f) w1" "world_inv ?e w1"
    "take (length ?f) (lora_rx_buf w1) = ?f" "aes_st w1 = aes_st ?w"
    by (rule mesh_mini_loop_receives [OF demo_listener_simps(1-3) demo_rx_env_simps(4) len])
  have t: "text_frame ?e = text_frame demo_tx_env" by (rule ctr_text_cong) simp
  have frame: "take (20 + length [0x68 :: u8, 0x69]) (lora_rx_buf w1) =
      text_frame ?e (hw_key (aes_st w1)) demo_header [0x68, 0x69]"
    using w1(3) unfolding t w1(4) by simp
  show ?thesis
    using receive_correct [OF w1(2) demo_rx_env_simps(2,3) _ _ frame] w1(1) by (auto simp: demo_header_def)
qed

lemma demo_listener_irq [simp]:
  "(demo_listener f)\<lparr>drv := HAL_SUBGHZ_RxCpltCallback (drv (demo_listener f))\<rparr> = demo_listener f"
  by (simp add: demo_listener_def HAL_SUBGHZ_RxCpltCallback_def)

lemma demo_listener_ok [simp]: "node_ok demo_tx_env (hw_key aes_reset) (demo_rx_env f) (demo_listener f)"
  by (simp add: node_ok_def)

section \<open>A text crosses relays\<close>

lemma relay_text_frame:
  "relay_frame n (text_frame c key h t) = text_frame c key (forward_header h n) t"
  by (simp add: relay_frame_def text_frame_def forward_header_fields)

lemma relay_is_last:
  assumes "node_ok c key e w" and "tx_works e" and "\<not> flood_was_seen (from_id h) (packet_id h) (flood_st w)"
    and "t \<noteq> []" and "length t \<le> 127" and "0 < unat (mesh_hop_limit (flags h))"
    and "ring_contents (serial_st w) = []" and "radio_holds e (loop_hist e w) (text_frame c key h t)"
    and "mesh_mini_loop e (w\<lparr>drv := HAL_SUBGHZ_RxCpltCallback (drv w)\<rparr>) = Inr w'"
  shows "last (frames_done e (hist w')) = text_frame c key (forward_header h (relay_id w)) t"
proof -
  let ?f = "text_frame c key h t"
  let ?w = "w\<lparr>drv := HAL_SUBGHZ_RxCpltCallback (drv w)\<rparr>"
  have w: "world_inv e ?w" "ring_contents (serial_st ?w) = []" "rx_pending (drv ?w)"
    using assms(1,7) by (simp_all add: node_ok_def world_inv_def radio_inv_def HAL_SUBGHZ_RxCpltCallback_def)
  have "radio_holds e (loop_hist e ?w) ?f" using assms(8) by (simp add: loop_hist_def)
  moreover have "0 < length ?f" "length ?f \<le> 255" using assms(5) by simp_all
  ultimately obtain w1 where w1: "mesh_mini_loop e ?w = handle_packet e (length ?f) w1" "world_inv e w1"
    "take (length ?f) (lora_rx_buf w1) = ?f" "aes_st w1 = aes_st ?w" "g_config w1 = g_config ?w"
    "flood_st w1 = flood_st ?w"
    by (rule mesh_mini_loop_receives [OF w])
  have run: "handle_packet e (20 + length t) w1 = Inr w'" using assms(9) w1(1) by simp
  have n: "cryp_ok e" "env_ecb e = env_ecb c" "hw_key (aes_st w1) = key"
    using assms(1) w1(4) by (simp_all add: node_ok_def)
  have frame: "take (20 + length t) (lora_rx_buf w1) = text_frame e (hw_key (aes_st w1)) h t"
    using w1(3) by (simp add: ctr_text_cong(1) [OF n(2)] n(3))
  have "20 + length t \<le> 255" using assms(5) by simp
  note completed = air_ok_done [OF handle_packet_air_ok [OF run w1(2) this] assms(2)]
  have rel: "relay_frames h ?f w1 = [relay_frame (relay_id w) ?f]"
    using assms(3,6) w1(5,6) by (simp add: relay_frames_def relay_id_def)
  show ?thesis
  proof (cases "to_id h = MESH_BROADCAST_ID \<or> to_id h = node_id (g_config w1)")
    case True
    from receive_correct [OF w1(2) n(1) assms(2,4,5) frame True] run rel show ?thesis
      by (auto dest!: completed simp: ctr_text_cong(1) [OF n(2)] n(3) relay_text_frame)
  next
    case False
    have "16 \<le> length (lora_rx_buf w1)" using w1(2) by (simp add: world_inv_def)
    moreover have "take 16 (lora_rx_buf w1) = take 16 (take (length ?f) (lora_rx_buf w1))" by simp
    ultimately have h: "h = header_of (lora_rx_buf w1)"
      using header_of_take [of "lora_rx_buf w1" ?f] by (simp only: w1(3)) simp
    have "16 < 20 + length t" "20 + length t \<le> 255" using assms(5) by simp_all
    from foreign_packet_handled [OF w1(2) assms(2) this h] False run rel w1(3) show ?thesis
      by (auto dest!: completed simp: relay_text_frame)
  qed
qed

text \<open>
  A frame handed on by a list of nodes: the frame whose transmission each of them completed last is the
  one that the next receives.
\<close>

inductive relay_chain :: "u8 list \<Rightarrow> (hal_env \<times> world) list \<Rightarrow> u8 list \<Rightarrow> bool" where
  arrived: "relay_chain f [] f"
| relayed: "ring_contents (serial_st w) = [] \<Longrightarrow> radio_holds e (loop_hist e w) f \<Longrightarrow>
     mesh_mini_loop e (w\<lparr>drv := HAL_SUBGHZ_RxCpltCallback (drv w)\<rparr>) = Inr w' \<Longrightarrow>
     relay_chain (last (frames_done e (hist w'))) ns f' \<Longrightarrow> relay_chain f ((e, w) # ns) f'"

inductive_cases relay_chain_ConsE: "relay_chain f ((e, w) # ns) f'"
inductive_simps relay_chain_Nil: "relay_chain f [] f'"

definition fresh_relay :: "hal_env \<Rightarrow> u32 list \<Rightarrow> mesh_lora_header \<Rightarrow> hal_env \<times> world \<Rightarrow> bool" where
  "fresh_relay c key h ew \<longleftrightarrow> node_ok c key (fst ew) (snd ew) \<and> tx_works (fst ew) \<and>
     \<not> flood_was_seen (from_id h) (packet_id h) (flood_st (snd ew))"

lemma relay_chain_text:
  assumes "relay_chain (text_frame c key h t) ns f'" and "list_all (fresh_relay c key h) ns"
    and "t \<noteq> []" and "length t \<le> 127" and "length ns \<le> unat (mesh_hop_limit (flags h))"
  shows "\<exists>h'. f' = text_frame c key h' t \<and> to_id h' = to_id h \<and> from_id h' = from_id h \<and>
    packet_id h' = packet_id h \<and>
    unat (mesh_hop_limit (flags h')) + length ns = unat (mesh_hop_limit (flags h))"
  using assms
proof (induction ns arbitrary: h)
  case Nil
  then show ?case by (auto simp: relay_chain_Nil)
next
  case (Cons ew ns)
  obtain e w where ew: "ew = (e, w)" by fastforce
  from Cons.prems(1) obtain w' where w': "ring_contents (serial_st w) = []" "radio_holds e (loop_hist e w) (text_frame c key h t)"
    "mesh_mini_loop e (w\<lparr>drv := HAL_SUBGHZ_RxCpltCallback (drv w)\<rparr>) = Inr w'"
    "relay_chain (last (frames_done e (hist w'))) ns f'"
    unfolding ew by (rule relay_chain_ConsE)
  let ?h = "forward_header h (relay_id w)"
  have e: "node_ok c key e w" "tx_works e" "\<not> flood_was_seen (from_id h) (packet_id h) (flood_st w)"
    using Cons.prems(2) by (simp_all add: ew fresh_relay_def)
  have hop: "0 < unat (mesh_hop_limit (flags h))" using Cons.prems(5) by simp
  have last: "last (frames_done e (hist w')) = text_frame c key ?h t"
    by (rule relay_is_last [OF e Cons.prems(3,4) hop w'(1-3)])
  have "fresh_relay c key ?h = fresh_relay c key h"
    by (intro ext) (simp add: fresh_relay_def forward_header_fields)
  then have "list_all (fresh_relay c key ?h) ns"
    using Cons.prems(2) by simp
  moreover have "length ns \<le> unat (mesh_hop_limit (flags ?h))"
    using Cons.prems(5) by (simp add: forward_header_hop)
  ultimately obtain h' where "f' = text_frame c key h' t" "to_id h' = to_id ?h" "from_id h' = from_id ?h"
    "packet_id h' = packet_id ?h" "unat (mesh_hop_limit (flags h')) + length ns = unat (mesh_hop_limit (flags ?h))"
    using Cons.IH [of ?h] w'(4) Cons.prems(3,4) unfolding last by blast
  then show ?case
    using hop by (intro exI [of _ h']) (simp add: forward_header_fields forward_header_hop)
qed

text \<open>
  C13. A text crosses as many relays as its hop limit. Each relay that has not seen the packet hands it
  on with one hop fewer, in a transmission that is completed (\<open>frames_done\<close>) before the next node
  receives it; the last node decrypts and prints the same text. Relays and last node have AES
  peripherals and transmitters that work (\<open>tx_works\<close>: the end of a transmission is reported when its time on
  air, at most three seconds, is over).
\<close>

theorem text_crosses_relays:
  assumes chain: "relay_chain (text_frame c key h t) ns f" "list_all (fresh_relay c key h) ns"
      "length ns \<le> unat (mesh_hop_limit (flags h))"
    and body: "t \<noteq> []" "length t \<le> 127"
    and B: "node_ok c key e w" "tx_works e" "online w" "ring_contents (serial_st w) = []"
      "rx_pending (drv w)" "radio_holds e (loop_hist e w) f"
    and dest: "to_id h = MESH_BROADCAST_ID \<or> to_id h = node_id (g_config w)"
  shows "\<exists>w'. mesh_mini_loop e w = Inr w' \<and> shown w' = shown w @ rx_report t (drv w') \<and>
    hops f + length ns = unat (mesh_hop_limit (flags h))"
proof -
  obtain h' where h': "f = text_frame c key h' t" "to_id h' = to_id h"
    "unat (mesh_hop_limit (flags h')) + length ns = unat (mesh_hop_limit (flags h))"
    using relay_chain_text [OF chain(1,2) body chain(3)] by blast
  have n: "world_inv e w" "cryp_ok e" "env_ecb e = env_ecb c" "key = hw_key (aes_st w)"
    using B(1) by (simp_all add: node_ok_def)
  have len: "length f = 20 + length t" by (simp add: h'(1))
  then have "0 < length f" "length f \<le> 255" using body(2) by simp_all
  then obtain w1 where w1: "mesh_mini_loop e w = handle_packet e (length f) w1" "world_inv e w1"
    "take (length f) (lora_rx_buf w1) = f" "aes_st w1 = aes_st w" "g_config w1 = g_config w" "serial_st w1 = serial_st w"
    "shown w1 = shown w"
    by (rule mesh_mini_loop_receives [OF n(1) B(4,5,6)])
  have "take (20 + length t) (lora_rx_buf w1) = text_frame e (hw_key (aes_st w1)) h' t"
    using w1(3) by (simp only: len w1(4)) (simp add: h'(1) ctr_text_cong(1) [OF n(3)] n(4))
  moreover have "to_id h' = MESH_BROADCAST_ID \<or> to_id h' = node_id (g_config w1)"
    using dest by (simp add: h'(2) w1(5))
  ultimately obtain w' where w': "handle_packet e (20 + length t) w1 = Inr w'"
    "online w1 \<longrightarrow> shown w' = shown w1 @ rx_report t (drv w1)"
    using receive_correct [OF w1(2) n(2) B(2) body] by blast
  have "drv w' = drv w1"
    using handle_packet_drv [OF w'(1)] w1(2) by (simp add: world_inv_def)
  with w' w1 B(3) len h' show ?thesis by simp
qed

theorem text_crosses_relays_witness:
  "\<exists>f e w w'. relay_chain (text_frame demo_tx_env (hw_key aes_reset) demo_header [0x68, 0x69]) [(e, w)] f \<and>
     mesh_mini_loop (demo_rx_env f) (demo_listener f) = Inr w' \<and> take 6 (shown w') = bytes_of ''RX: hi'' \<and> hops f = 2"
proof -
  let ?f = "text_frame demo_tx_env (hw_key aes_reset) demo_header [0x68, 0x69]"
  let ?e = "demo_rx_env ?f"
  let ?w = "demo_listener ?f"
  obtain w1 where w1: "mesh_mini_loop ?e ?w = Inr w1" using demo_listener_runs by blast
  let ?g = "last (frames_done ?e (hist w1))"
  have chain: "relay_chain ?f [(?e, ?w)] ?g"
    by (rule relay_chain.relayed [OF _ _ _ relay_chain.arrived]) (simp_all add: w1)
  have m: "unat (mesh_hop_limit (flags demo_header)) = 3"
    by (simp add: demo_header_def mesh_hop_limit_def MESH_HOP_LIMIT_MASK_def)
  have "flood_st ?w = flood_reset" by (simp add: demo_listener_def demo_world_def world_reset_def)
  then have fresh: "list_all (fresh_relay demo_tx_env (hw_key aes_reset) demo_header) [(?e, ?w)]"
    by (simp add: fresh_relay_def flood_was_seen_iff) (simp add: demo_header_def)
  have "\<exists>w'. mesh_mini_loop (demo_rx_env ?g) (demo_listener ?g) = Inr w' \<and>
      shown w' = shown (demo_listener ?g) @ rx_report [0x68, 0x69] (drv w') \<and>
      hops ?g + length [(?e, ?w)] = unat (mesh_hop_limit (flags demo_header))"
    by (rule text_crosses_relays [OF chain fresh]) (simp_all add: m, simp add: demo_header_def)
  then obtain w' where w': "mesh_mini_loop (demo_rx_env ?g) (demo_listener ?g) = Inr w'"
    "shown w' = rx_report [0x68, 0x69] (drv w')" "hops ?g = 2"
    by (auto simp: m)
  have "take 6 (shown w') = bytes_of ''RX: hi''"
    by (simp add: w'(2) rx_report_def bytes_of_def)
  with chain w'(1,3) show ?thesis
    by (intro exI [of _ ?g] exI [of _ ?e] exI [of _ ?w] exI [of _ w'] conjI)
qed

end
