(* ===== verification/Node_Spec.thy ===== *)
theory Node_Spec
  imports Network Loop_Phases
begin

text \<open>
  A node as its operator and the other nodes see it, without buffers, indices, drivers and hardware:
  a line being edited, a queue of typed bytes, a window of packets seen, what it has printed and what
  it has transmitted. The main loop of \<open>Core/main_loop.c\<close> refines it.
\<close>

section \<open>The abstract node\<close>

record node =
  n_id :: u32
  n_key :: "u32 list"
  n_next :: u32
  n_seen :: "(u32 \<times> u32) list"
  n_line :: "u8 list"
  n_input :: "u8 list"
  n_signal :: "u16 \<times> u8"
  n_params :: lora_params
  n_aired :: "u8 list list"
  n_shown :: "u8 list"

definition node_print :: "u8 list \<Rightarrow> node \<Rightarrow> node" where
  "node_print s n = n\<lparr>n_shown := n_shown n @ s\<rparr>"

definition node_air :: "u8 list \<Rightarrow> node \<Rightarrow> node" where
  "node_air f n = n\<lparr>n_aired := n_aired n @ [f]\<rparr>"

definition node_register :: "u32 \<times> u32 \<Rightarrow> node \<Rightarrow> node" where
  "node_register k n = n\<lparr>n_seen := tl (n_seen n) @ [k]\<rparr>"

definition node_header :: "u32 \<Rightarrow> node \<Rightarrow> mesh_lora_header" where
  "node_header to n = \<lparr>to_id = to, from_id = n_id n, packet_id = n_next n, flags = 3, channel = 0,
     next_hop = 0, relay = 0\<rparr>"

text \<open>
  Sending a text, with its result. A text of more than 127 bytes is refused. Otherwise a packet id is
  used up, and the frame is transmitted; \<open>works\<close> says that the transmitter cannot fail.
\<close>

inductive node_send :: "hal_env \<Rightarrow> bool \<Rightarrow> u32 \<Rightarrow> u8 list \<Rightarrow> node \<Rightarrow> bool \<Rightarrow> node \<Rightarrow> bool"
  for e :: hal_env and works :: bool where
  too_long: "127 < length t \<Longrightarrow> node_send e works to t n False n"
| aired: "length t \<le> 127 \<Longrightarrow> ok \<or> \<not> works \<Longrightarrow>
    node_send e works to t n ok (node_air (text_frame e (n_key n) (node_header to n) t)
      (node_register (n_id n, n_next n) (n\<lparr>n_next := n_next n + 1\<rparr>)))"
| failed: "length t \<le> 127 \<Longrightarrow> \<not> works \<Longrightarrow>
    node_send e works to t n False (node_register (n_id n, n_next n) (n\<lparr>n_next := n_next n + 1\<rparr>))"

text \<open>What a complete line does, if it is a command.\<close>

definition info_text :: "node \<Rightarrow> u8 list" where
  "info_text n = bytes_of ''Freq: '' @ int16_bytes (ucast (freq_hz (n_params n) div 1000000)) @
     bytes_of '' MHz  SF: '' @ int16_bytes (ucast (sf (n_params n))) @
     bytes_of ''  NodeId: '' @ int16_bytes (ucast (n_id n)) @
     bytes_of ''  Last RSSI: '' @ int16_bytes (fst (n_signal n)) @ bytes_of '' dBm'' @ crlf"

definition node_command :: "u8 list \<Rightarrow> node \<Rightarrow> node option" where
  "node_command l n =
     (if 2 \<le> length l \<and> (l ! 0 = of_char (CHR ''N'') \<or> l ! 0 = of_char (CHR ''n''))
      then Some (if l ! 1 \<in> {of_char (CHR ''1'')..of_char (CHR ''9'')}
                 then node_print (bytes_of ''node_id set'' @ crlf) (n\<lparr>n_id := ucast (l ! 1 - of_char (CHR ''0''))\<rparr>)
                 else n)
      else if l = bytes_of ''help'' then Some (node_print help_text n)
      else if l = bytes_of ''info'' then Some (node_print (info_text n) n)
      else None)"

inductive node_line :: "hal_env \<Rightarrow> bool \<Rightarrow> u8 list \<Rightarrow> node \<Rightarrow> node \<Rightarrow> bool" for e :: hal_env and works :: bool where
  command: "node_command l n = Some n' \<Longrightarrow> node_line e works l n n'"
| message: "node_command l n = None \<Longrightarrow> node_send e works MESH_BROADCAST_ID l n ok n' \<Longrightarrow>
    node_line e works l n (node_print (bytes_of (if ok then ''Sent.'' else ''TX failed.'') @ crlf) n')"

text \<open>A byte from the terminal.\<close>

inductive node_byte :: "hal_env \<Rightarrow> bool \<Rightarrow> u8 \<Rightarrow> node \<Rightarrow> node \<Rightarrow> bool" for e :: hal_env and works :: bool where
  enter_empty: "b \<in> {0x0D, 0x0A} \<Longrightarrow> n_line n = [] \<Longrightarrow> node_byte e works b n n"
| enter: "b \<in> {0x0D, 0x0A} \<Longrightarrow> n_line n \<noteq> [] \<Longrightarrow> node_line e works (n_line n) n n' \<Longrightarrow>
    node_byte e works b n (n'\<lparr>n_line := []\<rparr>)"
| insert: "b \<notin> {0x0D, 0x0A} \<Longrightarrow> length (n_line n) < 199 \<Longrightarrow>
    node_byte e works b n (n\<lparr>n_line := n_line n @ [b]\<rparr>)"
| full: "b \<notin> {0x0D, 0x0A} \<Longrightarrow> length (n_line n) = 199 \<Longrightarrow> node_byte e works b n n"

text \<open>A received frame: the text for this node is printed and answered, the frame perhaps relayed.\<close>

definition addressed :: "u8 list \<Rightarrow> node \<Rightarrow> bool" where
  "addressed f n \<longleftrightarrow> to_id (header_of f) = MESH_BROADCAST_ID \<or> to_id (header_of f) = n_id n"

definition decodes :: "hal_env \<Rightarrow> u32 list \<Rightarrow> u8 list \<Rightarrow> bool" where
  "decodes e key f \<longleftrightarrow> (\<exists>r. pb_decode_data (frame_data e key f) (length f - 16) = Inr r)"

definition report :: "u8 list \<Rightarrow> u16 \<times> u8 \<Rightarrow> u8 list" where
  "report t s = bytes_of ''RX: '' @ t @ bytes_of ''  RSSI: '' @ int16_bytes (fst s) @
     bytes_of '' dBm  SNR: '' @ int16_bytes (scast (snd s)) @ bytes_of '' dB'' @ crlf"

inductive node_text :: "hal_env \<Rightarrow> bool \<Rightarrow> u8 list \<Rightarrow> node \<Rightarrow> node \<Rightarrow> bool" for e :: hal_env and works :: bool where
  foreign: "\<not> addressed f n \<Longrightarrow> node_text e works f n n"
| no_text: "addressed f n \<Longrightarrow> decodes e (n_key n) f \<Longrightarrow> frame_text e (n_key n) f = None \<Longrightarrow> node_text e works f n n"
| pong: "addressed f n \<Longrightarrow> frame_text e (n_key n) f = Some (bytes_of ''pong'') \<Longrightarrow>
    node_text e works f n (node_print (report (bytes_of ''pong'') (n_signal n)) n)"
| answered: "addressed f n \<Longrightarrow> frame_text e (n_key n) f = Some t \<Longrightarrow> t \<noteq> bytes_of ''pong'' \<Longrightarrow>
    node_send e works (from_id (header_of f)) (bytes_of ''pong'') (node_print (report t (n_signal n)) n) ok n' \<Longrightarrow>
    node_text e works f n n'"

definition relays :: "u8 list \<Rightarrow> node \<Rightarrow> bool" where
  "relays f n \<longleftrightarrow> (from_id (header_of f), packet_id (header_of f)) \<notin> set (n_seen n) \<and> 0 < hops f"

definition node_relay_frame :: "u8 list \<Rightarrow> node \<Rightarrow> u8 list" where
  "node_relay_frame f n = relay_frame (ucast (n_id n AND 0xFF)) f"

inductive node_packet :: "hal_env \<Rightarrow> bool \<Rightarrow> u8 list \<Rightarrow> node \<Rightarrow> node \<Rightarrow> bool" for e :: hal_env and works :: bool where
  short: "length f \<le> 16 \<Longrightarrow> node_packet e works f n n"
| keep: "16 < length f \<Longrightarrow> \<not> relays f n \<or> \<not> works \<Longrightarrow>
    node_text e works f (node_register (from_id (header_of f), packet_id (header_of f)) n) n' \<Longrightarrow>
    node_packet e works f n n'"
| relay: "16 < length f \<Longrightarrow> relays f n \<Longrightarrow>
    node_text e works f (node_register (from_id (header_of f), packet_id (header_of f)) n) n' \<Longrightarrow>
    node_packet e works f n (node_air (node_relay_frame f n') n')"

section \<open>The abstraction\<close>

definition abs_node :: "world \<Rightarrow> node" where
  "abs_node w = \<lparr>n_id = node_id (g_config w), n_key = hw_key (aes_st w), n_next = next_packet_id w,
     n_seen = seen_window (flood_st w), n_line = line_text w, n_input = ring_contents (serial_st w),
     n_signal = (last_rssi (drv w), last_snr (drv w)), n_params = s_params (lora_st w),
     n_aired = frames_sent (hist w), n_shown = shown w\<rparr>"

lemma abs_node_simps [simp]:
  "n_id (abs_node w) = node_id (g_config w)" "n_key (abs_node w) = hw_key (aes_st w)"
  "n_next (abs_node w) = next_packet_id w" "n_seen (abs_node w) = seen_window (flood_st w)"
  "n_line (abs_node w) = line_text w" "n_input (abs_node w) = ring_contents (serial_st w)"
  "n_signal (abs_node w) = (last_rssi (drv w), last_snr (drv w))" "n_params (abs_node w) = s_params (lora_st w)"
  "n_aired (abs_node w) = frames_sent (hist w)" "n_shown (abs_node w) = shown w"
  by (simp_all add: abs_node_def)

lemma node_header_abs [simp]: "node_header to (abs_node w) = own_header to w"
  by (simp add: node_header_def own_header_def)

lemma node_header_update [simp]:
  "node_header to (n\<lparr>n_shown := s\<rparr>) = node_header to n" "node_header to (n\<lparr>n_line := l\<rparr>) = node_header to n"
  by (simp_all add: node_header_def)

lemma abs_put_str [simp]:
  "online w \<Longrightarrow> 0 \<notin> set s \<Longrightarrow> length s \<le> 256 \<Longrightarrow> abs_node (put_str s w) = node_print s (abs_node w)"
  by (simp add: abs_node_def node_print_def line_text_def)

lemma abs_show_text:
  assumes "world_inv e w" and "online w"
  shows "abs_node (show_text d n w) = node_print (report (take n d) (n_signal (abs_node w))) (abs_node w)"
proof -
  have [simp]: "lora_st (show_text d n w) = lora_st w" "line_text (show_text d n w) = line_text w"
    by (simp_all add: show_text_def Let_def line_text_def)
  show ?thesis
    by (simp add: abs_node_def node_print_def shown_show_text [OF assms] rx_report_def report_def)
qed

section \<open>Sending\<close>

lemma send_refines:
  assumes "send_lora_packet e to text n w = Inr (ok, w')" and "n \<le> length text" and "world_inv e w" and "cryp_ok e"
  shows "node_send e (tx_works e) to (take n text) (abs_node w) ok (abs_node w')"
proof (cases "n \<le> 127")
  case False
  then show ?thesis
    using assms(1,2) by (auto simp: send_too_long intro: node_send.too_long)
next
  case True
  have works: "ok \<or> \<not> tx_works e"
    using send_works [OF _ True assms(2,3), of to] assms(1) by auto
  from assms(1) True assms(2,3) obtain p aes' h' h'' where
    a: "aes_ctr_crypt e (pb_message 1 (take n text) @ drop (20 + n) (lora_tx_buf w)) (4 + n)
       (next_packet_id w) (node_id (g_config w)) (aes_st w) (hist w) = Inr (p, aes', h')"
    and w': "w' = sent_world to p aes' (drv w, h'') w"
    and u: "uart_out h'' = uart_out (hist w)"
    and f: "frames_sent h'' = frames_sent (hist w) @ [header_bytes (own_header to w) @ take (4 + n) p] \<or>
      \<not> ok \<and> frames_sent h'' = frames_sent (hist w)"
    by (rule send_result) blast
  have "length (pb_message 1 (take n text)) = 4 + n" using assms(2) by simp
  note enc = send_encrypted [OF a assms(4) True this]
  have fl: "flood_inv (flood_st w)" using assms(3) by (simp add: world_inv_def)
  let ?n = "node_register (n_id (abs_node w), n_next (abs_node w)) (abs_node w\<lparr>n_next := n_next (abs_node w) + 1\<rparr>)"
  have abs: "abs_node w' = ?n\<lparr>n_aired := frames_sent h''\<rparr>"
    using enc u by (simp add: abs_node_def w' line_text_def node_register_def seen_window_insert [OF fl])
  from f show ?thesis
  proof (elim disjE conjE)
    assume "frames_sent h'' = frames_sent (hist w) @ [header_bytes (own_header to w) @ take (4 + n) p]"
    then have "abs_node w' = node_air (text_frame e (n_key (abs_node w)) (node_header to (abs_node w)) (take n text)) ?n"
      using enc assms(2)
      by (simp add: abs node_air_def node_register_def text_frame_def PORTNUM_TEXT_MESSAGE_def min_absorb2)
    then show ?thesis
      using node_send.aired [OF _ works, of "take n text" e to "abs_node w"] True by (simp add: min_le_iff_disj)
  next
    assume "\<not> ok" "frames_sent h'' = frames_sent (hist w)"
    then have "abs_node w' = ?n" by (simp add: abs node_register_def)
    then show ?thesis
      using node_send.failed [of "take n text" "tx_works e" e to "abs_node w"] works \<open>\<not> ok\<close> True
      by (auto simp add: min_le_iff_disj)
  qed
qed

section \<open>The terminal\<close>

lemma send_online: "send_lora_packet e to text n w = Inr (ok, w') \<Longrightarrow> online w' = online w"
  by (simp add: send_keeps)

lemma info_refines:
  assumes "world_inv e w" and "online w"
  shows "abs_node (info_line w) = node_print (info_text (abs_node w)) (abs_node w)"
proof -
  have [simp]: "0 \<notin> set (bytes_of ''Freq: '')" "0 \<notin> set (bytes_of '' MHz  SF: '')" "0 \<notin> set (bytes_of ''  NodeId: '')"
    "0 \<notin> set (bytes_of ''  Last RSSI: '')" "0 \<notin> set (bytes_of '' dBm'')"
    by (simp_all add: bytes_of_def)
  have p: "phy w = Some (stm32wl_ops e)" using assms(1) by (simp add: world_inv_def)
  show ?thesis
    using assms(2) p
    by (simp add: info_line_def Let_def lora_get_params_def abs_node_def node_print_def info_text_def line_text_def)
qed

lemma help_zero_free: "0 \<notin> set help_text" "length help_text \<le> 256"
  by (simp_all add: help_text_def bytes_of_def crlf_def)

lemma line_refines:
  assumes "handle_line e w = Inr w'" and "world_inv e w" and "online w" and "cryp_ok e"
  shows "\<exists>n'. node_line e (tx_works e) (line_text w) (abs_node w) n' \<and> abs_node w' = n'\<lparr>n_line := []\<rparr>"
proof -
  have len: "line_len w \<le> length (line_buf w)" using assms(2) by (simp add: world_inv_def)
  have z: "abs_node (v\<lparr>line_len := 0\<rparr>) = (abs_node v)\<lparr>n_line := []\<rparr>" for v
    by (simp add: abs_node_def line_text_def)
  have lt: "length (line_text w) = line_len w" "\<And>i. i < line_len w \<Longrightarrow> line_text w ! i = line_buf w ! i"
    using len by (simp_all add: line_text_def)
  let ?N = "2 \<le> line_len w \<and> (line_buf w ! 0 = of_char (CHR ''N'') \<or> line_buf w ! 0 = of_char (CHR ''n''))"
  have N: "?N \<longleftrightarrow> 2 \<le> length (line_text w) \<and> (line_text w ! 0 = of_char (CHR ''N'') \<or> line_text w ! 0 = of_char (CHR ''n''))"
    using lt by auto
  have four: "line_len w = 4 \<and> take 4 (line_buf w) = s \<longleftrightarrow> line_text w = s" if "length s = 4" for s
    using lt(1) that by (auto simp: line_text_def)
  have [simp]: "length (bytes_of ''help'') = 4" "length (bytes_of ''info'') = 4" by simp_all
  show ?thesis
  proof (cases "node_command (line_text w) (abs_node w)")
    case None
    then have nc: "\<not> is_command (line_text w)"
      by (auto simp: node_command_def is_command_def split: if_splits)
    from assms(1) obtain ok w1 where s: "send_lora_packet e MESH_BROADCAST_ID (line_buf w) (line_len w) w = Inr (ok, w1)"
      and w': "w' = (put_str (bytes_of (if ok then ''Sent.'' else ''TX failed.'') @ crlf) w1)\<lparr>line_len := 0\<rparr>"
      by (auto simp: handle_line_text [OF nc len] run_bind_eq_Inr)
    have "abs_node w' = (node_print (bytes_of (if ok then ''Sent.'' else ''TX failed.'') @ crlf) (abs_node w1))\<lparr>n_line := []\<rparr>"
      using send_online [OF s] assms(3) by (simp add: w' z)
    moreover have "node_send e (tx_works e) MESH_BROADCAST_ID (line_text w) (abs_node w) ok (abs_node w1)"
      using send_refines [OF s len assms(2,4)] by (simp add: line_text_def)
    ultimately show ?thesis
      using node_line.message [OF None] by blast
  next
    case (Some n')
    have "abs_node w' = n'\<lparr>n_line := []\<rparr>"
    proof (cases ?N)
      case True
      then have "n' = (if line_text w ! 1 \<in> {of_char (CHR ''1'')..of_char (CHR ''9'')}
                 then node_print (bytes_of ''node_id set'' @ crlf) ((abs_node w)\<lparr>n_id := ucast (line_text w ! 1 - of_char (CHR ''0''))\<rparr>)
                 else abs_node w)"
        using Some N unfolding node_command_def by (simp only: if_True option.inject simp_thms)
      moreover have "line_text w ! 1 = line_buf w ! 1" using lt(2) True by simp
      moreover have "abs_node (v\<lparr>g_config := (g_config v)\<lparr>node_id := i\<rparr>\<rparr>) = (abs_node v)\<lparr>n_id := i\<rparr>" for v i
        by (simp add: abs_node_def line_text_def)
      ultimately show ?thesis
        using assms(1,3) True by (auto simp: handle_line_def Let_def z node_print_def)
    next
      case False
      then have N': "\<not> (2 \<le> length (line_text w) \<and> (line_text w ! 0 = of_char (CHR ''N'') \<or> line_text w ! 0 = of_char (CHR ''n'')))"
        using N by blast
      show ?thesis
      proof (cases "line_text w = bytes_of ''help''")
        case True
        then have "w' = (put_str help_text w)\<lparr>line_len := 0\<rparr>" "n' = node_print help_text (abs_node w)"
          using assms(1) False Some N' four [of "bytes_of ''help''"] by (simp_all add: handle_line_def node_command_def)
        then show ?thesis using assms(3) help_zero_free by (simp add: z)
      next
        case nh: False
        then have i: "line_text w = bytes_of ''info''" "n' = node_print (info_text (abs_node w)) (abs_node w)"
          using Some N' by (auto simp: node_command_def split: if_splits)
        then have "w' = (info_line w)\<lparr>line_len := 0\<rparr>"
          using assms(1) False nh four [of "bytes_of ''help''"] four [of "bytes_of ''info''"]
          unfolding handle_line_def by (simp only: if_False if_True simp_thms) (simp add: bytes_of_def)
        with i show ?thesis using info_refines [OF assms(2,3)] by (simp add: z)
      qed
    qed
    with node_line.command [OF Some] show ?thesis by blast
  qed
qed

lemma byte_refines:
  assumes "line_byte e b w = Inr w'" and "world_inv e w" and "online w" and "cryp_ok e"
  shows "node_byte e (tx_works e) b (abs_node w) (abs_node w')"
proof -
  have len: "length (line_buf w) = 200" "line_len w \<le> 199" using assms(2) by (simp_all add: world_inv_def)
  have ll: "length (line_text w) = line_len w" using len by (simp add: line_text_def)
  then have empty: "line_text w = [] \<longleftrightarrow> line_len w = 0" by auto
  show ?thesis
  proof (cases "b = 0x0D \<or> b = 0x0A")
    case True
    then have b: "b \<in> {0x0D, 0x0A}" by simp
    show ?thesis
    proof (cases "line_len w = 0")
      case True
      then have "w' = w" using assms(1) b by (auto simp: line_byte_def)
      with node_byte.enter_empty [OF b] True empty show ?thesis by simp
    next
      case False
      let ?w = "w\<lparr>line_buf := (line_buf w)[line_len w := 0]\<rparr>"
      have "handle_line e ?w = Inr w'" using assms(1) True False by (simp add: line_byte_def)
      moreover have "world_inv e ?w" using assms(2) by (simp add: world_inv_def)
      moreover have lt: "line_text ?w = line_text w" by (simp add: line_text_def)
      ultimately obtain n' where n': "node_line e (tx_works e) (line_text ?w) (abs_node ?w) n'" "abs_node w' = n'\<lparr>n_line := []\<rparr>"
        using line_refines [of e ?w w'] assms(3,4) by auto
      have "abs_node ?w = abs_node w" by (simp add: abs_node_def lt)
      then have "node_line e (tx_works e) (line_text w) (abs_node w) n'" using n'(1) by (simp only: lt)
      with node_byte.enter [OF b, of "abs_node w"] n'(2) False empty show ?thesis by simp
    qed
  next
    case False
    then have b: "b \<notin> {0x0D, 0x0A}" by simp
    show ?thesis
    proof (cases "line_len w < 199")
      case True
      then have w': "w' = w\<lparr>line_buf := (line_buf w)[line_len w := b], line_len := line_len w + 1\<rparr>"
        using assms(1) b by (simp add: line_byte_def)
      have "line_text w' = line_text w @ [b]"
        using len True by (simp add: w' line_text_def take_Suc_conv_app_nth)
      then have "abs_node w' = (abs_node w)\<lparr>n_line := n_line (abs_node w) @ [b]\<rparr>"
        by (simp add: abs_node_def) (simp add: w')
      with node_byte.insert [OF b, of "abs_node w"] ll True show ?thesis by simp
    next
      case False
      then have "w' = w" using assms(1) b by (simp add: line_byte_def)
      with node_byte.full [OF b, of "abs_node w"] ll False len show ?thesis by simp
    qed
  qed
qed

section \<open>A received packet\<close>

lemma deliver_refines:
  assumes "deliver_text e h d n w = Inr w'" and "world_inv e w" and "online w" and "cryp_ok e"
    and t: "t = take n d" "length t = n" and h: "h = header_of f"
    and f: "addressed f (abs_node w)" "frame_text e (n_key (abs_node w)) f = Some t"
  shows "node_text e (tx_works e) f (abs_node w) (abs_node w')"
proof -
  let ?w = "show_text d n w"
  have s: "abs_node ?w = node_print (report t (n_signal (abs_node w))) (abs_node w)"
    using abs_show_text [OF assms(2,3)] t by simp
  have pong: "t = bytes_of ''pong'' \<longleftrightarrow> n = 4 \<and> take 4 d = bytes_of ''pong''"
  proof
    assume "t = bytes_of ''pong''"
    moreover from this have "n = 4" using t(2) by simp
    ultimately show "n = 4 \<and> take 4 d = bytes_of ''pong''" using t(1) by simp
  qed (use t in simp)
  show ?thesis
  proof (cases "t = bytes_of ''pong''")
    case True
    then have "w' = ?w" using assms(1) pong by (simp add: deliver_text_def Let_def)
    with True node_text.pong [OF f(1)] f(2) s show ?thesis by simp
  next
    case False
    with assms(1) pong obtain ok where
      r: "send_lora_packet e (from_id h) (bytes_of ''pong'' @ [0]) 4 ?w = Inr (ok, w')"
      by (auto simp: deliver_text_def Let_def run_bind_eq_Inr)
    have "node_send e (tx_works e) (from_id h) (bytes_of ''pong'') (abs_node ?w) ok (abs_node w')"
      using send_refines [OF r _ _ assms(4)] assms(2) by (simp add: bytes_of_def)
    then show ?thesis
      using node_text.answered [OF f False] by (simp add: s h)
  qed
qed

lemma receive_refines:
  assumes "receive_packet e h n w = Inr w'" and "world_inv e w" and "online w" and "cryp_ok e"
    and "16 < n" and "n \<le> 255" and h: "h = header_of (lora_rx_buf w)" and f: "f = take n (lora_rx_buf w)"
    and adr: "addressed f (abs_node w)"
  shows "node_text e (tx_works e) f (abs_node w) (abs_node w')"
proof -
  let ?key = "hw_key (aes_st w)"
  have lf: "length f = n" using assms(2,6) f by (simp add: world_inv_def)
  have hf: "header_of f = h"
    unfolding h f using assms(2,5,6) by (intro header_of_take) (simp_all add: world_inv_def)
  let ?p = "take (n - 16) (drop 16 (lora_rx_buf w))"
  have p: "?p = drop 16 f" by (simp add: f drop_take)
  have fd: "ctr_spec e ?key (packet_id h) (from_id h) (n - 16) ?p = frame_data e ?key f"
    by (simp only: frame_data_def lf hf p)
  have le: "n - 16 \<le> 65520" using assms(6) by simp
  obtain aes' h' where a: "aes_ctr_crypt e ?p (n - 16) (packet_id h) (from_id h) (aes_st w) (hist w) =
      Inr (frame_data e ?key f, aes', h')" "hw_key aes' = ?key" "frames_sent h' = frames_sent (hist w)"
      "uart_out h' = uart_out (hist w)"
    by (rule aes_frames [OF assms(4) le, of ?p "packet_id h" "from_id h" "aes_st w" "hist w", unfolded fd])
  let ?w = "w\<lparr>aes_st := aes', hist := h'\<rparr>"
  have inv: "world_inv e ?w" using assms(2) by (simp add: world_inv_def radio_inv_def)
  have abs: "abs_node ?w = abs_node w" using a by (simp add: abs_node_def line_text_def)
  from assms(1) a obtain found out where dec: "pb_decode_data (frame_data e ?key f) (n - 16) = Inr (found, out)"
    and run: "(if found \<and> pb_payload_len out > 0
      then deliver_text e h (drop (the (pb_payload out)) (frame_data e ?key f)) (pb_payload_len out) ?w
      else Inr ?w) = Inr w'"
    by (auto simp: receive_packet_def Let_def run_bind_eq_Inr)
  show ?thesis
  proof (cases "found \<and> pb_payload_len out > 0")
    case False
    then have "w' = ?w" using run by auto
    moreover have "frame_text e ?key f = None" "decodes e ?key f"
      using False dec lf by (auto simp: frame_text_def decodes_def)
    ultimately show ?thesis
      using node_text.no_text [OF adr] by (simp add: abs)
  next
    case True
    let ?d = "drop (the (pb_payload out)) (frame_data e ?key f)"
    have "pb_decode_data (frame_data e ?key f) (n - 16) = Inr (True, out)" using dec True by simp
    from pb_payload_bound [OF this] obtain off where "pb_payload out = Some off" "off + pb_payload_len out \<le> n - 16"
      by blast
    then have t: "length (take (pb_payload_len out) ?d) = pb_payload_len out"
      by (simp add: frame_data_def lf)
    have ft: "frame_text e ?key f = Some (take (pb_payload_len out) ?d)"
      using True dec assms(5) by (simp add: frame_text_def lf bytes_at_def)
    have "deliver_text e h ?d (pb_payload_len out) ?w = Inr w'" using run True by simp
    from deliver_refines [OF this inv _ assms(4) refl t hf [symmetric]] adr ft assms(3) show ?thesis
      by (simp add: abs)
  qed
qed

lemma packet_refines:
  assumes "handle_packet e n w = Inr w'" and "world_inv e w" and "online w" and "cryp_ok e" and "n \<le> 255"
    and f: "f = take n (lora_rx_buf w)"
  shows "node_packet e (tx_works e) f (abs_node w) (abs_node w')"
proof (cases "n \<le> 16")
  case True
  then have "w' = w" "length f \<le> 16" using assms(1) f by (simp_all add: handle_packet_def)
  then show ?thesis by (simp add: node_packet.short)
next
  case False
  then have n: "16 < n" by simp
  have lf: "16 < length f" using assms(2,5) f n by (simp add: world_inv_def)
  let ?h = "header_of (lora_rx_buf w)"
  let ?w1 = "w\<lparr>flood_st := flood_seen (from_id ?h) (packet_id ?h) (flood_st w)\<rparr>"
  have inv1: "world_inv e ?w1" by (rule flood_seen_world_inv [OF assms(2)])
  have hf: "header_of f = ?h"
    unfolding f using assms(2,5) n by (intro header_of_take) (simp_all add: world_inv_def)
  have fl: "flood_inv (flood_st w)" using assms(2) by (simp add: world_inv_def)
  have abs1: "abs_node ?w1 = node_register (from_id (header_of f), packet_id (header_of f)) (abs_node w)"
    by (simp add: abs_node_def node_register_def line_text_def seen_window_insert [OF fl] hf)
  obtain w2 where
    w2: "(if to_id ?h = MESH_BROADCAST_ID \<or> to_id ?h = node_id (g_config w) then receive_packet e ?h n ?w1 else Inr ?w1) = Inr w2"
    and w': "(if flood_should_forward (flood_st w) (Some (lora_rx_buf w)) n then forward_packet e n w2 else Inr w2) = Inr w'"
    using assms(1) n by (auto simp: handle_packet_def Let_def run_bind_eq_Inr)
  have adr: "addressed f (abs_node ?w1) \<longleftrightarrow> to_id ?h = MESH_BROADCAST_ID \<or> to_id ?h = node_id (g_config w)"
    by (simp add: addressed_def hf)
  have dlv: "node_text e (tx_works e) f (abs_node ?w1) (abs_node w2) \<and> world_inv e w2 \<and> lora_rx_buf w2 = lora_rx_buf w"
  proof (cases "to_id ?h = MESH_BROADCAST_ID \<or> to_id ?h = node_id (g_config w)")
    case True
    then have r: "receive_packet e ?h n ?w1 = Inr w2" using w2 by simp
    from receive_refines [OF r inv1 _ assms(4) n assms(5), of f] receive_frames [OF r inv1 assms(4) n assms(5) _ refl refl]
      True adr assms(3)
    show ?thesis by (simp add: f)
  next
    case False
    then have "w2 = ?w1" using w2 by simp
    with False adr inv1 show ?thesis by (simp add: node_text.foreign)
  qed
  have fwd: "flood_should_forward (flood_st w) (Some (lora_rx_buf w)) n \<longleftrightarrow> relays f (abs_node w)"
    using n by (simp add: flood_should_forward_iff relays_def hf hops_def flood_was_seen_iff [OF fl])
  show ?thesis
  proof (cases "relays f (abs_node w)")
    case False
    then have "w' = w2" using w' fwd by simp
    with dlv False lf show ?thesis
      by (auto simp: abs1 intro: node_packet.keep)
  next
    case True
    then have fp: "forward_packet e n w2 = Inr w'" using w' fwd by simp
    from fp n assms(5) dlv obtain ok h' where
      tx: "stm32wl_radio_tx e (Some (relay_frame (relay_id w2) (lora_rx_buf w2))) n (drv w2, hist w2) = Inr (ok, (drv w2, h'))"
      and upd: "w' = w2\<lparr>lora_rx_buf := relay_frame (relay_id w2) (lora_rx_buf w2), hist := h'\<rparr>"
      and u: "uart_out h' = uart_out (hist w2)"
      and okf: "ok \<longrightarrow> frames_sent h' = frames_sent (hist w2) @ [relay_frame (relay_id w2) (take n (lora_rx_buf w2))]"
      by (elim conjE) (erule forward_result, auto)
    have works: "ok" if "tx_works e"
      using tx_works_runs [OF that, of n "relay_frame (relay_id w2) (lora_rx_buf w2)" "drv w2" "hist w2"] assms(5) tx by auto
    have "world_inv e w2" using dlv by simp
    from forward_frames [OF fp n assms(5) this] have sent: "frames_sent h' = frames_sent (hist w2) \<or>
        frames_sent h' = frames_sent (hist w2) @ [relay_frame (relay_id w2) f]"
      using dlv by (auto simp: upd f)
    have abs': "abs_node w' = (abs_node w2)\<lparr>n_aired := frames_sent h'\<rparr>"
      by (simp add: upd abs_node_def line_text_def u)
    have rf: "node_relay_frame f (abs_node w2) = relay_frame (relay_id w2) f"
      by (simp add: node_relay_frame_def relay_id_def)
    show ?thesis
    proof (cases "frames_sent h' = frames_sent (hist w2) @ [relay_frame (relay_id w2) f]")
      case aired: True
      then have "abs_node w' = node_air (node_relay_frame f (abs_node w2)) (abs_node w2)"
        by (simp add: abs' rf node_air_def)
      with node_packet.relay [OF lf True] dlv show ?thesis by (simp add: abs1)
    next
      case nf: False
      then have "frames_sent h' = frames_sent (hist w2)" using sent by blast
      then have "abs_node w' = abs_node w2" by (simp add: upd abs_node_def line_text_def u)
      moreover have "\<not> tx_works e" using works okf nf dlv f by auto
      ultimately show ?thesis using node_packet.keep [OF lf] dlv by (simp add: abs1)
    qed
  qed
qed

end
