(* ===== verification/Node_Runs.thy ===== *)
theory Node_Runs
  imports Node_Spec
begin

text \<open>
  Runs: the steps of the main loop and the interrupts between them, with what the outside sees of them
  as labels, simulate the steps of the abstract node. What is proved of the abstract node's runs holds of
  the program; in particular every frame a node ever transmits is accounted for.
\<close>

section \<open>The steps of the abstract node\<close>

text \<open>
  The node goes through the phases of the loop. It takes bytes from its queue until this is empty, then
  what the radio received, if anything, and its signal values, then it handles that. Meanwhile bytes are
  typed; the queue holds 255.
\<close>

inductive node_step :: "hal_env \<Rightarrow> bool \<Rightarrow> u8 list phase \<times> node \<Rightarrow> loop_event \<Rightarrow> u8 list phase \<times> node \<Rightarrow> bool"
  for e :: hal_env and works :: bool where
  types: "length (n_input n) < 255 \<Longrightarrow> node_step e works (ph, n) (Typed b) (ph, n\<lparr>n_input := n_input n @ [b]\<rparr>)"
| types_full: "length (n_input n) = 255 \<Longrightarrow> node_step e works (ph, n) (Typed b) (ph, n)"
| begins: "node_step e works (Top, n) Silent (Terminal, n)"
| consumes: "n_input n = b # bs \<Longrightarrow> node_byte e works b (n\<lparr>n_input := bs\<rparr>) n' \<Longrightarrow>
    node_step e works (Terminal, n) (Consumes b) (Terminal, n')"
| drained: "n_input n = [] \<Longrightarrow> node_step e works (Terminal, n) Silent (Radio, n)"
| polls: "node_step e works (Radio, n) (Polls f s) (Handling f, n\<lparr>n_signal := s\<rparr>)"
| handles: "node_packet e works f n n' \<Longrightarrow> node_step e works (Handling f, n) Silent (Top, n')"
| silent: "node_step e works s Silent s"

inductive_cases node_stepE: "node_step e works s ev s'"

section \<open>The simulation\<close>

definition abs_state :: "nat phase \<times> world \<Rightarrow> u8 list phase \<times> node" where
  "abs_state s = (map_phase (\<lambda>n. take n (lora_rx_buf (snd s))) (fst s), abs_node (snd s))"

definition sys_inv :: "hal_env \<Rightarrow> nat phase \<times> world \<Rightarrow> bool" where
  "sys_inv e s \<longleftrightarrow> loop_inv e s \<and> online (snd s) \<and> cryp_ok e"

lemma work_refines:
  assumes "loop_work e s ev s'" and "sys_inv e s"
  shows "node_step e (tx_works e) (abs_state s) ev (abs_state s') \<and> online (snd s')"
  using assms(1)
proof cases
  case (begins w led' h)
  have "frames_sent h = frames_sent (hist w)" "uart_out h = uart_out (hist w)"
    using begins(4) by (auto simp: led_tick_def Let_def frames_sent_issue split: if_splits)
  then have "abs_node (w\<lparr>led_st := led', hist := h\<rparr>) = abs_node w"
    by (simp add: abs_node_def line_text_def)
  with begins assms(2) show ?thesis by (simp add: abs_state_def sys_inv_def node_step.begins)
next
  case (takes w b st' w')
  have w: "world_inv e w" "online w" "cryp_ok e" using assms(2) takes(1) by (simp_all add: sys_inv_def loop_inv_def)
  let ?w = "w\<lparr>serial_st := st'\<rparr>"
  note t = take_byte [OF takes(4) w(1)]
  have on: "online ?w" using takes(4) w(2) by (auto simp: serial_next_def serial_get_byte_def split: if_splits)
  have "abs_node ?w = (abs_node w)\<lparr>n_input := ring_contents st'\<rparr>"
    using on w(2) by (simp add: abs_node_def line_text_def)
  with byte_refines [OF takes(5) t(1) on w(3)] node_step.consumes [of "abs_node w" b "ring_contents st'"] t(2)
  have "node_step e (tx_works e) (Terminal, abs_node w) (Consumes b) (Terminal, abs_node w')" by simp
  moreover have "online w'" using line_byte_keeps(1) [OF takes(5)] on by simp
  ultimately show ?thesis by (simp add: takes abs_state_def)
next
  case (drained w)
  have "serial_inv (serial_st w)" using assms(2) drained(1) by (simp add: sys_inv_def loop_inv_def world_inv_def)
  then have "n_input (abs_node w) = []" using rx_queue.get_None_iff drained(4) by simp
  with drained assms(2) show ?thesis by (simp add: abs_state_def sys_inv_def node_step.drained)
next
  case (polls w n w')
  have "world_inv e w" using assms(2) polls(1) by (simp add: sys_inv_def loop_inv_def)
  from radio_poll_result [OF polls(4) this] obtain b d h where w': "w' = w\<lparr>lora_rx_buf := b, drv := d, hist := h\<rparr>"
    "frames_sent h = frames_sent (hist w)" "uart_out h = uart_out (hist w)" by blast
  then have "abs_node w' = (abs_node w)\<lparr>n_signal := (last_rssi (drv w'), last_snr (drv w'))\<rparr>"
    by (simp add: abs_node_def line_text_def)
  with polls w' assms(2) show ?thesis by (simp add: abs_state_def sys_inv_def node_step.polls)
next
  case (handles n w w')
  have w: "world_inv e w" "online w" "cryp_ok e" "n \<le> 255" "phy w = Some (stm32wl_ops e)"
    using assms(2) handles(1) by (simp_all add: sys_inv_def loop_inv_def world_inv_def)
  from packet_refines [OF handles(4) w(1-4) refl] packet_unaware.keeps(1) [OF handles(4) w(5)] w(2)
  show ?thesis by (simp add: handles abs_state_def node_step.handles)
qed

lemma irq_refines:
  assumes "sys_inv e (ph, w)"
  shows "node_step e (tx_works e) (abs_state (ph, w)) (irq_event i) (abs_state (ph, isr i w)) \<and> online (isr i w)"
proof (cases "\<exists>rdr. i = Uart_Irq True rdr")
  case True
  then obtain rdr where i: "i = Uart_Irq True rdr" by blast
  let ?b = "ucast (rdr AND 0xFF) :: u8"
  let ?st = "serial_push_byte ?b (serial_st w)"
  have st: "serial_inv (serial_st w)" using assms by (simp add: sys_inv_def loop_inv_def world_inv_def)
  have on: "online (isr i w)" using assms by (simp add: i sys_inv_def USART1_IRQHandler_def serial_push_byte_def Let_def)
  have abs: "abs_state (ph, isr i w) = (fst (abs_state (ph, w)), (abs_node w)\<lparr>n_input := ring_contents ?st\<rparr>)"
    by (simp add: i USART1_IRQHandler_def abs_state_def abs_node_def line_text_def serial_push_byte_def Let_def)
  show ?thesis
  proof (cases "length (ring_contents (serial_st w)) < 255")
    case True
    then have "ring_contents ?st = ring_contents (serial_st w) @ [?b]"
      using rx_queue.contents_put [OF st, of ?b] by simp
    with node_step.types [of "abs_node w" e "tx_works e" "fst (abs_state (ph, w))" ?b] True on
    show ?thesis by (simp add: abs) (simp add: i abs_state_def)
  next
    case False
    then have "ring_contents ?st = ring_contents (serial_st w)" "length (ring_contents (serial_st w)) = 255"
      using rx_queue.contents_put [OF st, of ?b] rx_queue.bounded [OF st] by simp_all
    moreover from this have "(abs_node w)\<lparr>n_input := ring_contents ?st\<rparr> = abs_node w" by simp
    ultimately show ?thesis
      using node_step.types_full [of "abs_node w" e "tx_works e" "fst (abs_state (ph, w))" ?b] on
      by (simp only: abs) (simp add: i abs_state_def)
  qed
next
  case False
  then have "irq_event i = Silent" "abs_state (ph, isr i w) = abs_state (ph, w)" "online (isr i w) = online w"
    by (cases i; simp add: abs_state_def abs_node_def line_text_def USART1_IRQHandler_def HAL_SUBGHZ_RxCpltCallback_def
        HAL_SUBGHZ_TxCpltCallback_def HAL_SUBGHZ_RxTxTimeoutCallback_def)+
  with assms show ?thesis by (simp add: node_step.silent sys_inv_def)
qed

lemma step_refines:
  assumes "loop_step e s ev s'" and "sys_inv e s"
  shows "node_step e (tx_works e) (abs_state s) ev (abs_state s') \<and> sys_inv e s'"
proof -
  have "loop_inv e s'" using loop_step_inv [OF assms(1)] assms(2) by (simp add: sys_inv_def)
  with assms show ?thesis
    by (cases rule: loop_step.cases) (use work_refines irq_refines in \<open>auto simp: sys_inv_def\<close>)
qed

interpretation node_sim: simulation "loop_step e" "node_step e (tx_works e)" abs_state "sys_inv e" for e
  by unfold_locales (use step_refines in blast)+

section \<open>Accounting for the frames on the air\<close>

text \<open>
  Where a transmitted frame comes from: it is the \<open>k\<close>-th packet the node made itself, a broadcast text or
  an answer, or it is the relayed copy of a received frame.
\<close>

datatype origin = Own nat | Relayed "u8 list"

fun explains :: "hal_env \<Rightarrow> u32 list \<Rightarrow> u8 list set \<Rightarrow> origin \<Rightarrow> u8 list \<Rightarrow> bool" where
  "explains e key R (Own k) f \<longleftrightarrow>
     (\<exists>to id t. (to = MESH_BROADCAST_ID \<or> t = bytes_of ''pong'') \<and> length t \<le> 127 \<and>
        f = text_frame e key \<lparr>to_id = to, from_id = id, packet_id = of_nat k, flags = 3, channel = 0,
          next_hop = 0, relay = 0\<rparr> t)"
| "explains e key R (Relayed g) f \<longleftrightarrow> g \<in> R \<and> 16 < length g \<and> 0 < hops g \<and> (\<exists>n8. f = relay_frame n8 g)"

primrec own_numbers :: "origin list \<Rightarrow> nat list" where
  "own_numbers [] = []"
| "own_numbers (p # ps) = (case p of Own k \<Rightarrow> k # own_numbers ps | Relayed _ \<Rightarrow> own_numbers ps)"

lemma own_numbers_append [simp]: "own_numbers (ps @ qs) = own_numbers ps @ own_numbers qs"
  by (induction ps) (auto split: origin.split)

definition accounted :: "hal_env \<Rightarrow> u32 list \<Rightarrow> u8 list set \<Rightarrow> nat \<Rightarrow> u8 list list \<Rightarrow> bool" where
  "accounted e key R c fs \<longleftrightarrow>
     (\<exists>ps. list_all2 (explains e key R) ps fs \<and> sorted_wrt (<) (own_numbers ps) \<and> (\<forall>k \<in> set (own_numbers ps). k < c))"

lemma explains_mono: "R \<subseteq> R' \<Longrightarrow> explains e key R p f \<Longrightarrow> explains e key R' p f"
  by (cases p) auto

lemma accounted_mono:
  assumes "accounted e key R c fs" and "R \<subseteq> R'" and "c \<le> c'"
  shows "accounted e key R' c' fs"
proof -
  obtain ps where ps: "list_all2 (explains e key R) ps fs" "sorted_wrt (<) (own_numbers ps)"
    "\<forall>k \<in> set (own_numbers ps). k < c"
    using assms(1) by (auto simp: accounted_def)
  have "list_all2 (explains e key R') ps fs"
    by (rule list_all2_mono [OF ps(1)]) (rule explains_mono [OF assms(2)])
  with ps(2,3) assms(3) show ?thesis by (fastforce simp: accounted_def)
qed

lemma accounted_own:
  assumes "accounted e key R c fs" and "explains e key R (Own c) f"
  shows "accounted e key R (c + 1) (fs @ [f])"
proof -
  obtain ps where "list_all2 (explains e key R) ps fs" "sorted_wrt (<) (own_numbers ps)"
    "\<forall>k \<in> set (own_numbers ps). k < c"
    using assms(1) by (auto simp: accounted_def)
  moreover from this have "list_all2 (explains e key R) (ps @ [Own c]) (fs @ [f])"
    using assms(2) by (intro list_all2_appendI) (simp_all del: explains.simps)
  ultimately show ?thesis
    by (intro accounted_def [THEN iffD2] exI [of _ "ps @ [Own c]"])
      (auto simp: sorted_wrt_append less_SucI simp del: explains.simps)
qed

lemma accounted_relay:
  assumes "accounted e key R c fs" and "explains e key R (Relayed g) f"
  shows "accounted e key R c (fs @ [f])"
proof -
  obtain ps where "list_all2 (explains e key R) ps fs" "sorted_wrt (<) (own_numbers ps)"
    "\<forall>k \<in> set (own_numbers ps). k < c"
    using assms(1) by (auto simp: accounted_def)
  moreover from this have "list_all2 (explains e key R) (ps @ [Relayed g]) (fs @ [f])"
    using assms(2) by (intro list_all2_appendI) (simp_all del: explains.simps)
  ultimately show ?thesis
    by (intro accounted_def [THEN iffD2] exI [of _ "ps @ [Relayed g]"]) (simp del: explains.simps)
qed

text \<open>The node has used \<open>c\<close> packet ids, and what it has transmitted is accounted for.\<close>

definition node_account :: "hal_env \<Rightarrow> u32 list \<Rightarrow> u8 list set \<Rightarrow> nat \<Rightarrow> node \<Rightarrow> bool" where
  "node_account e key R c n \<longleftrightarrow> n_key n = key \<and> n_next n = of_nat c \<and> accounted e key R c (n_aired n)"

lemma node_account_update [simp]:
  "node_account e key R c (n\<lparr>n_line := l\<rparr>) = node_account e key R c n"
  "node_account e key R c (n\<lparr>n_input := i\<rparr>) = node_account e key R c n"
  "node_account e key R c (n\<lparr>n_signal := s\<rparr>) = node_account e key R c n"
  "node_account e key R c (n\<lparr>n_id := d\<rparr>) = node_account e key R c n"
  "node_account e key R c (node_print t n) = node_account e key R c n"
  "node_account e key R c (node_register k n) = node_account e key R c n"
  by (simp_all add: node_account_def node_print_def node_register_def)

text \<open>The same, with at most \<open>m\<close> packet ids used.\<close>

definition account_by :: "hal_env \<Rightarrow> u32 list \<Rightarrow> u8 list set \<Rightarrow> nat \<Rightarrow> node \<Rightarrow> bool" where
  "account_by e key R m n \<longleftrightarrow> (\<exists>c \<le> m. node_account e key R c n)"

lemma account_byI: "node_account e key R c n \<Longrightarrow> c \<le> m \<Longrightarrow> account_by e key R m n"
  by (auto simp: account_by_def)

lemma account_byE:
  assumes "account_by e key R m n"
  obtains c where "c \<le> m" "node_account e key R c n"
  using assms by (auto simp: account_by_def)

lemma account_by_update [simp]:
  "account_by e key R m (n\<lparr>n_line := l\<rparr>) = account_by e key R m n"
  "account_by e key R m (node_print t n) = account_by e key R m n"
  by (simp_all add: account_by_def)

lemma input_update [simp]:
  "n_input (node_print t n) = n_input n" "n_input (node_register k n) = n_input n" "n_input (node_air f n) = n_input n"
  by (simp_all add: node_print_def node_register_def node_air_def)

lemma send_account:
  assumes "node_send e works to t n ok n'" and "node_account e key R c n" and "to = MESH_BROADCAST_ID \<or> t = bytes_of ''pong''"
  shows "n_input n' = n_input n \<and> account_by e key R (c + 1) n'"
  using assms(1)
proof cases
  case too_long
  with assms(2) show ?thesis by (auto intro: account_byI)
next
  case aired
  have a: "accounted e key R c (n_aired n)" "n_key n = key" "n_next n = of_nat c"
    using assms(2) by (simp_all add: node_account_def)
  have "explains e key R (Own c) (text_frame e (n_key n) (node_header to n) t)"
    using assms(3) aired a(2,3) by (auto simp: node_header_def)
  from accounted_own [OF a(1) this] a(2,3) have "node_account e key R (c + 1) n'"
    by (simp add: aired(1) node_account_def node_air_def node_register_def add.commute)
  then show ?thesis by (simp add: aired(1) account_byI)
next
  case failed
  have "accounted e key R (c + 1) (n_aired n)" "n_key n = key" "n_next n = of_nat c"
    using assms(2) accounted_mono [of e key R c "n_aired n" R "c + 1"] by (simp_all add: node_account_def)
  then have "node_account e key R (c + 1) n'"
    by (simp add: failed(2) node_account_def node_register_def add.commute)
  then show ?thesis by (simp add: failed(2) account_byI)
qed

lemma command_account:
  assumes "node_command l n = Some n'"
  shows "node_account e key R c n' = node_account e key R c n \<and> n_input n' = n_input n"
  using assms by (auto simp: node_command_def split: if_splits)

lemma line_account:
  assumes "node_line e works l n n'" and "node_account e key R c n"
  shows "n_input n' = n_input n \<and> account_by e key R (c + 1) n'"
  using assms(1)
proof cases
  case command
  with command_account [OF command, of e key R c] assms(2) show ?thesis by (auto intro: account_byI [of e key R c])
next
  case (message ok n2)
  with send_account [OF message(3) assms(2)] show ?thesis by simp
qed

lemma byte_account:
  assumes "node_byte e works b n n'" and "node_account e key R c n"
  shows "n_input n' = n_input n \<and> account_by e key R (c + 1) n'"
  using assms(1)
proof cases
  case (enter n1)
  with line_account [OF enter(4) assms(2)] show ?thesis by simp
qed (use assms(2) in \<open>simp_all add: account_byI\<close>)

lemma text_account:
  assumes "node_text e works f n n'" and "node_account e key R c n"
  shows "n_input n' = n_input n \<and> account_by e key R (c + 1) n'"
  using assms(1)
proof cases
  case (answered t ok)
  with send_account [OF answered(4), of key R c] assms(2) show ?thesis by simp
qed (use assms(2) in \<open>simp_all add: account_byI\<close>)

lemma packet_account:
  assumes "node_packet e works f n n'" and "node_account e key R c n" and "f \<in> R"
  shows "n_input n' = n_input n \<and> account_by e key R (c + 1) n'"
  using assms(1)
proof cases
  case short
  with assms(2) show ?thesis by (simp add: account_byI)
next
  case keep
  with text_account [OF keep(3), of key R c] assms(2) show ?thesis by simp
next
  case (relay n1)
  have "n_input n1 = n_input n" and "account_by e key R (c + 1) n1"
    using text_account [OF relay(4), of key R c] assms(2) by simp_all
  moreover from this(2) obtain c' where c': "c' \<le> c + 1" "node_account e key R c' n1" by (rule account_byE)
  have "explains e key R (Relayed f) (node_relay_frame f n1)"
    using assms(3) relay(2,3) by (auto simp: relays_def node_relay_frame_def)
  with c'(2) accounted_relay [of e key R c' "n_aired n1"] have "node_account e key R c' n'"
    by (simp add: relay(1) node_account_def node_air_def)
  with c'(1) have "account_by e key R (c + 1) n'" by (rule account_byI [rotated])
  ultimately show ?thesis by (simp add: relay(1))
qed

section \<open>Runs of the program\<close>

primrec frames_received :: "loop_event list \<Rightarrow> u8 list set" where
  "frames_received [] = {}"
| "frames_received (ev # evs) = (case ev of Polls f s \<Rightarrow> insert f (frames_received evs) | _ \<Rightarrow> frames_received evs)"

lemma frames_received_append [simp]:
  "frames_received (evs @ evs') = frames_received evs \<union> frames_received evs'"
  by (induction evs) (auto split: loop_event.split)

text \<open>
  After \<open>evs\<close>: every packet id used and every byte that waits has cost an event, and the packet being
  handled was received.
\<close>

definition run_account :: "hal_env \<Rightarrow> u32 list \<Rightarrow> loop_event list \<Rightarrow> u8 list phase \<times> node \<Rightarrow> bool" where
  "run_account e key evs s \<longleftrightarrow>
     (\<exists>c. node_account e key (frames_received evs) c (snd s) \<and> c + length (n_input (snd s)) \<le> length evs) \<and>
     (\<forall>f. fst s = Handling f \<longrightarrow> f \<in> frames_received evs)"

lemma step_account:
  assumes "run_account e key evs s" and "node_step e works s ev s'"
  shows "run_account e key (evs @ [ev]) s'"
proof -
  let ?R = "frames_received (evs @ [ev])"
  obtain c where c: "node_account e key (frames_received evs) c (snd s)" "c + length (n_input (snd s)) \<le> length evs"
    using assms(1) by (auto simp: run_account_def)
  then have a: "node_account e key ?R c (snd s)"
    by (auto simp: node_account_def intro: accounted_mono)
  from assms(2) show ?thesis
  proof cases
    case (consumes n b bs n')
    from a have "node_account e key ?R c (n\<lparr>n_input := bs\<rparr>)" by (simp add: consumes(1))
    from byte_account [OF consumes(5) this] obtain c' where
      "n_input n' = bs" "c' \<le> c + 1" "node_account e key ?R c' n'" by (auto elim: account_byE)
    with c(2) consumes show ?thesis by (auto simp: run_account_def intro!: exI [of _ c'])
  next
    case (handles f n n')
    have "f \<in> ?R" using assms(1) by (simp add: handles(1) run_account_def)
    with packet_account [OF handles(4), of key ?R c] a obtain c' where
      "n_input n' = n_input n" "c' \<le> c + 1" "node_account e key ?R c' n'"
      by (auto simp: handles(1) elim: account_byE)
    with c(2) handles show ?thesis by (auto simp: run_account_def intro!: exI [of _ c'])
  qed (use a c(2) assms(1) in \<open>auto simp: run_account_def intro!: exI [of _ c]\<close>)
qed

lemma own_ids_distinct:
  assumes "sorted_wrt (<) ks" and "\<forall>k \<in> set ks. k < m" and "m \<le> 2 ^ 32"
  shows "distinct (map (of_nat :: nat \<Rightarrow> u32) ks)"
proof -
  have "distinct ks" using assms(1) by (metis strict_sorted_iff)
  moreover have "inj_on (of_nat :: nat \<Rightarrow> u32) (set ks)"
  proof (rule inj_onI)
    fix i j assume "i \<in> set ks" "j \<in> set ks" "(of_nat i :: u32) = of_nat j"
    then have "unat (of_nat i :: u32) = unat (of_nat j :: u32)" "i < 2 ^ 32" "j < 2 ^ 32"
      using assms(2,3) by (auto intro: less_le_trans)
    then show "i = j" by (simp add: unsigned_of_nat take_bit_nat_eq_self)
  qed
  ultimately show ?thesis by (simp add: distinct_map)
qed

lemma boot_sys_inv: "main_boot e hal fl world_reset = Inr w0 \<Longrightarrow> cryp_ok e \<Longrightarrow> sys_inv e (Top, w0)"
  by (simp add: sys_inv_def loop_inv_def main_boot_result)

lemma run_accounted:
  assumes "main_boot e hal fl world_reset = Inr w0" and "trace (loop_step e) (Top, w0) evs s" and "cryp_ok e"
  shows "run_account e (hw_key (aes_st w0)) evs (abs_state s)"
proof (rule node_sim.transfer_invariant [OF assms(2)])
  show "sys_inv e (Top, w0)" by (rule boot_sys_inv [OF assms(1,3)])
  show "run_account e (hw_key (aes_st w0)) [] (abs_state (Top, w0))"
    using main_boot_idle [OF assms(1)] main_boot_result(4) [OF assms(1)]
    by (auto simp: run_account_def node_account_def accounted_def abs_state_def)
qed (rule step_account)

text \<open>What the operator sees a node to be after start-up; \<open>s\<close> is what it has printed.\<close>

definition node_boot :: "device_config \<Rightarrow> u8 list \<Rightarrow> node" where
  "node_boot cfg s = \<lparr>n_id = node_id cfg, n_key = bytes_to_be_words (channel_psk cfg), n_next = 0,
     n_seen = replicate 32 (0, 0), n_line = [], n_input = [], n_signal = (0, 0),
     n_params = \<lparr>sf = 11, bw_hz = 250000, cr = 5, freq_hz = 869525000\<rparr>, n_aired = [], n_shown = s\<rparr>"

lemma abs_boot:
  assumes "main_boot e hal fl world_reset = Inr w"
  shows "abs_node w = node_boot (stored_config hal fl) (shown w)"
  by (simp add: abs_node_def node_boot_def main_boot_result [OF assms] main_boot_idle [OF assms])

text \<open>A run: the node starts, \<open>hi\<close> is typed, and an iteration sends it.\<close>

lemma demo_iteration:
  assumes "world_inv demo_tx_env w" and "ring_contents (serial_st w) = [0x68, 0x69, 0x0D]" and "line_len w = 0"
  obtains w' where "mesh_mini_loop demo_tx_env w = Inr w'" "received demo_tx_env w = []"
    "frames_sent (hist w') = frames_sent (hist w) @
       [text_frame demo_tx_env (hw_key (aes_st w)) (own_header MESH_BROADCAST_ID w) [0x68, 0x69]]"
proof -
  obtain led' where led: "led_tick demo_tx_env (led_st w) (hist w) = (led', loop_hist demo_tx_env w)"
    by (metis loop_hist_def prod.collapse)
  let ?w0 = "w\<lparr>led_st := led', hist := loop_hist demo_tx_env w\<rparr>"
  have inv: "world_inv demo_tx_env ?w0" using assms(1) by (simp add: world_inv_def radio_inv_def)
  have ring: "ring_contents (serial_st ?w0) = [0x68, 0x69] @ [0x0D]" "line_len ?w0 = 0" using assms(2,3) by simp_all
  have cmd: "\<not> is_command [0x68, 0x69]" by (simp add: is_command_def bytes_of_def)
  obtain w1 where w1: "uart_rx_line_poll demo_tx_env ?w0 = Inr w1"
    "frames_sent (hist w1) = frames_sent (hist w) @
       [text_frame demo_tx_env (hw_key (aes_st w)) (own_header MESH_BROADCAST_ID w) [0x68, 0x69]]"
    using typed_line_sent [OF inv ring _ _ _ _ cmd demo_tx_env_cryp demo_tx_works]
    by (auto simp: loop_hist_out own_header_def)
  have "world_inv demo_tx_env w1"
    using w1(1) line_bytes_keeps [OF _ inv refl] by (simp add: uart_rx_line_poll_bytes [OF inv])
  then have p: "phy w1 = Some (stm32wl_ops demo_tx_env)" by (simp add: world_inv_def)
  have "\<exists>r. stm32wl_radio_rx_poll demo_tx_env (Some (lora_rx_buf w1)) 256 (drv w1, hist w1) = (0, Some (lora_rx_buf w1), r)"
    by (cases "rx_pending (drv w1)") (simp_all add: stm32wl_radio_rx_poll_def Let_def call_bytes_few call_ok_def)
  then obtain d2 h2 where rx: "stm32wl_radio_rx_poll demo_tx_env (Some (lora_rx_buf w1)) 256 (drv w1, hist w1) =
      (0, Some (lora_rx_buf w1), (d2, h2))"
    by auto
  let ?w2 = "w1\<lparr>drv := d2, hist := h2\<rparr>"
  have poll: "poll_phase demo_tx_env w = Inr (0, ?w2)"
    using led w1(1) rx p by (simp add: poll_phase_def)
  then have "mesh_mini_loop demo_tx_env w = Inr ?w2"
    by (simp add: mesh_mini_loop_phases handle_packet_def)
  moreover have "received demo_tx_env w = []" by (simp add: received_def poll)
  ultimately show ?thesis
    using w1(2) rx_poll_frames [OF rx] by (intro that [of ?w2]) simp_all
qed

text \<open>A byte that is typed between two steps.\<close>

definition typed :: "u8 \<Rightarrow> world \<Rightarrow> world" where
  "typed b w = w\<lparr>serial_st := serial_push_byte b (serial_st w)\<rparr>"

lemma typed_step: "loop_step e (ph, w) (Typed b) (ph, typed b w)"
proof -
  have "(ucast b :: u16) AND 0xFF = take_bit 8 (ucast b)"
    by (simp add: take_bit_eq_mask mask_eq_exp_minus_1)
  then have "ucast ((ucast b :: u16) AND 0xFF) = b"
    unfolding \<open>_ = take_bit 8 _\<close> by (intro bit_word_eqI) (simp add: bit_simps)
  then show ?thesis
    using loop_step.interrupt [of e ph w "Uart_Irq True (ucast b)"] by (simp add: typed_def USART1_IRQHandler_def)
qed

lemma typed_trace: "trace (loop_step e) (ph, w) (map Typed bs) (ph, fold typed bs w)"
proof (induction bs arbitrary: w)
  case (Cons b bs)
  then show ?case using typed_step [of e ph w b] by (auto simp: trace_Cons_iff)
qed simp

definition demo_typed :: "world \<Rightarrow> world" where
  "demo_typed w = w\<lparr>serial_st := fold serial_push_byte [0x68, 0x69, 0x0D] (serial_st w)\<rparr>"

lemma demo_typed_state:
  assumes "world_inv e w" and "ring_contents (serial_st w) = []" and "line_text w = []"
  shows "world_inv e (demo_typed w)" and "ring_contents (serial_st (demo_typed w)) = [0x68, 0x69, 0x0D]"
    and "line_len (demo_typed w) = 0" and "hist (demo_typed w) = hist w" and "drv (demo_typed w) = drv w"
    and "aes_st (demo_typed w) = aes_st w" and "own_header to (demo_typed w) = own_header to w"
proof -
  have q: "serial_inv (serial_st w)" "line_len w = 0"
    using assms(1,3) by (auto simp: world_inv_def line_text_def)
  have "serial_inv (serial_st (demo_typed w))"
    using rx_queue.inv_puts [OF q(1), of "[0x68, 0x69, 0x0D]"] by (simp only: demo_typed_def) simp
  with assms(1) show "world_inv e (demo_typed w)" by (simp add: world_inv_def) (simp add: demo_typed_def)
  show "ring_contents (serial_st (demo_typed w)) = [0x68, 0x69, 0x0D]"
    using rx_queue.contents_puts [OF q(1), of "[0x68, 0x69, 0x0D]"] assms(2) by (simp add: demo_typed_def del: fold_simps)
  show "line_len (demo_typed w) = 0" "hist (demo_typed w) = hist w" "drv (demo_typed w) = drv w"
    "aes_st (demo_typed w) = aes_st w" "own_header to (demo_typed w) = own_header to w"
    by (simp_all add: demo_typed_def own_header_def q)
qed

text \<open>The steps of an iteration are steps of the system.\<close>

lemma work_trace: "trace (loop_work e) s evs s' \<Longrightarrow> trace (loop_step e) s evs s'"
  by (induction rule: trace.induct) (auto intro: trace.intros loop_step.work)

lemma demo_work:
  obtains w0 s w where "main_boot demo_tx_env demo_flash (False, (\<lambda>_. 0), 8) world_reset = Inr w0"
    "trace (loop_step demo_tx_env) (Top, w0) (map Typed [0x68, 0x69, 0x0D]) (Top, demo_typed w0)"
    "trace (loop_work demo_tx_env) (Top, demo_typed w0) [Silent, Consumes 0x68, Consumes 0x69, Consumes 0x0D, Silent,
       Polls [] s, Silent] (Top, w)"
    "frames_sent (hist w) =
       [text_frame demo_tx_env (hw_key (aes_st w0)) (own_header MESH_BROADCAST_ID w0) [0x68, 0x69]]"
proof -
  obtain w0 where b: "main_boot demo_tx_env demo_flash (False, (\<lambda>_. 0), 8) world_reset = Inr w0"
    by (rule demo_boot [OF demo_tx_env_simps(3)])
  note st = demo_typed_state [OF main_boot_result(1) [OF b] main_boot_idle(2,3) [OF b]]
  obtain w where w: "mesh_mini_loop demo_tx_env (demo_typed w0) = Inr w" "received demo_tx_env (demo_typed w0) = []"
    "frames_sent (hist w) = frames_sent (hist (demo_typed w0)) @
       [text_frame demo_tx_env (hw_key (aes_st (demo_typed w0))) (own_header MESH_BROADCAST_ID (demo_typed w0)) [0x68, 0x69]]"
    by (rule demo_iteration [OF st(1-3)])
  have "demo_typed w0 = fold typed [0x68, 0x69, 0x0D] w0"
    by (simp add: demo_typed_def typed_def)
  then have t: "trace (loop_step demo_tx_env) (Top, w0) (map Typed [0x68, 0x69, 0x0D]) (Top, demo_typed w0)"
    using typed_trace [of demo_tx_env Top w0 "[0x68, 0x69, 0x0D]"] by (simp only:)
  let ?s = "received_signal demo_tx_env (demo_typed w0)"
  have "trace (loop_work demo_tx_env) (Top, demo_typed w0)
      (Silent # map Consumes [0x68, 0x69, 0x0D] @ [Silent, Polls [] ?s, Silent]) (Top, w)"
    using w(1) iteration_trace [OF st(1), of w] by (simp only: st(2) w(2))
  with b t w(3) main_boot_idle(1) [OF b] show ?thesis
    by (intro that [of w0 ?s w]) (simp_all add: st(4,6,7))
qed

lemma demo_run:
  obtains w0 s w where "main_boot demo_tx_env demo_flash (False, (\<lambda>_. 0), 8) world_reset = Inr w0"
    "trace (loop_step demo_tx_env) (Top, w0) ([Typed 0x68, Typed 0x69, Typed 0x0D, Silent, Consumes 0x68, Consumes 0x69,
       Consumes 0x0D, Silent, Polls [] s, Silent]) (Top, w)"
    "length (frames_sent (hist w)) = 1"
proof -
  obtain w0 s w where r: "main_boot demo_tx_env demo_flash (False, (\<lambda>_. 0), 8) world_reset = Inr w0"
    "trace (loop_step demo_tx_env) (Top, w0) (map Typed [0x68, 0x69, 0x0D]) (Top, demo_typed w0)"
    "trace (loop_work demo_tx_env) (Top, demo_typed w0) [Silent, Consumes 0x68, Consumes 0x69, Consumes 0x0D, Silent,
       Polls [] s, Silent] (Top, w)"
    "frames_sent (hist w) =
       [text_frame demo_tx_env (hw_key (aes_st w0)) (own_header MESH_BROADCAST_ID w0) [0x68, 0x69]]"
    by (rule demo_work)
  from trace_append [OF work_trace [OF r(3)] r(2)] r(1,4) show ?thesis
    by (intro that [of w0 s w]) simp_all
qed

text \<open>
  C1. The running program refines the abstract node. Every sequence of steps of the main loop from
  start-up, with interrupts between any two of them, labelled with the bytes typed and consumed and the
  packets received, is a run of the abstract node with the same labels: what is printed and transmitted,
  the id, the packet counter, the packets remembered, the bytes waiting and the line being edited are
  those of the node, whatever the buffers and the hardware did. If the transmitter works, no frame the
  node transmits is missing.
\<close>

theorem main_loop_refines_node:
  assumes "main_boot e hal fl world_reset = Inr w0" and "trace (loop_step e) (Top, w0) evs (ph, w)" and "cryp_ok e"
  shows "trace (node_step e (tx_works e)) (Top, node_boot (stored_config hal fl) (shown w0)) evs
    (map_phase (\<lambda>n. take n (lora_rx_buf w)) ph, abs_node w)"
  using node_sim.trace_simulates(1) [OF assms(2) boot_sys_inv [OF assms(1,3)]]
  by (simp add: abs_state_def abs_boot [OF assms(1)])

theorem main_loop_refines_node_witness:
  "\<exists>cfg b s n. trace (node_step demo_tx_env (tx_works demo_tx_env)) (Top, node_boot cfg b)
     [Typed 0x68, Typed 0x69, Typed 0x0D, Silent, Consumes 0x68, Consumes 0x69, Consumes 0x0D, Silent, Polls [] s, Silent]
     (Top, n) \<and> length (n_aired n) = 1"
proof -
  obtain w0 s w where r: "main_boot demo_tx_env demo_flash (False, (\<lambda>_. 0), 8) world_reset = Inr w0"
    "trace (loop_step demo_tx_env) (Top, w0) ([Typed 0x68, Typed 0x69, Typed 0x0D, Silent, Consumes 0x68, Consumes 0x69,
       Consumes 0x0D, Silent, Polls [] s, Silent]) (Top, w)"
    "length (frames_sent (hist w)) = 1"
    by (rule demo_run)
  from main_loop_refines_node [OF r(1,2) demo_tx_env_cryp] r(3) show ?thesis
    by (intro exI [of _ "stored_config demo_flash (False, \<lambda>_. 0, 8)"] exI [of _ "shown w0"] exI [of _ s] exI [of _ "abs_node w"])
      simp
qed

text \<open>
  C2. Every frame a node has transmitted since start-up is accounted for: it is one of its own packets,
  a broadcast text or a \<open>pong\<close>, encrypted under the channel key, or the relayed copy of a received frame
  that had hops left. Its own packets are numbered upwards, so that in a run of at most 2^32 events no
  packet id, and so no nonce of one node id, is used twice. The AES peripheral is taken to work
  (\<open>cryp_ok\<close>).
\<close>

theorem transmitted_frames_accounted:
  assumes "main_boot e hal fl world_reset = Inr w0" and "trace (loop_step e) (Top, w0) evs (ph, w)" and "cryp_ok e"
  shows "\<exists>ps. list_all2 (explains e (bytes_to_be_words (channel_psk (stored_config hal fl))) (frames_received evs))
      ps (frames_sent (hist w)) \<and>
    sorted_wrt (<) (own_numbers ps) \<and> (\<forall>k \<in> set (own_numbers ps). k < length evs) \<and>
    (length evs \<le> 2 ^ 32 \<longrightarrow> distinct (map (of_nat :: nat \<Rightarrow> u32) (own_numbers ps)))"
proof -
  let ?key = "bytes_to_be_words (channel_psk (stored_config hal fl))"
  from run_accounted [OF assms] obtain c where
    "accounted e ?key (frames_received evs) c (frames_sent (hist w))" "c \<le> length evs"
    by (auto simp: run_account_def node_account_def main_boot_result(3) [OF assms(1)] abs_state_def)
  then have "accounted e ?key (frames_received evs) (length evs) (frames_sent (hist w))"
    by (auto intro: accounted_mono)
  then show ?thesis
    unfolding accounted_def by (blast intro: own_ids_distinct)
qed

theorem transmitted_frames_accounted_witness:
  "\<exists>w0 evs w. main_boot demo_tx_env demo_flash (False, (\<lambda>_. 0), 8) world_reset = Inr w0 \<and>
     trace (loop_step demo_tx_env) (Top, w0) evs (Top, w) \<and>
     (\<exists>ps f. list_all2 (explains demo_tx_env (bytes_to_be_words (channel_psk (stored_config demo_flash (False, (\<lambda>_. 0), 8)))) {[]})
        ps [f] \<and> frames_sent (hist w) = [f])"
proof -
  obtain w0 s w where r: "main_boot demo_tx_env demo_flash (False, (\<lambda>_. 0), 8) world_reset = Inr w0"
    "trace (loop_step demo_tx_env) (Top, w0) ([Typed 0x68, Typed 0x69, Typed 0x0D, Silent, Consumes 0x68, Consumes 0x69,
       Consumes 0x0D, Silent, Polls [] s, Silent]) (Top, w)"
    "length (frames_sent (hist w)) = 1"
    by (rule demo_run)
  obtain f where f: "frames_sent (hist w) = [f]" using r(3) by (auto simp: length_Suc_conv)
  from transmitted_frames_accounted [OF r(1,2) demo_tx_env_cryp] f r show ?thesis
    by (auto simp del: explains.simps)
qed

end
