(* ===== verification/Relay_Window.thy ===== *)
theory Relay_Window
  imports Node_Runs
begin

text \<open>
  How long a node remembers that it has handled a packet: whatever it does in between, it does not relay
  another copy until it has registered 32 further packets.
\<close>

section \<open>The abstract node's memory\<close>

text \<open>At most \<open>r\<close> packets were registered after \<open>k\<close>, so \<open>k\<close> is still in the window if \<open>r\<close> is below 32.\<close>

definition seen_by :: "u32 \<times> u32 \<Rightarrow> nat \<Rightarrow> node \<Rightarrow> bool" where
  "seen_by k r n \<longleftrightarrow> length (n_seen n) = 32 \<and>
     (r < 32 \<longrightarrow> (\<exists>xs ys. n_seen n = xs @ k # ys \<and> length ys \<le> r))"

lemma seen_by_mono: "seen_by k r n \<Longrightarrow> r \<le> r' \<Longrightarrow> seen_by k r' n"
  unfolding seen_by_def by (meson le_less_trans order_trans)

lemma seen_by_register:
  assumes "seen_by k r n"
  shows "seen_by k (Suc r) (node_register k' n)"
proof (cases "Suc r < 32")
  case True
  then obtain xs ys where s: "n_seen n = xs @ k # ys" "length ys \<le> r" "length (n_seen n) = 32"
    using assms by (auto simp: seen_by_def)
  then have "xs \<noteq> []" using True by auto
  then have n: "n_seen (node_register k' n) = tl xs @ k # (ys @ [k'])" by (simp add: node_register_def s(1))
  have "length (n_seen (node_register k' n)) = 32" using s(3) by (simp add: node_register_def)
  moreover have "length (ys @ [k']) \<le> Suc r" using s(2) by simp
  ultimately show ?thesis unfolding seen_by_def using n by blast
next
  case False
  with assms show ?thesis by (simp add: seen_by_def node_register_def)
qed

lemma seen_by_new:
  assumes "length (n_seen n) = 32"
  shows "seen_by k 0 (node_register k n)"
  using assms unfolding seen_by_def by (auto simp: node_register_def)

lemma seen_by_update [simp]:
  "seen_by k r (n\<lparr>n_line := l\<rparr>) = seen_by k r n" "seen_by k r (n\<lparr>n_input := i\<rparr>) = seen_by k r n"
  "seen_by k r (n\<lparr>n_signal := s\<rparr>) = seen_by k r n" "seen_by k r (n\<lparr>n_id := d\<rparr>) = seen_by k r n"
  "seen_by k r (n\<lparr>n_next := m\<rparr>) = seen_by k r n"
  "seen_by k r (node_print t n) = seen_by k r n" "seen_by k r (node_air f n) = seen_by k r n"
  by (simp_all add: seen_by_def node_print_def node_air_def)

lemma send_memory: "node_send e works to t n ok n' \<Longrightarrow> seen_by k r n \<Longrightarrow> seen_by k (Suc r) n'"
  by (erule node_send.cases) (auto intro: seen_by_mono seen_by_register)

lemma command_memory: "node_command l n = Some n' \<Longrightarrow> seen_by k r n' = seen_by k r n"
  by (auto simp: node_command_def split: if_splits)

lemma line_memory: "node_line e works l n n' \<Longrightarrow> seen_by k r n \<Longrightarrow> seen_by k (Suc r) n'"
  by (erule node_line.cases) (auto simp: command_memory intro: seen_by_mono send_memory)

text \<open>Only the end of a line can send a packet.\<close>

lemma byte_memory:
  assumes "node_byte e works b n n'" and "seen_by k r n"
  shows "seen_by k (if b \<in> {0x0D, 0x0A} then Suc r else r) n'"
  using assms(1) by cases (use assms(2) in \<open>auto intro: seen_by_mono line_memory\<close>)

lemma text_memory: "node_text e works f n n' \<Longrightarrow> seen_by k r n \<Longrightarrow> seen_by k (Suc r) n'"
  by (erule node_text.cases) (auto intro: seen_by_mono send_memory)

lemma packet_memory:
  assumes "node_packet e works f n n'" and "seen_by k r n"
  shows "seen_by k (if 16 < length f then r + 2 else r) n'"
  using assms(1)
  by cases (use assms(2) in \<open>auto dest!: text_memory [OF _ seen_by_register]\<close>)

lemma packet_remembered:
  assumes "node_packet e works f n n'" and "16 < length f" and "length (n_seen n) = 32"
  shows "seen_by (from_id (header_of f), packet_id (header_of f)) 1 n'"
  using assms(1)
  by cases (use assms(2) text_memory [OF _ seen_by_new [OF assms(3)]] in \<open>auto simp: One_nat_def\<close>)

section \<open>Counting the packets registered in a run\<close>

text \<open>A packet that is handled registers itself and perhaps the answer, the end of a line the text sent.\<close>

fun registers :: "loop_event \<Rightarrow> nat" where
  "registers (Polls f s) = (if 16 < length f then 2 else 0)"
| "registers (Consumes b) = (if b = 0x0D \<or> b = 0x0A then 1 else 0)"
| "registers (Typed b) = 0"
| "registers Silent = 0"

fun pending :: "u8 list phase \<Rightarrow> nat" where
  "pending (Handling f) = (if 16 < length f then 2 else 0)"
| "pending _ = 0"

definition remembers :: "u32 \<times> u32 \<Rightarrow> nat \<Rightarrow> u8 list phase \<times> node \<Rightarrow> bool" where
  "remembers k r s \<longleftrightarrow> (\<exists>r'. seen_by k r' (snd s) \<and> r' + pending (fst s) \<le> r)"

lemma remembers_step:
  assumes "remembers k r s" and "node_step e works s ev s'"
  shows "remembers k (r + registers ev) s'"
proof -
  obtain q where q: "seen_by k q (snd s)" "q + pending (fst s) \<le> r" using assms(1) by (auto simp: remembers_def)
  from assms(2) show ?thesis
  proof cases
    case (consumes n b bs n')
    have "seen_by k q (n\<lparr>n_input := bs\<rparr>)" using q(1) by (simp add: consumes(1))
    from byte_memory [OF consumes(5) this] q(2) show ?thesis
      by (auto simp: remembers_def consumes(1-3) split: if_splits)
  next
    case (handles f n n')
    have "seen_by k q n" using q(1) by (simp add: handles(1))
    from packet_memory [OF handles(4) this] q(2) show ?thesis
      by (auto simp: remembers_def handles(1-3) split: if_splits)
  qed (use q in \<open>auto simp: remembers_def intro!: exI [of _ q]\<close>)
qed

lemma remembers_trace:
  assumes "trace (node_step e works) s evs s'" and "remembers k r s"
  shows "remembers k (r + sum_list (map registers evs)) s'"
  using assms
proof (induction rule: trace.induct)
  case (more evs s' ev s'')
  from remembers_step [OF more.IH [OF more.prems] more.hyps(2)] show ?case by (simp add: add.assoc)
qed simp

lemma remembered_not_relayed:
  assumes "remembers (from_id (header_of f), packet_id (header_of f)) r (Handling f, n)" and "16 < length f" and "r \<le> 33"
  shows "\<not> relays f n"
proof -
  obtain q where q: "seen_by (from_id (header_of f), packet_id (header_of f)) q n" "q + 2 \<le> r"
    using assms(1,2) by (auto simp: remembers_def)
  then have "q < 32" using assms(3) by simp
  with q(1) show ?thesis by (auto simp: seen_by_def relays_def)
qed

section \<open>The program's memory\<close>

lemma header_take:
  assumes "world_inv e w" and "16 < n" and "n \<le> 255"
  shows "header_of (take n (lora_rx_buf w)) = header_of (lora_rx_buf w)" and "length (take n (lora_rx_buf w)) = n"
  using assms by (auto intro!: header_of_take simp: world_inv_def)

text \<open>
  C10. A packet is not relayed twice in a short time, whatever happens in between: once a packet is
  handled, a packet with the same sender and id is not relayed before the node may have registered 32
  others, counting two for every packet it received meanwhile, this one included, and one for every end
  of a line that was typed.
\<close>

theorem relay_not_repeated:
  assumes "sys_inv e (Handling n, w)" and "handle_packet e n w = Inr w1" and "16 < n"
    and "trace (loop_step e) (Top, w1) evs (Handling n', w2)" and "16 < n'"
    and "from_id (header_of (lora_rx_buf w2)) = from_id (header_of (lora_rx_buf w))"
    and "packet_id (header_of (lora_rx_buf w2)) = packet_id (header_of (lora_rx_buf w))"
    and "sum_list (map registers evs) \<le> 32"
  shows "\<not> flood_should_forward (flood_st w2) (Some (lora_rx_buf w2)) n'"
proof -
  let ?f = "take n (lora_rx_buf w)" and ?g = "take n' (lora_rx_buf w2)"
  let ?k = "(from_id (header_of (lora_rx_buf w)), packet_id (header_of (lora_rx_buf w)))"
  have w: "world_inv e w" "online w" "cryp_ok e" "n \<le> 255"
    using assms(1) by (simp_all add: sys_inv_def loop_inv_def)
  note f = header_take [OF w(1) assms(3) w(4)]
  have "length (n_seen (abs_node w)) = 32"
    using w(1) length_seen_window by (simp add: world_inv_def)
  from packet_remembered [OF packet_refines [OF assms(2) w refl] _ this] assms(3) f
  have "seen_by ?k 1 (abs_node w1)" by simp
  then have r: "remembers ?k 1 (abs_state (Top, w1))" by (auto simp: remembers_def abs_state_def)
  have "sys_inv e (Top, w1)"
    using step_refines [OF loop_step.work [OF loop_work.handles [OF assms(2)]] assms(1)] by simp
  note sim = node_sim.trace_simulates [OF assms(4) this]
  have w2: "world_inv e w2" "n' \<le> 255" using sim(2) by (simp_all add: sys_inv_def loop_inv_def)
  note g = header_take [OF w2(1) assms(5) w2(2)]
  have "remembers ?k (1 + sum_list (map registers evs)) (Handling ?g, abs_node w2)"
    using remembers_trace [OF sim(1) r] by (simp add: abs_state_def)
  then have "\<not> relays ?g (abs_node w2)"
    using remembered_not_relayed [of ?g "1 + sum_list (map registers evs)" "abs_node w2"] assms(5-8) g by simp
  moreover have "flood_inv (flood_st w2)" using w2(1) by (simp add: world_inv_def)
  ultimately show ?thesis
    by (auto simp: flood_should_forward_iff relays_def hops_def g flood_was_seen_iff)
qed

theorem relay_not_repeated_witness:
  "\<exists>f e w w1 s w2. flood_should_forward (flood_st w) (Some (lora_rx_buf w)) 17 \<and> take 17 (lora_rx_buf w) = f \<and>
     handle_packet e 17 w = Inr w1 \<and> trace (loop_step e) (Top, w1) [Silent, Silent, Silent, Polls f s] (Handling 17, w2) \<and>
     take 17 (lora_rx_buf w2) = f \<and> \<not> flood_should_forward (flood_st w2) (Some (lora_rx_buf w2)) 17"
proof -
  let ?h = "demo_header\<lparr>to_id := 3\<rparr>"
  let ?f = "header_bytes ?h @ [0xAB]"
  let ?e = "demo_rx_env ?f"
  let ?w = "(demo_listener ?f)\<lparr>lora_rx_buf := ?f @ replicate 239 0\<rparr>"
  have inv: "world_inv ?e ?w" using demo_listener_simps(1) [of ?f] by (simp add: world_inv_def)
  have on: "sys_inv ?e (Handling 17, ?w)" using inv by (simp add: sys_inv_def loop_inv_def)
  have hd: "header_of (lora_rx_buf ?w) = ?h" by simp
  have nid: "node_id (g_config ?w) = 0" by (simp add: demo_listener_def demo_world_def world_reset_def config_zero_def)
  have fl: "flood_st ?w = flood_reset" by (simp add: demo_listener_def demo_world_def world_reset_def)
  have fwd: "flood_should_forward (flood_st ?w) (Some (lora_rx_buf ?w)) 17"
    unfolding fl by (simp add: flood_should_forward_iff flood_was_seen_iff demo_header_def mesh_hop_limit_def
        MESH_HOP_LIMIT_MASK_def)
  obtain w1 where w1: "handle_packet ?e 17 ?w = Inr w1"
    using foreign_packet_handled [OF inv _ _ _ hd [symmetric], of 17] nid by (auto simp: MESH_BROADCAST_ID_def)
  have inv1: "world_inv ?e w1" by (rule handle_packet_inv [OF w1 inv]) simp
  have "serial_st w1 = serial_st ?w"
    by (rule packet_unaware.keeps(1) [OF w1]) (use inv in \<open>simp add: world_inv_def\<close>)
  then have ring: "ring_contents (serial_st w1) = []" by (simp only:) simp
  obtain led' h where led: "led_tick ?e (led_st w1) (hist w1) = (led', h)" by fastforce
  let ?v = "w1\<lparr>led_st := led', hist := h\<rparr>"
  have inv0: "world_inv ?e ?v" using inv1 by (simp add: world_inv_def radio_inv_def)
  have drained: "serial_next (serial_st ?v) = None"
    using ring rx_queue.get_empty inv1 by (simp add: world_inv_def)
  let ?wr = "isr Rx_Irq ?v"
  have p: "phy ?wr = Some (stm32wl_ops ?e)" "length (lora_rx_buf ?wr) = 256" "length (rx_buf (drv ?wr)) = 256"
    "rx_pending (drv ?wr)"
    using isr_inv [OF inv0, of Rx_Irq] by (simp_all add: world_inv_def radio_inv_def HAL_SUBGHZ_RxCpltCallback_def)
  have l: "length ?f = 17" by simp
  have "0 < length ?f" "length ?f \<le> 255" unfolding l by simp_all
  from demo_rx_env_simps(4) p(4) this p(3) obtain d h2 where
    "stm32wl_radio_rx_poll ?e (Some (lora_rx_buf ?wr)) 256 (drv ?wr, hist ?wr) =
      (length ?f, Some (memcpy_at (lora_rx_buf ?wr) 0 ?f), (d, h2))"
    by (rule rx_poll_holds)
  note rx = this [unfolded l]
  let ?w2 = "?wr\<lparr>lora_rx_buf := memcpy_at (lora_rx_buf ?wr) 0 ?f, drv := d, hist := h2\<rparr>"
  have poll: "radio_poll ?wr = (17, ?w2)" using rx p(1) by (simp add: radio_poll_def del: isr.simps)
  have buf: "take 17 (lora_rx_buf ?w2) = ?f" "header_of (lora_rx_buf ?w2) = ?h"
    using p(2) l by (simp_all add: memcpy_at_def del: isr.simps)
  let ?s = "(last_rssi (drv ?w2), last_snr (drv ?w2))"
  have steps: "loop_step ?e (Top, w1) Silent (Terminal, ?v)" "loop_step ?e (Terminal, ?v) Silent (Radio, ?v)"
    "loop_step ?e (Radio, ?v) (irq_event Rx_Irq) (Radio, ?wr)"
    "loop_step ?e (Radio, ?wr) (Polls (take 17 (lora_rx_buf ?w2)) ?s) (Handling 17, ?w2)"
    by (rule loop_step.work [OF loop_work.begins [OF led]] loop_step.work [OF loop_work.drained [OF drained]]
        loop_step.interrupt loop_step.work [OF loop_work.polls [OF poll]])+
  have "trace (loop_step ?e) (Top, w1) [Silent, Silent, irq_event Rx_Irq, Polls (take 17 (lora_rx_buf ?w2)) ?s] (Handling 17, ?w2)"
    unfolding trace_Cons_iff trace_Nil_iff using steps by blast
  then have tr: "trace (loop_step ?e) (Top, w1) [Silent, Silent, Silent, Polls ?f ?s] (Handling 17, ?w2)"
    by (simp only: buf irq_event.simps)
  have "\<not> flood_should_forward (flood_st ?w2) (Some (lora_rx_buf ?w2)) 17"
    by (rule relay_not_repeated [OF on w1 _ tr])
      (simp, simp, simp only: buf(2) hd, simp only: buf(2) hd, simp add: l)
  moreover have "take 17 (lora_rx_buf ?w) = ?f" by simp
  ultimately show ?thesis using fwd w1 tr buf(1) by blast
qed

end
