(* ===== verification/Mesh_Runs.thy ===== *)
theory Mesh_Runs
  imports Node_Runs
begin

text \<open>
  Running nodes that share a channel: each goes through the small steps of its main loop, with interrupts
  and typing at any time, and what it transmits is on its way to the nodes in reach. How many frames the
  operators' lines can cause.
\<close>

section \<open>The network\<close>

text \<open>
  The nodes' states, and the frames on their way: \<open>(i, f)\<close> is frame \<open>f\<close> on its way to node \<open>i\<close>.
  \<open>envs i\<close> is the hardware of node \<open>i\<close>, \<open>hears i\<close> the nodes in reach of its radio. A node can poll
  from its radio a frame that is on its way to it. It can also poll noise that is too short for a packet,
  and a frame can be lost.
\<close>

type_synonym mesh = "(nat phase \<times> world) list \<times> (nat \<times> u8 list) multiset"

datatype mesh_event = At nat loop_event | Lost nat "u8 list"

inductive mesh_step :: "(nat \<Rightarrow> hal_env) \<Rightarrow> (nat \<Rightarrow> nat list) \<Rightarrow> mesh \<Rightarrow> mesh_event \<Rightarrow> mesh \<Rightarrow> bool"
  for envs :: "nat \<Rightarrow> hal_env" and hears :: "nat \<Rightarrow> nat list" where
  receives: "i < length ss \<Longrightarrow> loop_step (envs i) (ss ! i) (Polls f g) s' \<Longrightarrow>
    mesh_step envs hears (ss, add_mset (i, f) q) (At i (Polls f g)) (ss[i := s'], q)"
| proceeds: "i < length ss \<Longrightarrow> loop_step (envs i) (ss ! i) ev s' \<Longrightarrow>
    \<forall>f g. ev = Polls f g \<longrightarrow> length f \<le> 16 \<Longrightarrow>
    mesh_step envs hears (ss, q) (At i ev) (ss[i := s'], q + fan_out (hears i) (new_frames (snd (ss ! i)) (snd s')))"
| loses: "mesh_step envs hears (ss, add_mset (i, f) q) (Lost i f) (ss, q)"

text \<open>The frames that leave the air, and the lines that are typed.\<close>

fun arrival :: "mesh_event \<Rightarrow> bool" where
  "arrival (At i (Polls f g)) = (16 < length f)"
| "arrival (At i ev) = False"
| "arrival (Lost i f) = True"

definition is_enter :: "u8 \<Rightarrow> bool" where
  "is_enter b \<longleftrightarrow> b = 0x0D \<or> b = 0x0A"

fun enter_typed :: "mesh_event \<Rightarrow> bool" where
  "enter_typed (At i (Typed b)) = is_enter b"
| "enter_typed _ = False"

section \<open>What a step of a node costs\<close>

text \<open>
  The frames that a node can still cause: in answer to the packet it is handling, and one text for each
  line that waits in its queue.
\<close>

fun pending_cost :: "nat \<Rightarrow> hal_env \<Rightarrow> u32 list \<Rightarrow> u8 list phase \<Rightarrow> nat" where
  "pending_cost n c key (Handling f) = (if 16 < length f then frame_cost n c key f - 1 else 0)"
| "pending_cost n c key _ = 0"

definition enters :: "u8 list \<Rightarrow> nat" where
  "enters bs = length (filter is_enter bs)"

definition state_cost :: "nat \<Rightarrow> hal_env \<Rightarrow> u32 list \<Rightarrow> u8 list phase \<times> node \<Rightarrow> nat" where
  "state_cost n c key s = pending_cost n c key (fst s) + n * text_cost n 3 * enters (n_input (snd s))"

lemma enters_simps [simp]:
  "enters [] = 0" "enters (b # bs) = (if is_enter b then 1 else 0) + enters bs"
  "enters (bs @ cs) = enters bs + enters cs"
  by (simp_all add: enters_def)

lemma frame_cost_pos: "0 < frame_cost n c key f"
  by (cases "hops f") (simp_all add: frame_cost_def)

lemma frame_cost_bound:
  assumes "hops f \<le> 3"
  shows "frame_cost n c key f \<le> text_cost n 3"
proof -
  have "pong_cost n (hops f) \<le> pong_cost n 3"
    unfolding pong_cost_closed by (rule sum_mono2) (use assms in auto)
  moreover from this have "pong_cost n (hops f) \<le> text_cost n 3" by (simp add: text_cost_closed)
  ultimately show ?thesis
    by (simp add: frame_cost_def text_cost_closed [of n "hops f"] text_cost_closed [of n 3] del: mult_Suc)
qed

lemma own_frame_cost:
  assumes "flags h = 3"
  shows "frame_cost n c key (text_frame e k h t) \<le> text_cost n 3"
proof -
  have "hops (text_frame e k h t) = 3"
    using assms by (simp add: mesh_hop_limit_def MESH_HOP_LIMIT_MASK_def)
  then show ?thesis by (intro frame_cost_bound) simp
qed

text \<open>The new frames of an operation.\<close>

definition airs :: "node \<Rightarrow> u8 list list \<Rightarrow> node \<Rightarrow> bool" where
  "airs n new n' \<longleftrightarrow> n_aired n' = n_aired n @ new \<and> n_key n' = n_key n \<and> n_input n' = n_input n"

lemma airs_simps [simp]:
  "airs n new (n'\<lparr>n_line := l\<rparr>) = airs n new n'" "airs n new (node_print t n') = airs n new n'"
  "airs (node_print t n) new n' = airs n new n'" "airs (node_register k n) new n' = airs n new n'" "airs n [] n"
  by (simp_all add: airs_def node_print_def node_register_def)

lemma send_airs:
  assumes "node_send e works to t n ok n'"
  shows "\<exists>new. airs n new n' \<and> (new = [] \<or> (\<exists>h. flags h = 3 \<and> new = [text_frame e (n_key n) h t]))"
  using assms
proof cases
  case aired
  then show ?thesis
    by (intro exI [of _ "[text_frame e (n_key n) (node_header to n) t]"])
      (auto simp: airs_def node_air_def node_register_def node_header_def intro!: exI [of _ "node_header to n"])
qed (auto simp: airs_def node_register_def)

lemma command_airs: "node_command l n = Some n' \<Longrightarrow> airs n [] n'"
  by (auto simp: node_command_def airs_def node_print_def split: if_splits)

lemma byte_airs:
  assumes "node_byte e works b n n'"
  shows "\<exists>new. airs n new n' \<and>
    (new = [] \<or> is_enter b \<and> (\<exists>h t. flags h = 3 \<and> new = [text_frame e (n_key n) h t]))"
  using assms
proof cases
  case (enter n1)
  from enter(4) show ?thesis
  proof cases
    case command
    with enter show ?thesis by (auto dest: command_airs)
  next
    case (message ok n2)
    from send_airs [OF message(3)] enter(1,2) message(1) show ?thesis
      by (auto simp: is_enter_def)
  qed
qed (auto simp: airs_def)

lemma text_airs:
  assumes "node_text e works f n n'" and "16 < length f"
  shows "\<exists>new. airs n new n' \<and>
    (new = [] \<or> asks_reply e (n_key n) f \<and> (\<exists>h. flags h = 3 \<and> new = [text_frame e (n_key n) h (bytes_of ''pong'')]))"
  using assms(1)
proof cases
  case (answered t ok)
  have "n_key (node_print (report t (n_signal n)) n) = n_key n" by (simp add: node_print_def)
  with send_airs [OF answered(4)] answered(2,3) show ?thesis
    by (auto simp: asks_reply_def)
qed (auto intro!: exI [of _ "[]"])

lemma packet_airs:
  assumes "node_packet e works f n n'" and "16 < length f"
  shows "\<exists>new n8. airs n new n' \<and> answers e (n_key n) n8 f new"
  using assms(1)
proof cases
  case keep
  have "n_key (node_register k n) = n_key n" for k by (simp add: node_register_def)
  with text_airs [OF keep(3) assms(2)] obtain new where new: "airs n new n'"
    "new = [] \<or> asks_reply e (n_key n) f \<and> (\<exists>h. flags h = 3 \<and> new = [text_frame e (n_key n) h (bytes_of ''pong'')])"
    by auto
  then have "answers e (n_key n) 0 f new"
    unfolding answers_def by (intro exI [of _ new] exI [of _ "[]"]) simp
  with new(1) show ?thesis by blast
next
  case (relay n1)
  have "n_key (node_register k n) = n_key n" for k by (simp add: node_register_def)
  with text_airs [OF relay(4) assms(2)] obtain new where new: "airs n new n1"
    "new = [] \<or> asks_reply e (n_key n) f \<and> (\<exists>h. flags h = 3 \<and> new = [text_frame e (n_key n) h (bytes_of ''pong'')])"
    by auto
  have "airs n (new @ [node_relay_frame f n1]) n'"
    using new(1) by (simp add: relay(1) airs_def node_air_def)
  moreover have "answers e (n_key n) (ucast (n_id n1 AND 0xFF)) f (new @ [node_relay_frame f n1])"
    using new(2) relay(3) unfolding answers_def
    by (intro exI [of _ new] exI [of _ "[node_relay_frame f n1]"]) (simp add: node_relay_frame_def relays_def)
  ultimately show ?thesis by blast
qed (use assms(2) in simp)


lemma byte_cost:
  assumes "node_byte e works b n n'"
  shows "\<exists>new. airs n new n' \<and>
    sum_list (map (frame_cost m c key) new) \<le> (if is_enter b then text_cost m 3 else 0)"
proof -
  obtain new where "airs n new n'"
    "new = [] \<or> is_enter b \<and> (\<exists>h t. flags h = 3 \<and> new = [text_frame e (n_key n) h t])"
    using byte_airs [OF assms] by blast
  then show ?thesis by (intro exI [of _ new]) (auto simp: own_frame_cost)
qed

text \<open>
  A step of a node: what it transmits to at most \<open>m\<close> nodes, and what it can still cause, is paid for by
  what it could cause before, by the line that is typed, and by the frame that is received.
\<close>

definition event_cost :: "nat \<Rightarrow> hal_env \<Rightarrow> u32 list \<Rightarrow> loop_event \<Rightarrow> nat" where
  "event_cost n c key ev = (case ev of Typed b \<Rightarrow> if is_enter b then n * text_cost n 3 else 0
     | Polls f g \<Rightarrow> if 16 < length f then frame_cost n c key f - 1 else 0 | _ \<Rightarrow> 0)"

lemma node_step_cost:
  assumes "node_step e works s ev s'" and "env_ecb e = env_ecb c" and "n_key (snd s) = key" and "m \<le> n"
  shows "\<exists>new. n_aired (snd s') = n_aired (snd s) @ new \<and> n_key (snd s') = n_key (snd s) \<and>
    m * sum_list (map (frame_cost n c key) new) + state_cost n c key s' \<le> state_cost n c key s + event_cost n c key ev"
  using assms(1)
proof cases
  case (consumes nd b bs nd')
  let ?n = "nd\<lparr>n_input := bs\<rparr>"
  obtain new where new: "airs ?n new nd'"
    "sum_list (map (frame_cost n c key) new) \<le> (if is_enter b then text_cost n 3 else 0)"
    using byte_cost [OF consumes(5), of n c key] by blast
  have "m * sum_list (map (frame_cost n c key) new) \<le> n * (if is_enter b then text_cost n 3 else 0)"
    by (rule mult_le_mono [OF assms(4) new(2)])
  with new(1) show ?thesis
    by (intro exI [of _ new])
      (auto simp: consumes(1-4) airs_def state_cost_def event_cost_def distrib_left split: if_splits)
next
  case (handles f nd nd')
  show ?thesis
  proof (cases "16 < length f")
    case False
    from handles(4) have "nd' = nd" by cases (use False in simp_all)
    then show ?thesis by (intro exI [of _ "[]"]) (simp add: handles(1-3) state_cost_def event_cost_def)
  next
    case True
    from packet_airs [OF handles(4) True] obtain new n8 where
      new: "airs nd new nd'" "answers c key n8 f new"
      using assms(3) by (auto simp: handles(1) ctr_text_cong(4) [OF assms(2)])
    have "m * sum_list (map (frame_cost n c key) new) < frame_cost n c key f"
      by (rule answers_cost [OF new(2) _ assms(4)]) (use True in simp)
    with new(1) True show ?thesis
      by (intro exI [of _ new]) (simp add: handles(1-3) airs_def state_cost_def event_cost_def)
  qed
qed (auto intro!: exI [of _ "[]"] simp: state_cost_def event_cost_def distrib_left split: if_splits)


section \<open>What a step of the network costs\<close>

definition mesh_ok :: "hal_env \<Rightarrow> u32 list \<Rightarrow> (nat \<Rightarrow> hal_env) \<Rightarrow> mesh \<Rightarrow> bool" where
  "mesh_ok c key envs s \<longleftrightarrow> (\<forall>i < length (fst s). sys_inv (envs i) (fst s ! i) \<and>
     env_ecb (envs i) = env_ecb c \<and> hw_key (aes_st (snd (fst s ! i))) = key)"

definition mesh_cost :: "nat \<Rightarrow> hal_env \<Rightarrow> u32 list \<Rightarrow> mesh \<Rightarrow> nat" where
  "mesh_cost n c key s =
     sum_list (map (\<lambda>x. state_cost n c key (abs_state x)) (fst s)) + air_cost n c key (snd s)"

lemma abs_state_node [simp]: "snd (abs_state s) = abs_node (snd s)"
  by (simp add: abs_state_def)

text \<open>One node goes on; the others and the air stay.\<close>

lemma node_proceeds:
  assumes "loop_step (envs i) (ss ! i) ev s'" and "mesh_ok c key envs (ss, q)" and "i < length ss"
    and "length (hears i) \<le> n"
  shows "mesh_ok c key envs (ss[i := s'], q') \<and>
    (\<exists>new. frames_sent (hist (snd s')) = frames_sent (hist (snd (ss ! i))) @ new \<and>
       mesh_cost n c key (ss[i := s'], q) + air_cost n c key (fan_out (hears i) new)
         \<le> mesh_cost n c key (ss, q) + event_cost n c key ev)"
proof -
  let ?w = "snd (ss ! i)"
  have ok: "sys_inv (envs i) (ss ! i)" "env_ecb (envs i) = env_ecb c" "hw_key (aes_st ?w) = key"
    using assms(2,3) by (simp_all add: mesh_ok_def)
  from step_refines [OF assms(1) ok(1)] have
    step: "node_step (envs i) (tx_works (envs i)) (abs_state (ss ! i)) ev (abs_state s')" and inv: "sys_inv (envs i) s'"
    by simp_all
  have "n_key (snd (abs_state (ss ! i))) = key" by (simp add: ok(3))
  from node_step_cost [OF step ok(2) this assms(4)] obtain new where
    new: "frames_sent (hist (snd s')) = frames_sent (hist ?w) @ new" "hw_key (aes_st (snd s')) = key"
    "length (hears i) * sum_list (map (frame_cost n c key) new) + state_cost n c key (abs_state s')
       \<le> state_cost n c key (abs_state (ss ! i)) + event_cost n c key ev"
    by (auto simp: ok(3))
  have "mesh_ok c key envs (ss[i := s'], q')"
    using assms(2,3) inv ok(2) new(2) by (auto simp: mesh_ok_def nth_list_update)
  moreover have "mesh_cost n c key (ss[i := s'], q) + state_cost n c key (abs_state (ss ! i)) =
      mesh_cost n c key (ss, q) + state_cost n c key (abs_state s')"
  proof -
    let ?cs = "map (\<lambda>x. state_cost n c key (abs_state x)) ss"
    have "?cs ! i \<le> sum_list ?cs" using assms(3) by (intro elem_le_sum_list) simp
    with assms(3) show ?thesis by (simp add: mesh_cost_def map_update sum_list_update)
  qed
  ultimately show ?thesis
    using new(1,3) by (intro conjI exI [of _ new]) (simp_all add: air_cost_fan_out)
qed

lemma mesh_step_cost:
  assumes "mesh_step envs hears s ev s'" and "mesh_ok c key envs s" and "\<And>i. length (hears i) \<le> n"
  shows "mesh_ok c key envs s' \<and> mesh_cost n c key s' + (if arrival ev then 1 else 0) \<le>
    mesh_cost n c key s + (if enter_typed ev then n * text_cost n 3 else 0)"
  using assms(1)
proof cases
  case (receives i ss f g x q)
  have ok: "mesh_ok c key envs (ss, q)" using assms(2) by (simp add: receives(1) mesh_ok_def)
  from node_proceeds [where hears = hears and q' = q, OF receives(5) ok receives(4) assms(3) [of i]] obtain new where
    "mesh_ok c key envs s'" "mesh_cost n c key s' \<le> mesh_cost n c key (ss, q) + event_cost n c key (Polls f g)"
    by (auto simp: receives(3))
  moreover have "mesh_cost n c key s = mesh_cost n c key (ss, q) + frame_cost n c key f"
    by (simp add: receives(1) mesh_cost_def)
  ultimately show ?thesis
    using frame_cost_pos [of n c key f] by (auto simp: receives(2) event_cost_def)
next
  case (proceeds i ss e x q)
  have ok: "mesh_ok c key envs (ss, q)" using assms(2) by (simp add: proceeds(1))
  let ?q = "q + fan_out (hears i) (new_frames (snd (ss ! i)) (snd x))"
  from node_proceeds [where hears = hears and q' = ?q, OF proceeds(5) ok proceeds(4) assms(3) [of i]] obtain new where
    new: "mesh_ok c key envs s'" "frames_sent (hist (snd x)) = frames_sent (hist (snd (ss ! i))) @ new"
    "mesh_cost n c key (ss[i := x], q) + air_cost n c key (fan_out (hears i) new) \<le> mesh_cost n c key s + event_cost n c key e"
    by (auto simp: proceeds(1,3))
  have "mesh_cost n c key s' = mesh_cost n c key (ss[i := x], q) + air_cost n c key (fan_out (hears i) new)"
    by (simp add: proceeds(3) mesh_cost_def new_frames_def new(2))
  with new(1,3) proceeds(6) show ?thesis
    by (cases e) (auto simp: proceeds(2) event_cost_def)
next
  case (loses ss i f q)
  with assms(2) frame_cost_pos [of n c key f] show ?thesis
    by (simp add: mesh_ok_def mesh_cost_def)
qed

lemma mesh_run_cost:
  assumes "trace (mesh_step envs hears) s evs s'" and "mesh_ok c key envs s" and "\<And>i. length (hears i) \<le> n"
  shows "mesh_ok c key envs s' \<and> length (filter arrival evs) + mesh_cost n c key s' \<le>
    mesh_cost n c key s + n * text_cost n 3 * length (filter enter_typed evs)"
  using assms(1,2)
proof induction
  case (more s evs s' ev s'')
  then have "mesh_ok c key envs s'" and a: "length (filter arrival evs) + mesh_cost n c key s' \<le>
      mesh_cost n c key s + n * text_cost n 3 * length (filter enter_typed evs)" by simp_all
  from mesh_step_cost [OF more(2) this(1) assms(3)] a show ?case
    by (auto simp: distrib_left split: if_splits)
qed simp

lemma boot_mesh:
  assumes "\<And>i. i < length ws \<Longrightarrow> main_boot (envs i) (hals i) (fls i) world_reset = Inr (ws ! i)"
    and "\<And>i. i < length ws \<Longrightarrow> cryp_ok (envs i) \<and> env_ecb (envs i) = env_ecb c \<and>
      bytes_to_be_words (channel_psk (stored_config (hals i) (fls i))) = key"
  shows "mesh_ok c key envs (map (Pair Top) ws, q)" and "mesh_cost n c key (map (Pair Top) ws, q) = air_cost n c key q"
proof -
  show "mesh_ok c key envs (map (Pair Top) ws, q)"
    using assms(2) boot_sys_inv [OF assms(1)] main_boot_result(3) [OF assms(1)] by (simp add: mesh_ok_def)
  have "state_cost n c key (abs_state (Top, w)) = 0" if "w \<in> set ws" for w
    using that main_boot_idle(2) [OF assms(1)] by (auto simp: in_set_conv_nth state_cost_def abs_state_def)
  then have "map (\<lambda>x. state_cost n c key (abs_state x)) (map (Pair Top) ws) = map (\<lambda>_. 0) ws" by simp
  then show "mesh_cost n c key (map (Pair Top) ws, q) = air_cost n c key q"
    by (simp add: mesh_cost_def del: map_map)
qed


section \<open>Runs from start-up\<close>

text \<open>
  C3. A network settles. Nodes that share a channel start, with any frames of at most three hops on
  their way to them, and every transmission reaches at most \<open>n\<close> nodes, in any topology. In every run of
  the network, whatever is typed, whenever the interrupts come, however the nodes' steps interleave and
  frames are lost, the number of frames that have been received or lost is bounded by the number of frames
  at first and of lines entered: relaying and answering end by themselves, although each node answers
  every copy it receives.
\<close>

theorem mesh_traffic_bounded:
  fixes c :: hal_env
  assumes "\<And>i. i < length ws \<Longrightarrow> main_boot (envs i) (hals i) (fls i) world_reset = Inr (ws ! i)"
    and "\<And>i. i < length ws \<Longrightarrow> cryp_ok (envs i) \<and> env_ecb (envs i) = env_ecb c \<and>
      bytes_to_be_words (channel_psk (stored_config (hals i) (fls i))) = key"
    and "trace (mesh_step envs hears) (map (Pair Top) ws, q) evs s"
    and "\<And>i. length (hears i) \<le> n" and "\<And>x. x \<in># q \<Longrightarrow> hops (snd x) \<le> 3"
  shows "length (filter arrival evs) \<le> (1 + n + n\<^sup>2 + n ^ 3) * (1 + n * (1 + n + n\<^sup>2 + n ^ 3)) *
    (size q + n * length (filter enter_typed evs))"
proof -
  have p: "pong_cost n 3 = 1 + n + n\<^sup>2 + n ^ 3"
    by (simp add: pong_cost_closed numeral_eq_Suc)
  have "air_cost n c key q \<le> (\<Sum>x \<in># q. text_cost n 3)"
    unfolding air_cost_def by (rule sum_mset_mono) (rule frame_cost_bound, rule assms(5))
  moreover have "length (filter arrival evs) \<le> air_cost n c key q + n * text_cost n 3 * length (filter enter_typed evs)"
    using mesh_run_cost [OF assms(3) boot_mesh(1) [OF assms(1,2)] assms(4)] boot_mesh(2) [OF assms(1,2)] by simp
  ultimately have "length (filter arrival evs) \<le> text_cost n 3 * (size q + n * length (filter enter_typed evs))"
    by (simp add: sum_mset_constant algebra_simps)
  then show ?thesis
    by (simp add: text_cost_closed p mult.commute del: mult_Suc)
qed

text \<open>A node's run as part of a network.\<close>

lemma fan_out_Nil [simp]: "fan_out js [] = {#}"
  by (induction js) (simp_all add: fan_out_def)

lemma fan_out_append: "fan_out js (fs @ gs) = fan_out js fs + fan_out js gs"
  by (induction js) (simp_all add: fan_out_def)

lemma step_frames:
  assumes "loop_step e s ev s'" and "sys_inv e s"
  shows "\<exists>new. frames_sent (hist (snd s')) = frames_sent (hist (snd s)) @ new"
  using node_step_cost [OF _ refl refl order_refl, of e "tx_works e" "abs_state s" ev "abs_state s'" 0]
    step_refines [OF assms] by auto

lemma node_in_mesh:
  assumes "trace (loop_step (envs i)) s evs s'" and "sys_inv (envs i) s" and "i < length ss" and "ss ! i = s"
    and "\<forall>f g. Polls f g \<in> set evs \<longrightarrow> length f \<le> 16"
  shows "sys_inv (envs i) s' \<and> (\<exists>new. frames_sent (hist (snd s')) = frames_sent (hist (snd s)) @ new \<and>
    trace (mesh_step envs hears) (ss, q) (map (At i) evs) (ss[i := s'], q + fan_out (hears i) new))"
  using assms
proof induction
  case (start s)
  then have "ss[i := s] = ss" by auto
  with start show ?case by (auto intro!: exI [of _ "[]"])
next
  case (more s evs s' ev s'')
  then obtain new where inv: "sys_inv (envs i) s'" and new: "frames_sent (hist (snd s')) = frames_sent (hist (snd s)) @ new"
    and t: "trace (mesh_step envs hears) (ss, q) (map (At i) evs) (ss[i := s'], q + fan_out (hears i) new)"
    by auto
  obtain new' where new': "frames_sent (hist (snd s'')) = frames_sent (hist (snd s')) @ new'"
    using step_frames [OF more(2) inv] by blast
  have "mesh_step envs hears (ss[i := s'], q + fan_out (hears i) new) (At i ev)
      (ss[i := s', i := s''], q + fan_out (hears i) new + fan_out (hears i) (new_frames (snd (ss[i := s'] ! i)) (snd s'')))"
    by (rule mesh_step.proceeds) (use more.prems more.hyps(2) in auto)
  then have "mesh_step envs hears (ss[i := s'], q + fan_out (hears i) new) (At i ev)
      (ss[i := s''], q + fan_out (hears i) (new @ new'))"
    using more.prems(2) by (simp add: new_frames_def new' fan_out_append add.assoc)
  from trace.more [OF t this] step_refines [OF more(2) inv] show ?case
    by (auto simp: new new' intro!: exI [of _ "new @ new'"])
qed


text \<open>Two nodes: \<open>hi\<close> is typed on the first, the second hears it and receives the frame.\<close>

definition demo_envs :: "u8 list \<Rightarrow> nat \<Rightarrow> hal_env" where
  "demo_envs f i = (if i = 0 then demo_tx_env else demo_rx_env f)"

definition demo_hears :: "nat \<Rightarrow> nat list" where
  "demo_hears i = (if i = 0 then [1] else [])"

lemma rx_poll_clears:
  "stm32wl_radio_rx_poll e (Some b) 256 (d, h) = (n, b', (d', h')) \<Longrightarrow> \<not> rx_pending d'"
  by (auto simp: stm32wl_radio_rx_poll_def Let_def split: if_splits)

lemma demo_listens:
  assumes "sys_inv (demo_rx_env f) (Top, w)" and "ring_contents (serial_st w) = []" and "0 < length f" and "length f \<le> 255"
  obtains s g w' where "trace (loop_step (demo_rx_env f)) (Top, w) [Silent, Silent, Silent] s"
    "loop_step (demo_rx_env f) s (Polls f g) (Handling (length f), w')" "\<not> rx_pending (drv w')"
    "take (length f) (lora_rx_buf w') = f" "aes_st w' = aes_st w" "serial_st w' = serial_st w"
    "sys_inv (demo_rx_env f) (Handling (length f), w')"
proof -
  have inv: "world_inv (demo_rx_env f) w" using assms(1) by (simp add: sys_inv_def loop_inv_def)
  let ?e = "demo_rx_env f"
  let ?w = "isr Rx_Irq w"
  obtain led' h where led: "led_tick ?e (led_st ?w) (hist ?w) = (led', h)" by fastforce
  let ?w0 = "?w\<lparr>led_st := led', hist := h\<rparr>"
  have "serial_next (serial_st ?w0) = None"
    using rx_queue.get_empty [of "serial_st w"] inv assms(2) by (simp add: world_inv_def)
  then have t: "trace (loop_step ?e) (Top, w) [Silent, Silent, Silent] (Radio, ?w0)"
    using loop_step.interrupt [of ?e Top w Rx_Irq] loop_step.work [OF loop_work.begins [OF led]]
      loop_step.work [OF loop_work.drained [of ?w0 ?e]]
    by (auto simp: trace_Cons_iff)
  have p: "phy w = Some (stm32wl_ops ?e)" "length (rx_buf (drv ?w)) = 256" "length (lora_rx_buf w) = 256"
    using inv by (simp_all add: world_inv_def radio_inv_def HAL_SUBGHZ_RxCpltCallback_def)
  have "rx_pending (drv ?w)" by (simp add: HAL_SUBGHZ_RxCpltCallback_def)
  then obtain d' h' where rx: "stm32wl_radio_rx_poll ?e (Some (lora_rx_buf w)) 256 (drv ?w, h) =
      (length f, Some (memcpy_at (lora_rx_buf w) 0 f), (d', h'))"
    by (rule rx_poll_holds [OF demo_rx_env_simps(4) _ assms(3,4) p(2)])
  let ?w1 = "?w0\<lparr>lora_rx_buf := memcpy_at (lora_rx_buf w) 0 f, drv := d', hist := h'\<rparr>"
  have "radio_poll ?w0 = (length f, ?w1)"
    using rx p(1) by (simp add: radio_poll_def)
  from loop_step.work [OF loop_work.polls [OF this]] assms(4) p(3) have step:
    "loop_step ?e (Radio, ?w0) (Polls f (last_rssi d', last_snr d')) (Handling (length f), ?w1)"
    by (simp add: take_memcpy_at_0)
  have "sys_inv ?e (Handling (length f), ?w1)"
    using step_refines [OF step node_sim.trace_simulates(2) [OF t assms(1)]] by simp
  with that [OF t step] show ?thesis
    using rx_poll_clears [OF rx] p(3) assms(4) by simp
qed

lemma demo_mesh_run:
  obtains wA w vB wB f g g' where
    "main_boot (demo_envs f 0) demo_flash (False, (\<lambda>_. 0), 8) world_reset = Inr wA"
    "main_boot (demo_envs f 1) demo_flash (False, (\<lambda>_. 0), 8) world_reset = Inr wB"
    "f = text_frame demo_tx_env (hw_key (aes_st wA)) (own_header MESH_BROADCAST_ID wA) [0x68, 0x69]"
    "trace (mesh_step (demo_envs f) demo_hears) ([(Top, wA), (Top, wB)], {#}) (map (At 0) (map Typed [0x68, 0x69, 0x0D]))
       ([(Top, demo_typed wA), (Top, wB)], {#})"
    "trace (mesh_step (demo_envs f) demo_hears) ([(Top, demo_typed wA), (Top, wB)], {#})
       (map (At 0) [Silent, Consumes 0x68, Consumes 0x69, Consumes 0x0D, Silent, Polls [] g', Silent] @
        map (At 1) [Silent, Silent, Silent, Polls f g]) ([(Top, w), (Handling (length f), vB)], {#})"
    "trace (loop_work demo_tx_env) (Top, demo_typed wA) [Silent, Consumes 0x68, Consumes 0x69, Consumes 0x0D, Silent,
       Polls [] g', Silent] (Top, w)"
    "\<not> rx_pending (drv vB)" "take (length f) (lora_rx_buf vB) = f" "aes_st vB = aes_st wB" "serial_st vB = serial_st wB"
    "sys_inv (demo_rx_env f) (Handling (length f), vB)"
proof -
  obtain wA g' w where A: "main_boot demo_tx_env demo_flash (False, (\<lambda>_. 0), 8) world_reset = Inr wA"
    "trace (loop_step demo_tx_env) (Top, wA) (map Typed [0x68, 0x69, 0x0D]) (Top, demo_typed wA)"
    "trace (loop_work demo_tx_env) (Top, demo_typed wA) [Silent, Consumes 0x68, Consumes 0x69, Consumes 0x0D, Silent,
       Polls [] g', Silent] (Top, w)"
    "frames_sent (hist w) =
       [text_frame demo_tx_env (hw_key (aes_st wA)) (own_header MESH_BROADCAST_ID wA) [0x68, 0x69]]"
    by (rule demo_work)
  define f where "f = text_frame demo_tx_env (hw_key (aes_st wA)) (own_header MESH_BROADCAST_ID wA) [0x68, 0x69]"
  have len: "0 < length f" "length f \<le> 255" by (simp_all add: f_def)
  have flags: "env_flag (demo_rx_env f) h fl = (fl \<noteq> RfBusys \<and> fl \<noteq> VosBusy)" for h fl
    by (simp add: demo_rx_env_def)
  obtain wB where B: "main_boot (demo_rx_env f) demo_flash (False, (\<lambda>_. 0), 8) world_reset = Inr wB"
    by (rule demo_boot [OF flags])
  obtain s g vB where L: "trace (loop_step (demo_rx_env f)) (Top, wB) [Silent, Silent, Silent] s"
    "loop_step (demo_rx_env f) s (Polls f g) (Handling (length f), vB)" "\<not> rx_pending (drv vB)"
    "take (length f) (lora_rx_buf vB) = f" "aes_st vB = aes_st wB" "serial_st vB = serial_st wB"
    "sys_inv (demo_rx_env f) (Handling (length f), vB)"
    by (rule demo_listens [OF boot_sys_inv [OF B] main_boot_idle(2) [OF B] len]) simp_all
  let ?step = "mesh_step (demo_envs f) demo_hears"
  have e: "demo_envs f 0 = demo_tx_env" "demo_envs f 1 = demo_rx_env f" "demo_hears 0 = [1]" "demo_hears 1 = []"
    by (simp_all add: demo_envs_def demo_hears_def)
  note inA = node_in_mesh [of "demo_envs f" 0, unfolded e, where hears = demo_hears, unfolded e]
  have invA: "sys_inv demo_tx_env (Top, wA)" by (rule boot_sys_inv [OF A(1)]) simp
  have st: "hist (demo_typed wA) = hist wA" by (simp add: demo_typed_def)
  have A1: "trace ?step ([(Top, wA), (Top, wB)], {#}) (map (At 0) (map Typed [0x68, 0x69, 0x0D]))
      ([(Top, demo_typed wA), (Top, wB)], {#})" and invT: "sys_inv demo_tx_env (Top, demo_typed wA)"
    using inA [OF A(2) invA, of "[(Top, wA), (Top, wB)]" "{#}"] by (auto simp: st)
  have A2: "trace ?step ([(Top, demo_typed wA), (Top, wB)], {#})
      (map (At 0) [Silent, Consumes 0x68, Consumes 0x69, Consumes 0x0D, Silent, Polls [] g', Silent])
      ([(Top, w), (Top, wB)], {#(1, f)#})"
    using inA [OF work_trace [OF A(3)] invT, of "[(Top, demo_typed wA), (Top, wB)]" "{#}"] A(4) main_boot_idle(1) [OF A(1)]
    by (auto simp: st f_def fan_out_def)
  have B1: "trace ?step ([(Top, w), (Top, wB)], {#(1, f)#}) (map (At 1) [Silent, Silent, Silent]) ([(Top, w), s], {#(1, f)#})"
    using node_in_mesh [of "demo_envs f" 1, unfolded e, OF L(1) boot_sys_inv [OF B], of "[(Top, w), (Top, wB)]" demo_hears "{#(1, f)#}"]
    by (auto simp: demo_hears_def fan_out_def)
  have "?step ([(Top, w), s], add_mset (1, f) {#}) (At 1 (Polls f g)) ([(Top, w), s][1 := (Handling (length f), vB)], {#})"
    by (rule mesh_step.receives) (use L(2) e(2) in simp_all)
  from trace_append [OF trace.more [OF B1 this] A2] have
    "trace ?step ([(Top, demo_typed wA), (Top, wB)], {#})
       (map (At 0) [Silent, Consumes 0x68, Consumes 0x69, Consumes 0x0D, Silent, Polls [] g', Silent] @
        map (At 1) [Silent, Silent, Silent, Polls f g]) ([(Top, w), (Handling (length f), vB)], {#})" by simp
  from that [OF _ _ f_def A1 this A(3) L(3-7)] A(1) B show ?thesis by (simp only: e)
qed

theorem mesh_traffic_bounded_witness:
  "\<exists>ws f g evs s. trace (mesh_step (demo_envs f) demo_hears) (map (Pair Top) ws, {#}) evs s \<and>
     filter arrival evs = [At 1 (Polls f g)] \<and> filter enter_typed evs = [At 0 (Typed 0x0D)] \<and>
     length (filter arrival evs) \<le> 20 * length (filter enter_typed evs)"
proof -
  obtain wA w vB wB f g g' where r: "main_boot (demo_envs f 0) demo_flash (False, (\<lambda>_. 0), 8) world_reset = Inr wA"
    "main_boot (demo_envs f 1) demo_flash (False, (\<lambda>_. 0), 8) world_reset = Inr wB"
    "f = text_frame demo_tx_env (hw_key (aes_st wA)) (own_header MESH_BROADCAST_ID wA) [0x68, 0x69]"
    "trace (mesh_step (demo_envs f) demo_hears) ([(Top, wA), (Top, wB)], {#}) (map (At 0) (map Typed [0x68, 0x69, 0x0D]))
       ([(Top, demo_typed wA), (Top, wB)], {#})"
    "trace (mesh_step (demo_envs f) demo_hears) ([(Top, demo_typed wA), (Top, wB)], {#})
       (map (At 0) [Silent, Consumes 0x68, Consumes 0x69, Consumes 0x0D, Silent, Polls [] g', Silent] @
        map (At 1) [Silent, Silent, Silent, Polls f g]) ([(Top, w), (Handling (length f), vB)], {#})"
    by (rule demo_mesh_run)
  let ?evs = "map (At 0) (map Typed [0x68, 0x69, 0x0D]) @
    map (At 0) [Silent, Consumes 0x68, Consumes 0x69, Consumes 0x0D, Silent, Polls [] g', Silent] @
    map (At 1) [Silent, Silent, Silent, Polls f g]"
  let ?key = "bytes_to_be_words (channel_psk (stored_config demo_flash (False, (\<lambda>_. 0), 8)))"
  have t: "trace (mesh_step (demo_envs f) demo_hears) (map (Pair Top) [wA, wB], {#}) ?evs ([(Top, w), (Handling (length f), vB)], {#})"
    using trace_append [OF r(5,4)] by simp
  have b: "main_boot (demo_envs f i) demo_flash (False, (\<lambda>_. 0), 8) world_reset = Inr ([wA, wB] ! i)"
    if "i < length [wA, wB]" for i
    using that r(1,2) by (cases i) auto
  have "length (filter arrival ?evs) \<le> (1 + 1 + 1\<^sup>2 + 1 ^ 3) * (1 + 1 * (1 + 1 + 1\<^sup>2 + 1 ^ 3)) *
      (size ({#} :: (nat \<times> u8 list) multiset) + 1 * length (filter enter_typed ?evs))"
    by (rule mesh_traffic_bounded [OF b _ t, where c = demo_tx_env and key = ?key])
      (simp_all add: demo_envs_def demo_hears_def)
  moreover have "filter arrival ?evs = [At 1 (Polls f g)]" by (simp add: r(3))
  moreover have "filter enter_typed ?evs = [At 0 (Typed 0x0D)]" by (simp add: is_enter_def)
  ultimately have "filter arrival ?evs = [At 1 (Polls f g)] \<and> filter enter_typed ?evs = [At 0 (Typed 0x0D)] \<and>
      length (filter arrival ?evs) \<le> 20 * length (filter enter_typed ?evs)"
    by (simp only:) simp
  with t show ?thesis by blast
qed

end
