(* ===== verification/Fair_Runs.thy ===== *)
theory Fair_Runs
  imports Loop_Phases
begin

text \<open>
  Infinite runs of the main loop with interrupts, in which the loop itself takes a step again and again:
  what is typed is consumed, and the radio is polled when the operator pauses.
\<close>

section \<open>Fair runs\<close>

text \<open>
  The states and events of an infinite run. It is fair if the processor does not only serve interrupts.
\<close>

definition fair_run :: "hal_env \<Rightarrow> (nat \<Rightarrow> nat phase \<times> world) \<Rightarrow> (nat \<Rightarrow> loop_event) \<Rightarrow> bool" where
  "fair_run e st evs \<longleftrightarrow> (\<forall>i. loop_step e (st i) (evs i) (st (Suc i))) \<and>
     (\<forall>i. \<exists>j \<ge> i. loop_work e (st j) (evs j) (st (Suc j)))"

definition ring_of :: "nat phase \<times> world \<Rightarrow> u8 list" where
  "ring_of s = ring_contents (serial_st (snd s))"

lemma fair_run_inv:
  assumes "fair_run e st evs" and "loop_inv e (st i)" and "i \<le> j"
  shows "loop_inv e (st j)"
  using assms(3) by (induction rule: dec_induct) (use assms(1,2) in \<open>auto simp: fair_run_def intro: loop_step_inv\<close>)

section \<open>What a step does to the ring\<close>

lemma isr_ring:
  assumes "world_inv e w"
  shows "\<exists>cs. ring_contents (serial_st (isr i w)) = ring_contents (serial_st w) @ cs \<and>
    ((\<forall>b. irq_event i \<noteq> Typed b) \<longrightarrow> cs = [])"
proof (cases "\<exists>rdr. i = Uart_Irq True rdr")
  case True
  then obtain rdr where i: "i = Uart_Irq True rdr" by blast
  let ?b = "ucast (rdr AND 0xFF) :: u8"
  have "serial_inv (serial_st w)" using assms by (simp add: world_inv_def)
  from rx_queue.contents_put [OF this, of ?b]
  obtain cs where "ring_contents (serial_push_byte ?b (serial_st w)) = ring_contents (serial_st w) @ cs"
    by (cases "length (ring_contents (serial_st w)) < 255") auto
  then have "ring_contents (serial_st (isr i w)) = ring_contents (serial_st w) @ cs"
    by (simp add: i USART1_IRQHandler_def)
  moreover have "irq_event i = Typed ?b" by (simp add: i)
  ultimately show ?thesis by blast
next
  case False
  then have "ring_contents (serial_st (isr i w)) = ring_contents (serial_st w)"
    by (cases i) (auto simp: USART1_IRQHandler_def)
  then show ?thesis by simp
qed

lemma work_ring:
  assumes "loop_work e s ev s'" and "loop_inv e s"
  shows "ring_of s = (case ev of Consumes b \<Rightarrow> b # ring_of s' | _ \<Rightarrow> ring_of s')"
  using assms(1)
proof cases
  case (takes w b st' w')
  have "world_inv e w" using assms(2) takes(1) by (simp add: loop_inv_def)
  from take_byte(2) [OF takes(4) this] line_byte_keeps(1) [OF takes(5)] show ?thesis
    by (simp add: takes(1-3) ring_of_def)
next
  case (polls w n w')
  have "world_inv e w" using assms(2) polls(1) by (simp add: loop_inv_def)
  from radio_poll_result [OF polls(4) this] obtain b d h where "w' = w\<lparr>lora_rx_buf := b, drv := d, hist := h\<rparr>" by blast
  then show ?thesis by (simp add: polls(1-3) ring_of_def)
next
  case (handles n w w')
  have "phy w = Some (stm32wl_ops e)" using assms(2) handles(1) by (simp add: loop_inv_def world_inv_def)
  from packet_unaware.keeps(1) [OF handles(4) this] show ?thesis by (simp add: handles(1-3) ring_of_def)
qed (simp_all add: ring_of_def)

lemma irq_event_typed [simp]:
  "irq_event i \<noteq> Consumes b" "Consumes b \<noteq> irq_event i" "irq_event i \<noteq> Polls f g" "Polls f g \<noteq> irq_event i"
  by (cases i; simp)+

lemma step_ring:
  assumes "loop_step e s ev s'" and "loop_inv e s"
  shows "\<exists>cs. ring_of s @ cs = (case ev of Consumes b \<Rightarrow> b # ring_of s' | _ \<Rightarrow> ring_of s') \<and>
    ((\<forall>b. ev \<noteq> Typed b) \<longrightarrow> cs = [])"
  using assms(1)
proof cases
  case work
  from work_ring [OF this assms(2)] show ?thesis by (intro exI [of _ "[]"]) simp
next
  case (interrupt ph w i)
  have "world_inv e w" using assms(2) interrupt(1) by (simp add: loop_inv_def)
  from isr_ring [OF this, of i] obtain cs where
    cs: "ring_contents (serial_st (isr i w)) = ring_contents (serial_st w) @ cs"
    "(\<forall>b. irq_event i \<noteq> Typed b) \<longrightarrow> cs = []" by blast
  have "(case ev of Consumes b \<Rightarrow> b # ring_of s' | _ \<Rightarrow> ring_of s') = ring_of s'"
    by (auto simp: interrupt(2) split: loop_event.split)
  with cs show ?thesis by (intro exI [of _ cs]) (simp add: interrupt ring_of_def)
qed

section \<open>Progress\<close>

text \<open>The steps the loop takes until it looks at the terminal again.\<close>

fun steps_to_terminal :: "nat phase \<Rightarrow> nat" where
  "steps_to_terminal Terminal = 0"
| "steps_to_terminal Top = 1"
| "steps_to_terminal (Handling n) = 2"
| "steps_to_terminal Radio = 3"

lemma work_towards_terminal:
  assumes "loop_work e s ev s'" and "loop_inv e s" and "ring_of s \<noteq> []" and "\<forall>b. ev \<noteq> Consumes b"
  shows "steps_to_terminal (fst s') < steps_to_terminal (fst s)"
  using assms(1)
proof cases
  case (drained w)
  have "serial_inv (serial_st w)" using assms(2) drained(1) by (simp add: loop_inv_def world_inv_def)
  then show ?thesis using rx_queue.get_None_iff drained(1,4) assms(3) by (simp add: ring_of_def)
qed (use assms(4) in auto)

text \<open>The steps the loop takes until it polls the radio, if nothing is typed.\<close>

fun steps_to_poll :: "nat phase \<times> world \<Rightarrow> nat" where
  "steps_to_poll (Radio, w) = 0"
| "steps_to_poll (Terminal, w) = ring_count (serial_st w) + 1"
| "steps_to_poll (Top, w) = ring_count (serial_st w) + 2"
| "steps_to_poll (Handling n, w) = ring_count (serial_st w) + 3"

lemma work_towards_poll:
  assumes "loop_work e s ev s'" and "loop_inv e s" and "\<forall>f g. ev \<noteq> Polls f g"
  shows "steps_to_poll s' < steps_to_poll s"
proof -
  have "ring_count (serial_st (snd s)) = (case ev of Consumes b \<Rightarrow> Suc (ring_count (serial_st (snd s'))) | _ \<Rightarrow> ring_count (serial_st (snd s')))"
    using arg_cong [OF work_ring [OF assms(1,2)], of length] by (simp add: ring_of_def split: loop_event.splits)
  from assms(1) this show ?thesis
    by cases (use assms(3) in simp_all)
qed

lemma step_phase:
  assumes "loop_step e s ev s'" and "\<not> loop_work e s ev s'"
  shows "fst s' = fst s" and "\<forall>b. ev \<noteq> Consumes b" and "\<forall>f g. ev \<noteq> Polls f g"
  using assms by (auto elim!: loop_step.cases)

lemma radio_polled_again:
  assumes run: "fair_run e st evs" and inv: "loop_inv e (st i)" and quiet: "\<forall>k \<ge> i. \<forall>b. evs k \<noteq> Typed b"
  shows "\<exists>j \<ge> i. \<exists>f s. evs j = Polls f s"
proof (rule ccontr)
  assume "\<not> ?thesis"
  then have no: "\<forall>f s. evs j \<noteq> Polls f s" if "i \<le> j" for j using that by blast
  let ?m = "\<lambda>j. steps_to_poll (st j)"
  have dec: "?m (Suc j) < ?m j" if "i \<le> j" "loop_work e (st j) (evs j) (st (Suc j))" for j
    using work_towards_poll [OF that(2) fair_run_inv [OF run inv that(1)]] no [OF that(1)] by blast
  have "?m (Suc j) \<le> ?m j" if j: "i \<le> j" for j
  proof (cases "loop_work e (st j) (evs j) (st (Suc j))")
    case True
    from dec [OF j this] show ?thesis by simp
  next
    case False
    have step: "loop_step e (st j) (evs j) (st (Suc j))" using run by (simp add: fair_run_def)
    note ph = step_phase [OF step False]
    have "ring_of (st (Suc j)) = ring_of (st j)"
      using step_ring [OF step fair_run_inv [OF run inv j]] quiet j ph(2) by (auto split: loop_event.splits)
    then have "ring_count (serial_st (snd (st (Suc j)))) = ring_count (serial_st (snd (st j)))"
      by (metis ring_of_def length_ring_contents)
    with ph(1) have "?m (Suc j) = ?m j"
      by (cases "st j"; cases "st (Suc j)"; cases "fst (st j)") auto
    then show ?thesis by simp
  qed
  moreover have "\<exists>k \<ge> j. ?m (Suc k) < ?m k" if "i \<le> j" for j
    using run dec that order_trans unfolding fair_run_def by meson
  ultimately show False by (rule no_infinite_descent [where f = ?m])
qed

lemma byte_consumed:
  assumes run: "fair_run e st evs" and inv: "loop_inv e (st i)" and ring: "ring_of (st i) \<noteq> []"
  shows "\<exists>j \<ge> i. \<exists>b. evs j = Consumes b"
proof (rule ccontr)
  assume "\<not> ?thesis"
  then have no: "\<forall>b. evs j \<noteq> Consumes b" if "i \<le> j" for j using that by blast
  have step: "loop_step e (st j) (evs j) (st (Suc j))" for j using run by (simp add: fair_run_def)
  have ne: "ring_of (st j) \<noteq> []" if "i \<le> j" for j
    using that
  proof (induction rule: dec_induct)
    case (step j)
    from step_ring [OF assms(1) [unfolded fair_run_def, THEN conjunct1, rule_format] fair_run_inv [OF run inv step.hyps(1)]]
      no [OF step.hyps(1)] step.IH
    show ?case by (auto split: loop_event.splits)
  qed (rule ring)
  let ?m = "\<lambda>j. steps_to_terminal (fst (st j))"
  have dec: "?m (Suc j) < ?m j" if "i \<le> j" "loop_work e (st j) (evs j) (st (Suc j))" for j
    by (rule work_towards_terminal [OF that(2) fair_run_inv [OF run inv that(1)] ne [OF that(1)] no [OF that(1)]])
  have "?m (Suc j) \<le> ?m j" if "i \<le> j" for j
    using dec [OF that] step_phase(1) [OF step [of j]] by (metis order_refl less_imp_le)
  moreover have "\<exists>k \<ge> j. ?m (Suc k) < ?m k" if "i \<le> j" for j
    using run dec that order_trans unfolding fair_run_def by meson
  ultimately show False by (rule no_infinite_descent [where f = ?m])
qed

text \<open>The bytes consumed from event \<open>i\<close> up to event \<open>j\<close>.\<close>

definition consumed :: "(nat \<Rightarrow> loop_event) \<Rightarrow> nat \<Rightarrow> nat \<Rightarrow> u8 list" where
  "consumed evs i j = concat (map (\<lambda>k. case evs k of Consumes b \<Rightarrow> [b] | _ \<Rightarrow> []) [i..<j])"

lemma consumed_append: "i \<le> j \<Longrightarrow> j \<le> k \<Longrightarrow> consumed evs i k = consumed evs i j @ consumed evs j k"
  using upt_add_eq_append [of i j "k - j"] by (simp add: consumed_def)

lemma consumed_none: "(\<And>k b. i \<le> k \<Longrightarrow> k < j \<Longrightarrow> evs k \<noteq> Consumes b) \<Longrightarrow> consumed evs i j = []"
  by (auto simp: consumed_def split: loop_event.split)

text \<open>What was in the ring and what came since is what was consumed and what is in the ring.\<close>

lemma ring_balance:
  assumes "fair_run e st evs" and "loop_inv e (st i)" and "i \<le> j"
  shows "\<exists>cs. ring_of (st i) @ cs = consumed evs i j @ ring_of (st j)"
  using assms(3)
proof (induction rule: dec_induct)
  case base
  show ?case by (intro exI [of _ "[]"]) (simp add: consumed_def)
next
  case (step j)
  then obtain cs where cs: "ring_of (st i) @ cs = consumed evs i j @ ring_of (st j)" by blast
  obtain ds where ds: "ring_of (st j) @ ds = (case evs j of Consumes b \<Rightarrow> b # ring_of (st (Suc j)) | _ \<Rightarrow> ring_of (st (Suc j)))"
    using step_ring [of e "st j" "evs j" "st (Suc j)"] assms fair_run_inv [OF assms(1,2) step.hyps(1)]
    by (auto simp: fair_run_def)
  have "consumed evs i (Suc j) @ ring_of (st (Suc j)) = consumed evs i j @ (ring_of (st j) @ ds)"
    using step.hyps(1) by (simp add: ds consumed_def split: loop_event.split)
  also have "\<dots> = ring_of (st i) @ cs @ ds" by (simp flip: cs)
  finally show ?case by metis
qed

lemma consumed_at_least:
  assumes run: "fair_run e st evs" and inv: "loop_inv e (st i)"
  shows "n \<le> length (ring_of (st i)) \<Longrightarrow> \<exists>j \<ge> i. length (consumed evs i j) = n"
proof (induction n)
  case 0
  show ?case by (intro exI [of _ i]) (simp add: consumed_def)
next
  case (Suc n)
  then have "\<exists>j \<ge> i. length (consumed evs i j) = n" by simp
  then obtain j where j: "i \<le> j" "length (consumed evs i j) = n" by blast
  obtain cs where "ring_of (st i) @ cs = consumed evs i j @ ring_of (st j)" using ring_balance [OF run inv j(1)] by blast
  then have "length (ring_of (st i)) + length cs = n + length (ring_of (st j))" by (metis length_append j(2))
  with Suc.prems have "ring_of (st j) \<noteq> []" by fastforce
  then have "\<exists>k. j \<le> k \<and> (\<exists>b. evs k = Consumes b)" using byte_consumed [OF run fair_run_inv [OF run inv j(1)]] by blast
  then obtain k where k: "j \<le> k \<and> (\<exists>b. evs k = Consumes b)" "\<forall>l < k. \<not> (j \<le> l \<and> (\<exists>b. evs l = Consumes b))"
    unfolding exists_least_iff [of "\<lambda>k. j \<le> k \<and> (\<exists>b. evs k = Consumes b)"] by blast
  have "consumed evs j k = []" by (rule consumed_none) (use k(2) in blast)
  moreover obtain b where b: "evs k = Consumes b" "j \<le> k" using k(1) by blast
  then have "consumed evs j (Suc k) = consumed evs j k @ [b]" by (simp add: consumed_def)
  ultimately have "length (consumed evs i (Suc k)) = Suc n"
    using consumed_append [of i j "Suc k" evs] b(2) j by simp
  then show ?case using j(1) k(1) by (intro exI [of _ "Suc k"]) simp
qed

lemma waiting_bytes_consumed:
  assumes run: "fair_run e st evs" and inv: "loop_inv e (st i)"
  shows "\<exists>j \<ge> i. consumed evs i j = ring_of (st i)"
proof -
  obtain j where j: "i \<le> j" "length (consumed evs i j) = length (ring_of (st i))"
    using consumed_at_least [OF assms order_refl] by blast
  from ring_balance [OF assms j(1)] have "consumed evs i j = ring_of (st i)"
    by (metis append_eq_append_conv j(2))
  with j(1) show ?thesis by blast
qed

section \<open>The loop proceeds\<close>

text \<open>While the clock runs, only a packet that the decoder does not survive stops the loop.\<close>

lemma loop_proceeds:
  assumes "clock_runs e t k" and "loop_inv e s"
  shows "(\<exists>ev s'. loop_work e s ev s') \<or> (\<exists>n w f. s = (Handling n, w) \<and> decode_fault e n w f)"
proof (cases s)
  case (Pair ph w)
  have inv: "world_inv e w" using assms(2) by (simp add: loop_inv_def Pair)
  show ?thesis
  proof (cases ph)
    case Top
    obtain led' h where "led_tick e (led_st w) (hist w) = (led', h)" by fastforce
    from loop_work.begins [OF this] show ?thesis unfolding Pair Top by blast
  next
    case Terminal
    show ?thesis
    proof (cases "serial_next (serial_st w)")
      case None
      from loop_work.drained [OF this] show ?thesis unfolding Pair Terminal by blast
    next
      case (Some p)
      obtain b st' where p: "serial_next (serial_st w) = Some (b, st')" using Some by (cases p) auto
      from line_byte_returns [OF assms(1) take_byte(1) [OF p inv]] obtain w' where
        "line_byte e b (w\<lparr>serial_st := st'\<rparr>) = Inr w'" by blast
      from loop_work.takes [OF p this] show ?thesis unfolding Pair Terminal by blast
    qed
  next
    case Radio
    obtain n w' where "radio_poll w = (n, w')" by fastforce
    from loop_work.polls [OF this] show ?thesis unfolding Pair Radio by blast
  next
    case (Handling n)
    have n: "n \<le> 255" using assms(2) by (simp add: loop_inv_def Pair Handling)
    show ?thesis
    proof (cases "handle_packet e n w")
      case (Inl f)
      with handle_packet_returns [OF assms(1) inv n] show ?thesis unfolding Pair Handling by blast
    next
      case (Inr w')
      from loop_work.handles [OF this] show ?thesis unfolding Pair Handling by blast
    qed
  qed
qed

text \<open>Without packets it goes on for ever.\<close>

definition no_packet :: "hal_env \<Rightarrow> nat phase \<times> world \<Rightarrow> bool" where
  "no_packet e s \<longleftrightarrow> loop_inv e s \<and> \<not> rx_pending (drv (snd s)) \<and> (\<forall>n. fst s = Handling n \<longrightarrow> n = 0)"

lemma no_packet_step:
  assumes "loop_work e s ev s'" and "no_packet e s"
  shows "no_packet e s'"
proof -
  have inv: "loop_inv e s'" using loop_step_inv [OF loop_step.work [OF assms(1)]] assms(2) by (simp add: no_packet_def)
  have phy: "phy (snd s) = Some (stm32wl_ops e)" using assms(2) by (simp add: no_packet_def loop_inv_def world_inv_def)
  from assms(1) show ?thesis
  proof cases
    case (takes w b st' w')
    have "phy (w\<lparr>serial_st := st'\<rparr>) = Some (stm32wl_ops e)" using phy by (simp add: takes(1))
    from terminal_unaware.keeps(2) [OF takes(5) this] assms(2) inv show ?thesis
      by (simp add: no_packet_def takes(1,3))
  next
    case (polls w n w')
    have "radio_poll w = (0, w)"
      using assms(2) phy by (simp add: polls(1) no_packet_def radio_poll_def stm32wl_radio_rx_poll_def)
    with polls(4) assms(2) inv show ?thesis by (simp add: no_packet_def polls(1,3))
  next
    case (handles n w w')
    have "n = 0" using assms(2) by (simp add: handles(1) no_packet_def)
    with handles(4) have "w' = w" by (simp add: handle_packet_def)
    with assms(2) inv show ?thesis by (simp add: no_packet_def handles(1,3))
  qed (use assms(2) inv in \<open>simp_all add: no_packet_def\<close>)
qed

lemma no_packet_run:
  assumes "clock_runs e t k" and "no_packet e s"
  obtains st evs where "st 0 = s" "fair_run e st evs" "\<forall>i. loop_work e (st i) (evs i) (st (Suc i))"
proof -
  have "\<exists>s'. (no_packet e s' \<and> (Suc n = 0 \<longrightarrow> s' = s)) \<and> (\<exists>ev. loop_work e r ev s')" if np: "no_packet e r" for r n
  proof -
    have "\<not> decode_fault e 0 w f" for w f by (simp add: decode_fault_def)
    then have "\<not> (\<exists>n w f. r = (Handling n, w) \<and> decode_fault e n w f)"
      using np by (auto simp: no_packet_def)
    then obtain ev s' where "loop_work e r ev s'"
      using loop_proceeds [OF assms(1) np [unfolded no_packet_def, THEN conjunct1]] by blast
    with no_packet_step [OF this np] show ?thesis by blast
  qed
  then have "\<exists>st. \<forall>n. (no_packet e (st n) \<and> (n = 0 \<longrightarrow> st n = s)) \<and> (\<exists>ev. loop_work e (st n) ev (st (Suc n)))"
    using assms(2) by (intro dependent_nat_choice) blast+
  then obtain st where st: "st 0 = s" "\<forall>n. \<exists>ev. loop_work e (st n) ev (st (Suc n))" by blast
  from choice [OF st(2)] obtain evs where evs: "\<forall>n. loop_work e (st n) (evs n) (st (Suc n))" by blast
  then have "fair_run e st evs" by (auto simp: fair_run_def intro: loop_step.work)
  from that [OF st(1) this evs] show ?thesis .
qed

lemma work_not_typed: "loop_work e s ev s' \<Longrightarrow> ev \<noteq> Typed b"
  by (auto elim: loop_work.cases)

text \<open>A run that starts with a byte in the ring.\<close>

lemma demo_fair_run:
  obtains st evs where "fair_run demo_tx_env st evs" "loop_inv demo_tx_env (st 0)"
    "ring_contents (serial_st (snd (st 0))) = [0x41]" "\<forall>k b. evs k \<noteq> Typed b"
proof -
  let ?w = "demo_world\<lparr>serial_st := serial_push_byte 0x41 (serial_st demo_world)\<rparr>"
  have q: "serial_inv (serial_st demo_world)" "ring_contents (serial_st demo_world) = []"
    using demo_world_inv by (simp_all add: world_inv_def demo_world_def ring_contents_def ring_count_def serial_reset_def)
  have r: "ring_contents (serial_st ?w) = [0x41]" using rx_queue.contents_put [OF q(1), of "0x41"] q(2) by simp
  have "world_inv demo_tx_env ?w"
    using demo_world_inv rx_queue.inv_put [OF q(1)] by (simp add: world_inv_def)
  then have "no_packet demo_tx_env (Top, ?w)"
    by (simp add: no_packet_def loop_inv_def) (simp add: demo_world_def world_reset_def radio_drv_reset_def)
  from no_packet_run [OF demo_tx_clock this] obtain st evs where
    st: "st 0 = (Top, ?w)" "fair_run demo_tx_env st evs" "\<forall>i. loop_work demo_tx_env (st i) (evs i) (st (Suc i))" by blast
  have "\<forall>k b. evs k \<noteq> Typed b" using st(3) work_not_typed by blast
  moreover have "loop_inv demo_tx_env (st 0)"
    using \<open>no_packet demo_tx_env (Top, ?w)\<close> unfolding no_packet_def st(1) by blast
  moreover have "ring_contents (serial_st (snd (st 0))) = [0x41]" by (simp only: st(1) snd_conv r)
  ultimately show ?thesis using that st(2) by blast
qed

text \<open>
  While bytes keep coming the radio waits: there is an infinite run in which the loop goes on and never
  leaves the terminal.
\<close>

lemma terminal_step:
  assumes "clock_runs e t k" and "loop_inv e (Terminal, w)" and "ring_of (Terminal, w) \<noteq> []"
  obtains b w' where "loop_work e (Terminal, w) (Consumes b) (Terminal, w')"
proof -
  have ne: "serial_next (serial_st w) \<noteq> None"
    using assms(2,3) rx_queue.get_None_iff by (auto simp: loop_inv_def world_inv_def ring_of_def)
  obtain ev s' where st: "loop_work e (Terminal, w) ev s'"
    using loop_proceeds [OF assms(1,2)] by blast
  from st show ?thesis
  proof cases
    case (takes b st' w')
    with that st show ?thesis by blast
  qed (use ne in simp)
qed

lemma typing_starves_radio:
  assumes "clock_runs e t k" and "loop_inv e (Terminal, w)"
  shows "\<exists>st evs. st 0 = (Terminal, w) \<and> fair_run e st evs \<and> (\<forall>i f s. evs i \<noteq> Polls f s)"
proof -
  let ?P = "\<lambda>n s. loop_inv e s \<and> fst s = Terminal \<and> (odd n \<longrightarrow> ring_of s \<noteq> []) \<and> (n = 0 \<longrightarrow> s = (Terminal, w))"
  let ?Q = "\<lambda>n s s'. \<exists>ev. loop_step e s ev s' \<and> (odd n \<longrightarrow> loop_work e s ev s') \<and> (\<forall>f g. ev \<noteq> Polls f g)"
  have "\<exists>s'. ?P (Suc n) s' \<and> ?Q n s s'" if P: "?P n s" for n s
  proof -
    obtain v where s: "s = (Terminal, v)" using P by (cases s) auto
    show ?thesis
    proof (cases "odd n")
      case True
      then obtain b v' where st: "loop_work e s (Consumes b) (Terminal, v')"
        using terminal_step [OF assms(1)] P s by metis
      have "loop_inv e (Terminal, v')" using loop_step_inv [OF loop_step.work [OF st]] P by blast
      with st True show ?thesis by (intro exI [of _ "(Terminal, v')"]) (auto intro: loop_step.work)
    next
      case False
      let ?i = "Uart_Irq True 0x41"
      have st: "loop_step e s (irq_event ?i) (Terminal, isr ?i v)" unfolding s by (rule loop_step.interrupt)
      have inv: "loop_inv e (Terminal, isr ?i v)" using loop_step_inv [OF st] P by blast
      have "serial_inv (serial_st v)" using P s by (simp add: loop_inv_def world_inv_def)
      from rx_queue.contents_put [OF this, of "ucast (0x41 AND 0xFF :: u16)"]
      have "ring_of (Terminal, isr ?i v) \<noteq> []"
        by (cases "ring_contents (serial_st v)") (auto simp: ring_of_def USART1_IRQHandler_def)
      with st inv False show ?thesis by (intro exI [of _ "(Terminal, isr ?i v)"]) (auto simp del: isr.simps)
    qed
  qed
  then have "\<exists>st. \<forall>n. ?P n (st n) \<and> ?Q n (st n) (st (Suc n))"
    using assms(2) by (intro dependent_nat_choice) auto
  then obtain st where st: "\<forall>n. ?P n (st n)" "\<forall>n. ?Q n (st n) (st (Suc n))" by blast
  from choice [OF st(2)] obtain evs where evs: "\<forall>n. loop_step e (st n) (evs n) (st (Suc n)) \<and>
      (odd n \<longrightarrow> loop_work e (st n) (evs n) (st (Suc n))) \<and> (\<forall>f g. evs n \<noteq> Polls f g)" by blast
  have "\<exists>j \<ge> i. loop_work e (st j) (evs j) (st (Suc j))" for i
    using evs by (intro exI [of _ "2 * i + 1"]) simp
  with evs have "fair_run e st evs" by (simp add: fair_run_def)
  with st(1) evs show ?thesis by (intro exI [of _ st] exI [of _ evs]) auto
qed

text \<open>
  C16. What is typed is processed: in every infinite run of the main loop and the interrupts in which the
  loop itself goes on, the bytes that wait in the ring at any time are all consumed later, in the order
  in which they wait and before any others, however many bytes and packets arrive meanwhile.
\<close>

theorem typed_bytes_are_consumed:
  assumes "fair_run e st evs" and "loop_inv e (st i)"
  shows "\<exists>j \<ge> i. consumed evs i j = ring_contents (serial_st (snd (st i)))"
  using waiting_bytes_consumed [OF assms] by (simp only: ring_of_def)

theorem typed_bytes_are_consumed_witness:
  "\<exists>st evs j. fair_run demo_tx_env st evs \<and> consumed evs 0 j = [0x41]"
proof -
  obtain st evs where r: "fair_run demo_tx_env st evs" "loop_inv demo_tx_env (st 0)"
    "ring_contents (serial_st (snd (st 0))) = [0x41]" by (rule demo_fair_run)
  from typed_bytes_are_consumed [OF r(1,2)] r(1,3) show ?thesis by (simp only:) blast
qed

text \<open>
  C17. The radio is not forgotten: if from some time on nothing is typed, an infinite run in which the
  loop goes on polls the radio again and again.
\<close>

theorem radio_is_polled:
  assumes "fair_run e st evs" and "loop_inv e (st i)" and "\<forall>k \<ge> i. \<forall>b. evs k \<noteq> Typed b"
  shows "\<forall>m \<ge> i. \<exists>j \<ge> m. \<exists>f s. evs j = Polls f s"
proof (intro allI impI)
  fix m assume m: "i \<le> m"
  show "\<exists>j \<ge> m. \<exists>f s. evs j = Polls f s"
    by (rule radio_polled_again [OF assms(1) fair_run_inv [OF assms(1,2) m]]) (use assms(3) m in auto)
qed

theorem radio_is_polled_witness:
  "\<exists>st evs. fair_run demo_tx_env st evs \<and> (\<forall>m. \<exists>j \<ge> m. \<exists>f s. evs j = Polls f s)"
proof -
  obtain st evs where r: "fair_run demo_tx_env st evs" "loop_inv demo_tx_env (st 0)" "\<forall>k b. evs k \<noteq> Typed b"
    by (rule demo_fair_run)
  then have "\<forall>k \<ge> 0. \<forall>b. evs k \<noteq> Typed b" by simp
  from radio_is_polled [OF r(1,2) this] r(1) show ?thesis by blast
qed

end
