(* ===== verification/Node_Liveness.thy ===== *)
theory Node_Liveness
  imports Fair_Runs Node_Runs
begin

text \<open>
  What a node does in the end: in an infinite run in which the main loop goes on, a line that waits in
  the ring is transmitted, and a packet that was polled is handled, whatever is typed and received and
  whichever interrupts come meanwhile.
\<close>

section \<open>Infinite runs refine the abstract node\<close>

lemma fair_run_sys:
  assumes "fair_run e st evs" and "sys_inv e (st i)" and "i \<le> j"
  shows "sys_inv e (st j)"
  using assms(3)
proof (induction rule: dec_induct)
  case (step j)
  have "loop_step e (st j) (evs j) (st (Suc j))" using assms(1) by (simp add: fair_run_def)
  from step_refines [OF this step.IH] show ?case by simp
qed (rule assms(2))

lemma fair_run_node:
  assumes "fair_run e st evs" and "sys_inv e (st i)" and "i \<le> j"
  shows "node_step e (tx_works e) (abs_state (st j)) (evs j) (abs_state (st (Suc j)))"
  using step_refines fair_run_sys [OF assms] assms(1) by (simp add: fair_run_def)

lemma sys_loop_inv: "sys_inv e s \<Longrightarrow> loop_inv e s"
  by (simp add: sys_inv_def)

section \<open>The line being edited\<close>

lemma send_line: "node_send e works to t n ok n' \<Longrightarrow> n_line n' = n_line n"
  by (auto elim!: node_send.cases simp: node_air_def node_register_def)

lemma text_line: "node_text e works f n n' \<Longrightarrow> n_line n' = n_line n"
  by (auto elim!: node_text.cases dest!: send_line simp: node_print_def)

lemma packet_line: "node_packet e works f n n' \<Longrightarrow> n_line n' = n_line n"
  by (auto elim!: node_packet.cases dest!: text_line simp: node_air_def node_register_def)

lemma send_key: "node_send e works to t n ok n' \<Longrightarrow> n_key n' = n_key n"
  by (auto elim!: node_send.cases simp: node_air_def node_register_def)

lemma text_key: "node_text e works f n n' \<Longrightarrow> n_key n' = n_key n"
  by (auto elim!: node_text.cases dest!: send_key simp: node_print_def)

lemma byte_key: "node_byte e works b n n' \<Longrightarrow> n_key n' = n_key n"
  by (auto elim!: node_byte.cases node_line.cases dest!: send_key simp: node_print_def node_command_def split: if_splits)

lemma packet_key: "node_packet e works f n n' \<Longrightarrow> n_key n' = n_key n"
  by (auto elim!: node_packet.cases dest!: text_key simp: node_air_def node_register_def)

lemma node_step_key: "node_step e works s ev s' \<Longrightarrow> n_key (snd s') = n_key (snd s)"
  by (auto elim!: node_step.cases dest: packet_key byte_key)

text \<open>Only a byte that is taken from the queue changes the line.\<close>

lemma step_line:
  assumes "node_step e works s ev s'" and "\<forall>b. ev \<noteq> Consumes b"
  shows "n_line (snd s') = n_line (snd s)"
  using assms by cases (auto dest: packet_line)

lemma step_line_byte:
  assumes "node_step e works s (Consumes b) s'" and "b \<notin> {0x0D, 0x0A}" and "length (n_line (snd s)) < 199"
  shows "n_line (snd s') = n_line (snd s) @ [b]"
  using assms(1)
proof cases
  case (consumes n bs n')
  from consumes(4) show ?thesis
    by cases (use assms(2,3) in \<open>auto simp: consumes(1,2)\<close>)
qed

lemma line_text_send:
  assumes "node_line e True t n n'" and "\<not> is_command t" and "length t \<le> 127"
  shows "n_aired n' = n_aired n @ [text_frame e (n_key n) (node_header MESH_BROADCAST_ID n) t] \<and>
    n_shown n' = n_shown n @ bytes_of ''Sent.'' @ crlf"
  using assms(1)
proof cases
  case command
  then show ?thesis
    using assms(2) by (auto simp: node_command_def is_command_def split: if_splits)
next
  case (message ok n1)
  from message(3) show ?thesis
    by cases (use assms(3) in \<open>auto simp: message(1) node_print_def node_air_def node_register_def\<close>)
qed

section \<open>A line that waits is transmitted\<close>

lemma consumed_snoc:
  assumes "i \<le> j" and "consumed evs i j = bs @ [b]"
  shows "\<exists>k. i \<le> k \<and> k < j \<and> evs k = Consumes b \<and> consumed evs i k = bs"
  using assms
proof (induction rule: dec_induct)
  case base
  then show ?case by (simp add: consumed_def)
next
  case (step j)
  have c: "consumed evs i (Suc j) = consumed evs i j @ (case evs j of Consumes b \<Rightarrow> [b] | _ \<Rightarrow> [])"
    using step.hyps(1) by (simp add: consumed_def)
  show ?case
  proof (cases "\<exists>b'. evs j = Consumes b'")
    case True
    then show ?thesis using c step.prems step.hyps(1) by (intro exI [of _ j]) auto
  next
    case False
    then have "consumed evs i j = bs @ [b]" using c step.prems by (auto split: loop_event.splits)
    from step.IH [OF this] show ?thesis using less_SucI by blast
  qed
qed

text \<open>Until the end of the line comes, the line is what has been consumed.\<close>

lemma line_grows:
  assumes run: "fair_run e st evs" and inv: "sys_inv e (st i)"
    and line: "line_text (snd (st i)) = l" and "i \<le> k"
    and "\<forall>b \<in> set (consumed evs i k). b \<notin> {0x0D, 0x0A}" and "length l + length (consumed evs i k) \<le> 199"
  shows "line_text (snd (st k)) = l @ consumed evs i k"
  using assms(4-6)
proof (induction rule: dec_induct)
  case base
  show ?case by (simp add: consumed_def line)
next
  case (step k)
  have c: "consumed evs i (Suc k) = consumed evs i k @ (case evs k of Consumes b \<Rightarrow> [b] | _ \<Rightarrow> [])"
    using step.hyps(1) by (simp add: consumed_def)
  then have IH: "line_text (snd (st k)) = l @ consumed evs i k"
    using step.IH step.prems by auto
  note node = fair_run_node [OF run inv step.hyps(1)]
  show ?case
  proof (cases "\<exists>b. evs k = Consumes b")
    case True
    then obtain b where b: "evs k = Consumes b" by blast
    have "b \<notin> {0x0D, 0x0A}" "length (n_line (snd (abs_state (st k)))) < 199"
      using step.prems IH by (auto simp: c b abs_state_def)
    from step_line_byte [OF node [unfolded b] this] IH show ?thesis by (simp add: c b abs_state_def)
  next
    case False
    then have "consumed evs i (Suc k) = consumed evs i k" using c by (auto split: loop_event.splits)
    with step_line [OF node] False IH show ?thesis by (simp add: abs_state_def)
  qed
qed

text \<open>The waiting end of the line completes it.\<close>

lemma line_completed:
  assumes run: "fair_run e st evs" and inv: "sys_inv e (st i)"
    and line: "line_text (snd (st i)) = l" and ring: "ring_of (st i) = r @ b # rest"
    and b: "b \<in> {0x0D, 0x0A}" and r: "\<forall>c \<in> set r. c \<notin> {0x0D, 0x0A}" and "length (l @ r) \<le> 199"
  shows "\<exists>k \<ge> i. evs k = Consumes b \<and> line_text (snd (st k)) = l @ r"
proof -
  obtain j where j: "i \<le> j" "length (consumed evs i j) = length r + 1"
    using consumed_at_least [OF run sys_loop_inv [OF inv], of "length r + 1"] ring by auto
  obtain cs where "(r @ b # rest) @ cs = consumed evs i j @ ring_of (st j)"
    using ring_balance [OF run sys_loop_inv [OF inv] j(1)] ring by metis
  then have "consumed evs i j = take (length r + 1) ((r @ b # rest) @ cs)"
    using j(2) by simp
  then have "consumed evs i j = r @ [b]" by simp
  from consumed_snoc [OF j(1) this] obtain k where k: "i \<le> k" "evs k = Consumes b" "consumed evs i k = r" by blast
  with line_grows [OF run inv line k(1)] r assms(7) show ?thesis by auto
qed

lemma waiting_line_sent:
  assumes run: "fair_run e st evs" and inv: "sys_inv e (st i)" and works: "tx_works e"
    and line: "line_text (snd (st i)) = l" and ring: "ring_of (st i) = r @ b # rest"
    and b: "b \<in> {0x0D, 0x0A}" and r: "\<forall>c \<in> set r. c \<notin> {0x0D, 0x0A}"
    and t: "l @ r = t" "t \<noteq> []" "length t \<le> 127" "\<not> is_command t"
  shows "\<exists>k \<ge> i. evs k = Consumes b \<and>
    frames_sent (hist (snd (st (Suc k)))) = frames_sent (hist (snd (st k))) @
      [text_frame e (hw_key (aes_st (snd (st k)))) (own_header MESH_BROADCAST_ID (snd (st k))) t] \<and>
    shown (snd (st (Suc k))) = shown (snd (st k)) @ bytes_of ''Sent.'' @ crlf"
proof -
  from line_completed [OF run inv line ring b r] t obtain k where
    k: "i \<le> k" "evs k = Consumes b" "line_text (snd (st k)) = t" by auto
  have "node_step e True (abs_state (st k)) (Consumes b) (abs_state (st (Suc k)))"
    using fair_run_node [OF run inv k(1)] works k(2) by simp
  then show ?thesis
  proof cases
    case (consumes n bs n')
    have n: "n = abs_node (snd (st k))" "n' = abs_node (snd (st (Suc k)))"
      using consumes(1,2) by (simp_all add: abs_state_def)
    from consumes(4) show ?thesis
    proof cases
      case (enter n1)
      have "n_line (n\<lparr>n_input := bs\<rparr>) = t" using k(3) n(1) by simp
      with enter(4) have "node_line e True t (n\<lparr>n_input := bs\<rparr>) n1" by (simp only:)
      note sent = line_text_send [OF this t(4,3)]
      have "n_aired (abs_node (snd (st (Suc k)))) = n_aired n1" "n_shown (abs_node (snd (st (Suc k)))) = n_shown n1"
        using enter(1) by (simp_all only: n(2)) simp_all
      with sent k(1,2) show ?thesis
        by (intro exI [of _ k]) (simp add: n(1) node_header_def own_header_def)
    qed (use b k(3) n t(2) in simp_all)
  qed
qed


section \<open>A packet that was polled is handled\<close>

lemma isr_keeps [simp]:
  "lora_rx_buf (isr i w) = lora_rx_buf w" "last_rssi (drv (isr i w)) = last_rssi (drv w)"
  "last_snr (drv (isr i w)) = last_snr (drv w)"
  by (cases i; simp add: HAL_SUBGHZ_RxCpltCallback_def HAL_SUBGHZ_TxCpltCallback_def HAL_SUBGHZ_RxTxTimeoutCallback_def)+

text \<open>The node is about to handle \<open>f\<close>, received with signal \<open>g\<close>.\<close>

definition handling :: "u8 list \<Rightarrow> u16 \<times> u8 \<Rightarrow> nat phase \<times> world \<Rightarrow> bool" where
  "handling f g s \<longleftrightarrow> (\<exists>n w. s = (Handling n, w) \<and> f = take n (lora_rx_buf w) \<and> g = (last_rssi (drv w), last_snr (drv w)))"

lemma polls_handling:
  assumes "loop_step e s (Polls f g) s'"
  shows "handling f g s'"
  using assms
proof cases
  case work
  then show ?thesis by cases (simp add: handling_def)
qed simp

lemma interrupt_handling:
  assumes "loop_step e s ev s'" and "\<not> loop_work e s ev s'" and "handling f g s"
  shows "handling f g s'"
  using assms by (auto elim!: loop_step.cases simp: handling_def)

lemma polled_packet_handled:
  assumes run: "fair_run e st evs" and inv: "sys_inv e (st i)" and poll: "evs i = Polls f g"
  shows "\<exists>k > i. handling f g (st k) \<and> fst (st (Suc k)) = Top \<and>
    node_packet e (tx_works e) f (abs_node (snd (st k))) (abs_node (snd (st (Suc k))))"
proof -
  have step: "loop_step e (st j) (evs j) (st (Suc j))" for j using run by (simp add: fair_run_def)
  let ?works = "\<lambda>k. Suc i \<le> k \<and> loop_work e (st k) (evs k) (st (Suc k))"
  have "\<exists>k. ?works k" using run by (simp add: fair_run_def)
  then obtain k where k: "?works k" "\<forall>l < k. \<not> ?works l"
    unfolding exists_least_iff [of ?works] by blast
  have "handling f g (st j)" if "Suc i \<le> j" "j \<le> k" for j
    using that
  proof (induction rule: dec_induct)
    case base
    show ?case using polls_handling step [of i] poll by simp
  next
    case (step j)
    then have "\<not> loop_work e (st j) (evs j) (st (Suc j))" using k(2) by simp
    from interrupt_handling [OF \<open>loop_step e (st j) (evs j) (st (Suc j))\<close> this] step show ?case by simp
  qed
  then have h: "handling f g (st k)" using k(1) by simp
  then obtain n w where w: "st k = (Handling n, w)" "f = take n (lora_rx_buf w)" by (auto simp: handling_def)
  have "sys_inv e (st k)" by (rule fair_run_sys [OF run inv]) (use k(1) in simp)
  then have inv': "world_inv e w" "online w" "cryp_ok e" "n \<le> 255"
    by (simp_all add: sys_inv_def loop_inv_def w(1))
  from k(1) obtain w' where w': "handle_packet e n w = Inr w'" "st (Suc k) = (Top, w')"
    by (auto simp: w(1) loop_work_simps)
  from packet_refines [OF w'(1) inv' w(2)] h k(1) show ?thesis
    by (intro exI [of _ k]) (simp add: w(1) w'(2))
qed

lemma text_shown:
  assumes "node_packet e works f n n'" and "addressed f n" and "frame_text e (n_key n) f = Some t" and "16 < length f"
  shows "n_shown n' = n_shown n @ report t (n_signal n)"
proof -
  have send: "n_shown m' = n_shown m" if "node_send e works to u m ok m'" for to u m ok m'
    using that by (auto elim!: node_send.cases simp: node_air_def node_register_def)
  have "n_shown n1 = n_shown n @ report t (n_signal n)" if "node_text e works f (node_register k n) n1" for k n1
    using that assms(2,3)
    by (auto elim!: node_text.cases dest!: send simp: addressed_def node_register_def node_print_def)
  with assms(1,4) show ?thesis
    by (auto elim!: node_packet.cases simp: node_air_def)
qed

lemma polled_text_shown:
  assumes run: "fair_run e st evs" and inv: "sys_inv e (st i)" and poll: "evs i = Polls f g"
    and f: "f = text_frame e key h t" "t \<noteq> []" "length t \<le> 127" "to_id h = MESH_BROADCAST_ID"
    and key: "\<And>j. i \<le> j \<Longrightarrow> hw_key (aes_st (snd (st j))) = key"
  shows "\<exists>k > i. shown (snd (st (Suc k))) = shown (snd (st k)) @ report t g"
proof -
  obtain k where k: "i < k" "handling f g (st k)"
    "node_packet e (tx_works e) f (abs_node (snd (st k))) (abs_node (snd (st (Suc k))))"
    using polled_packet_handled [OF run inv poll] by blast
  have "addressed f (abs_node (snd (st k)))" by (simp add: addressed_def f(1,4))
  moreover have "frame_text e (n_key (abs_node (snd (st k)))) f = Some t"
    using key [of k] k(1) frame_text_text_frame [OF f(2,3)] by (simp add: f(1))
  moreover have "16 < length f" by (simp add: f(1))
  ultimately have "shown (snd (st (Suc k))) = shown (snd (st k)) @ report t (n_signal (abs_node (snd (st k))))"
    using text_shown [OF k(3)] by simp
  moreover have "n_signal (abs_node (snd (st k))) = g" using k(2) by (auto simp: handling_def)
  ultimately show ?thesis using k(1) by metis
qed

text \<open>The key does not change while the node runs.\<close>

lemma fair_run_key:
  assumes "fair_run e st evs" and "sys_inv e (st i)" and "i \<le> j"
  shows "hw_key (aes_st (snd (st j))) = hw_key (aes_st (snd (st i)))"
  using assms(3)
proof (induction rule: dec_induct)
  case (step j)
  from node_step_key [OF fair_run_node [OF assms(1,2) step.hyps(1)]] step.IH show ?case by (simp add: abs_state_def)
qed simp

end
