(* ===== verification/Mesh_Liveness.thy ===== *)
theory Mesh_Liveness
  imports Mesh_Runs Node_Liveness
begin

text \<open>
  From terminal to terminal: in an infinite run of a network whose processors all go on and whose channel
  to a node loses nothing, a text that is typed on one node is in the end printed by the other.
\<close>

section \<open>Infinite runs of a network\<close>

text \<open>The states and events of an infinite run, in which every node's main loop goes on.\<close>

definition fair_mesh :: "(nat \<Rightarrow> hal_env) \<Rightarrow> (nat \<Rightarrow> nat list) \<Rightarrow> (nat \<Rightarrow> mesh) \<Rightarrow> (nat \<Rightarrow> mesh_event) \<Rightarrow> bool" where
  "fair_mesh envs hears ms evs \<longleftrightarrow> (\<forall>i. mesh_step envs hears (ms i) (evs i) (ms (Suc i))) \<and>
     (\<forall>a < length (fst (ms 0)). \<forall>i. \<exists>j \<ge> i. \<exists>ev. evs j = At a ev \<and>
        loop_work (envs a) (fst (ms j) ! a) ev (fst (ms (Suc j)) ! a))"

text \<open>The run as one node takes part in it: while others step, it pauses.\<close>

definition node_states :: "nat \<Rightarrow> (nat \<Rightarrow> mesh) \<Rightarrow> nat \<Rightarrow> nat phase \<times> world" where
  "node_states a ms k = fst (ms k) ! a"

definition node_events :: "nat \<Rightarrow> (nat \<Rightarrow> mesh_event) \<Rightarrow> nat \<Rightarrow> loop_event" where
  "node_events a evs k = (case evs k of At b ev \<Rightarrow> if b = a then ev else Silent | Lost _ _ \<Rightarrow> Silent)"

text \<open>
  Every frame whose transmission is completed by a node in reach of node \<open>b\<close> is received there at some
  later time. Nothing is promised of a frame that is cut off.
\<close>

definition new_done :: "hal_env \<Rightarrow> world \<Rightarrow> world \<Rightarrow> u8 list list" where
  "new_done e w w' = drop (length (frames_done e (hist w))) (frames_done e (hist w'))"

definition delivers :: "(nat \<Rightarrow> hal_env) \<Rightarrow> (nat \<Rightarrow> nat list) \<Rightarrow> nat \<Rightarrow> (nat \<Rightarrow> mesh) \<Rightarrow> (nat \<Rightarrow> mesh_event) \<Rightarrow> bool" where
  "delivers envs hears b ms evs \<longleftrightarrow>
     (\<forall>k a f. a < length (fst (ms k)) \<and> b \<in> set (hears a) \<and>
        f \<in> set (new_done (envs a) (snd (node_states a ms k)) (snd (node_states a ms (Suc k)))) \<longrightarrow>
        (\<exists>j > k. \<exists>g. evs j = At b (Polls f g)))"

lemma pause: "loop_step e s Silent s"
  using loop_step.interrupt [of e "fst s" "snd s" Timeout_Irq] by (simp add: HAL_SUBGHZ_RxTxTimeoutCallback_def)

lemma mesh_step_length: "mesh_step envs hears s ev s' \<Longrightarrow> length (fst s') = length (fst s)"
  by (auto elim: mesh_step.cases)

lemma fair_mesh_length:
  assumes "fair_mesh envs hears ms evs"
  shows "length (fst (ms k)) = length (fst (ms 0))"
proof (induction k)
  case (Suc k)
  have "mesh_step envs hears (ms k) (evs k) (ms (Suc k))" using assms by (simp add: fair_mesh_def)
  from mesh_step_length [OF this] Suc show ?case by simp
qed simp

lemma node_view_step:
  assumes "mesh_step envs hears (ms k) (evs k) (ms (Suc k))" and "a < length (fst (ms k))"
  shows "loop_step (envs a) (node_states a ms k) (node_events a evs k) (node_states a ms (Suc k))"
  using assms(1)
proof cases
  case (receives i ss f g s' q)
  with assms(2) pause show ?thesis by (cases "i = a") (auto simp: node_states_def node_events_def)
next
  case (proceeds i ss ev s' q)
  with assms(2) pause show ?thesis by (cases "i = a") (auto simp: node_states_def node_events_def)
next
  case (loses ss i f q)
  with pause show ?thesis by (auto simp: node_states_def node_events_def)
qed

lemma node_view_fair:
  assumes "fair_mesh envs hears ms evs" and "a < length (fst (ms 0))"
  shows "fair_run (envs a) (node_states a ms) (node_events a evs)"
  unfolding fair_run_def
proof (intro conjI allI)
  fix i
  show "loop_step (envs a) (node_states a ms i) (node_events a evs i) (node_states a ms (Suc i))"
    using assms fair_mesh_length [OF assms(1), of i] by (intro node_view_step [where hears = hears]) (simp_all add: fair_mesh_def)
  obtain j ev where "j \<ge> i" "evs j = At a ev" "loop_work (envs a) (fst (ms j) ! a) ev (fst (ms (Suc j)) ! a)"
    using assms unfolding fair_mesh_def by blast
  then show "\<exists>j \<ge> i. loop_work (envs a) (node_states a ms j) (node_events a evs j) (node_states a ms (Suc j))"
    by (intro exI [of _ j]) (simp add: node_states_def node_events_def)
qed

text \<open>What a node transmits is on its way to every node in reach.\<close>

lemma aired_on_way:
  assumes "mesh_step envs hears (ms k) (evs k) (ms (Suc k))" and "a < length (fst (ms k))"
    and "loop_inv (envs a) (node_states a ms k)" and "b \<in> set (hears a)"
    and new: "f \<in> set (new_frames (snd (node_states a ms k)) (snd (node_states a ms (Suc k))))"
  shows "(b, f) \<in># snd (ms (Suc k))"
  using assms(1)
proof cases
  case (receives i ss g x s' q)
  have "new_frames (snd (node_states a ms k)) (snd (node_states a ms (Suc k))) = []"
  proof (cases "i = a")
    case True
    then show ?thesis
      using polls_no_frames [OF receives(5)] assms(2,3) receives(1,3) by (simp add: node_states_def new_frames_def)
  qed (use receives(1,3) in \<open>simp add: node_states_def new_frames_def\<close>)
  with new show ?thesis by simp
next
  case (proceeds i ss ev' s' q)
  show ?thesis
  proof (cases "i = a")
    case True
    with assms(2,4) new proceeds(1,3) show ?thesis by (simp add: node_states_def fan_out_def)
  qed (use new proceeds(1,3) in \<open>simp add: node_states_def new_frames_def\<close>)
next
  case loses
  then show ?thesis using new by (simp add: node_states_def new_frames_def)
qed

text \<open>So a network that loses nothing delivers what is completed.\<close>

lemma completed_sent:
  assumes "air_ok e (hist w) (hist w')"
  shows "set (new_done e w w') \<subseteq> set (new_frames w w')"
  using assms by (auto simp: air_ok_def new_done_def new_frames_def)

section \<open>From terminal to terminal\<close>

lemma mesh_text_shown:
  fixes c :: hal_env
  assumes run: "fair_mesh envs hears ms evs" and ok: "mesh_ok c key envs (ms 0)" and del: "delivers envs hears b ms evs"
    and nodes: "a < length (fst (ms 0))" "b < length (fst (ms 0))" "b \<in> set (hears a)" and works: "tx_works (envs a)"
    and edit: "line_text (snd (node_states a ms i)) = l" "ring_of (node_states a ms i) = r @ x # rest"
    and x: "x \<in> {0x0D, 0x0A}" and r: "\<forall>d \<in> set r. d \<notin> {0x0D, 0x0A}"
    and t: "l @ r = t" "t \<noteq> []" "length t \<le> 127" "\<not> is_command t"
  shows "\<exists>k \<ge> i. \<exists>g. shown (snd (node_states b ms (Suc k))) = shown (snd (node_states b ms k)) @ report t g"
proof -
  have node: "fair_run (envs d) (node_states d ms) (node_events d evs)" "sys_inv (envs d) (node_states d ms 0)"
    "env_ecb (envs d) = env_ecb c" "hw_key (aes_st (snd (node_states d ms 0))) = key" if "d < length (fst (ms 0))" for d
    using node_view_fair [OF run that] ok that by (simp_all add: mesh_ok_def node_states_def)
  note A = node [OF nodes(1)] and B = node [OF nodes(2)]
  have inv: "sys_inv (envs a) (node_states a ms i)" by (rule fair_run_sys [OF A(1,2)]) simp
  obtain k where k: "i \<le> k" "node_events a evs k = Consumes x"
    "frames_sent (hist (snd (node_states a ms (Suc k)))) = frames_sent (hist (snd (node_states a ms k))) @
      [text_frame (envs a) (hw_key (aes_st (snd (node_states a ms k)))) (own_header MESH_BROADCAST_ID (snd (node_states a ms k))) t]"
    using waiting_line_sent [OF A(1) inv works edit x r t] by blast
  let ?h = "own_header MESH_BROADCAST_ID (snd (node_states a ms k))"
  let ?f = "text_frame (envs b) key ?h t"
  have "hw_key (aes_st (snd (node_states a ms k))) = key" using fair_run_key [OF A(1,2)] A(4) by simp
  then have sent: "frames_sent (hist (snd (node_states a ms (Suc k)))) = frames_sent (hist (snd (node_states a ms k))) @ [?f]"
    using k(3) ctr_text_cong(1) [OF A(3)] ctr_text_cong(1) [OF B(3)] by simp
  have "sys_inv (envs a) (node_states a ms k)" by (rule fair_run_sys [OF A(1,2)]) simp
  then have inva: "loop_inv (envs a) (node_states a ms k)" by (simp add: sys_inv_def)
  have "loop_step (envs a) (node_states a ms k) (node_events a evs k) (node_states a ms (Suc k))"
    using A(1) by (simp add: fair_run_def)
  from air_ok_done [OF loop_step_air_ok [OF this inva] works sent]
  have "?f \<in> set (new_done (envs a) (snd (node_states a ms k)) (snd (node_states a ms (Suc k))))"
    by (simp add: new_done_def)
  moreover have "a < length (fst (ms k))" using nodes(1) fair_mesh_length [OF run, of k] by simp
  ultimately obtain j g where j: "k < j" "evs j = At b (Polls ?f g)"
    using del nodes(3) unfolding delivers_def by blast
  then have poll: "node_events b evs j = Polls ?f g" by (simp add: node_events_def)
  have invb: "sys_inv (envs b) (node_states b ms j)" by (rule fair_run_sys [OF B(1,2)]) simp
  have keyb: "hw_key (aes_st (snd (node_states b ms m))) = key" for m using fair_run_key [OF B(1,2)] B(4) by simp
  obtain m where "j < m" "shown (snd (node_states b ms (Suc m))) = shown (snd (node_states b ms m)) @ report t g"
    using polled_text_shown [OF B(1) invb poll refl t(2,3) _ keyb] by (auto simp: own_header_def)
  with j(1) k(1) show ?thesis by (intro exI [of _ m] conjI exI [of _ g]) simp_all
qed


section \<open>A run\<close>

text \<open>A frame leaves the air when it is received, or lost.\<close>

lemma frame_leaves:
  assumes "\<And>k. i \<le> k \<Longrightarrow> k < j \<Longrightarrow> mesh_step envs hears (ms k) (evs k) (ms (Suc k))"
    and "\<And>k h. i \<le> k \<Longrightarrow> k < j \<Longrightarrow> evs k \<noteq> Lost b h" and "i \<le> j"
    and "(b, f) \<in># snd (ms i)" and "(b, f) \<notin># snd (ms j)"
  shows "\<exists>k \<ge> i. \<exists>g. evs k = At b (Polls f g)"
  using assms(3,1,2,4,5)
proof (induction rule: inc_induct)
  case (step k)
  have "mesh_step envs hears (ms k) (evs k) (ms (Suc k))" by (rule step.prems(1)) (use step.hyps in simp_all)
  then show ?case
  proof cases
    case (receives a ss h g s' q)
    show ?thesis
    proof (cases "(a, h) = (b, f)")
      case True
      with receives(2) show ?thesis by blast
    next
      case False
      then have "(b, f) \<in># snd (ms (Suc k))" using step.prems(3) receives(1,3) by auto
      then have "\<exists>l \<ge> Suc k. \<exists>g. evs l = At b (Polls f g)"
        using step.prems(1,2,4) by (intro step.IH) simp_all
      then show ?thesis using Suc_leD by blast
    qed
  next
    case (proceeds a ss ev s' q)
    then have "(b, f) \<in># snd (ms (Suc k))" using step.prems(3) by simp
    then have "\<exists>l \<ge> Suc k. \<exists>g. evs l = At b (Polls f g)"
      using step.prems(1,2,4) by (intro step.IH) simp_all
    then show ?thesis using Suc_leD by blast
  next
    case (loses ss a h q)
    then have "a \<noteq> b" using step.prems(2) step.hyps by fastforce
    then have "(b, f) \<in># snd (ms (Suc k))" using step.prems(3) loses(1,3) by auto
    then have "\<exists>l \<ge> Suc k. \<exists>g. evs l = At b (Polls f g)"
      using step.prems(1,2,4) by (intro step.IH) simp_all
    then show ?thesis using Suc_leD by blast
  qed
qed simp

text \<open>A node with nothing to do.\<close>

definition quiet :: "hal_env \<Rightarrow> nat phase \<times> world \<Rightarrow> bool" where
  "quiet e s \<longleftrightarrow> no_packet e s \<and> ring_of s = []"

lemma quiet_step:
  assumes "loop_work e s ev s'" and "quiet e s"
  shows "quiet e s' \<and> frames_sent (hist (snd s')) = frames_sent (hist (snd s)) \<and> (\<forall>f g. ev = Polls f g \<longrightarrow> f = [])"
proof -
  have np: "no_packet e s" "loop_inv e s" using assms(2) by (simp_all add: quiet_def no_packet_def)
  have ring: "ring_of s' = []" "\<forall>b. ev \<noteq> Consumes b"
    using work_ring [OF assms(1) np(2)] assms(2) by (auto simp: quiet_def split: loop_event.splits)
  have phy: "phy (snd s) = Some (stm32wl_ops e)" using np(2) by (simp add: loop_inv_def world_inv_def)
  from assms(1) have "frames_sent (hist (snd s')) = frames_sent (hist (snd s)) \<and> (\<forall>f g. ev = Polls f g \<longrightarrow> f = [])"
  proof cases
    case (begins w led' h)
    then show ?thesis by (auto simp: led_tick_def Let_def frames_sent_issue split: if_splits)
  next
    case (polls w n w')
    have "radio_poll w = (0, w)"
      using np(1) phy by (simp add: polls(1) no_packet_def radio_poll_def stm32wl_radio_rx_poll_def)
    with polls show ?thesis by simp
  next
    case (handles n w w')
    have "n = 0" using np(1) by (simp add: handles(1) no_packet_def)
    with handles show ?thesis by (simp add: handle_packet_def)
  qed (use ring(2) in auto)
  with ring(1) no_packet_step [OF assms(1) np(1)] show ?thesis by (simp add: quiet_def)
qed

lemma quiet_works:
  assumes "clock_runs e t k" and "quiet e s"
  shows "\<exists>ev s'. loop_work e s ev s'"
proof -
  have "\<not> decode_fault e 0 w f" for w f by (simp add: decode_fault_def)
  then have "\<not> (\<exists>n w f. s = (Handling n, w) \<and> decode_fault e n w f)"
    using assms(2) by (auto simp: quiet_def no_packet_def)
  then show ?thesis
    using loop_proceeds [OF assms(1), of s] assms(2) unfolding quiet_def no_packet_def by blast
qed

text \<open>Quiet nodes take turns for ever, and nothing is on the air.\<close>

lemma quiet_mesh_run:
  assumes "\<And>i. i < length ss \<Longrightarrow> quiet (envs i) (ss ! i) \<and> clock_runs (envs i) t k" and "ss \<noteq> []"
  obtains ms evs where "ms 0 = (ss, {#})" "\<And>i. snd (ms i) = {#}" "fair_mesh envs hears ms evs"
    "\<And>i b f. evs i \<noteq> Lost b f"
proof -
  let ?N = "length ss"
  let ?P = "\<lambda>n m. length (fst m) = ?N \<and> snd m = {#} \<and> (\<forall>i < ?N. quiet (envs i) (fst m ! i)) \<and> (n = 0 \<longrightarrow> m = (ss, {#}))"
  let ?Q = "\<lambda>n m m'. \<exists>ev. mesh_step envs hears m (At (n mod ?N) ev) m' \<and>
    loop_work (envs (n mod ?N)) (fst m ! (n mod ?N)) ev (fst m' ! (n mod ?N))"
  have "\<exists>m'. ?P (Suc n) m' \<and> ?Q n m m'" if P: "?P n m" for n m
  proof -
    let ?i = "n mod ?N"
    obtain rs where m: "m = (rs, {#})" using P by (cases m) simp
    have i: "?i < ?N" using assms(2) by simp
    then have q: "quiet (envs ?i) (rs ! ?i)" "?i < length rs" using P m by simp_all
    obtain ev s' where w: "loop_work (envs ?i) (rs ! ?i) ev s'"
      using quiet_works [OF _ q(1)] assms(1) i by blast
    note st = quiet_step [OF w q(1)]
    have "mesh_step envs hears (rs, {#}) (At ?i ev) (rs[?i := s'], {#} + fan_out (hears ?i) (new_frames (snd (rs ! ?i)) (snd s')))"
      by (rule mesh_step.proceeds) (use q(2) st w in \<open>auto intro: loop_step.work\<close>)
    then have step: "mesh_step envs hears m (At ?i ev) (rs[?i := s'], {#})" using st by (simp add: m new_frames_def)
    have "?P (Suc n) (rs[?i := s'], {#})" using P st q(2) by (auto simp: m nth_list_update)
    with step w q(2) show ?thesis by (intro exI [of _ "(rs[?i := s'], {#})"]) (auto simp: m)
  qed
  then have "\<exists>ms. \<forall>n. ?P n (ms n) \<and> ?Q n (ms n) (ms (Suc n))"
    using assms(1) by (intro dependent_nat_choice) auto
  then obtain ms where ms: "\<forall>n. ?P n (ms n)" "\<forall>n. ?Q n (ms n) (ms (Suc n))" by blast
  from choice [OF ms(2)] obtain ev where ev: "\<forall>n. mesh_step envs hears (ms n) (At (n mod ?N) (ev n)) (ms (Suc n)) \<and>
    loop_work (envs (n mod ?N)) (fst (ms n) ! (n mod ?N)) (ev n) (fst (ms (Suc n)) ! (n mod ?N))" by blast
  have turn: "\<exists>j \<ge> i. j mod ?N = a" if "a < ?N" for a i
    using that by (intro exI [of _ "i * ?N + a"]) (simp add: trans_le_add1)
  have "fair_mesh envs hears ms (\<lambda>n. At (n mod ?N) (ev n))"
    unfolding fair_mesh_def
  proof (intro conjI allI impI)
    fix a i assume "a < length (fst (ms 0))"
    then have "a < ?N" using ms(1) by metis
    then obtain j where "i \<le> j" "j mod ?N = a" using turn by blast
    with ev show "\<exists>j \<ge> i. \<exists>e. At (j mod ?N) (ev j) = At a e \<and> loop_work (envs a) (fst (ms j) ! a) e (fst (ms (Suc j)) ! a)"
      by metis
  qed (use ev in blast)
  with that ms(1) show ?thesis by blast
qed


text \<open>A finite run before an infinite one.\<close>

lemma prefix_run:
  assumes "trace (mesh_step envs hears) s es s'" and "fair_mesh envs hears ms evs" and "ms 0 = s'"
  obtains ms' evs' where "ms' 0 = s" "fair_mesh envs hears ms' evs'" "\<And>i. ms' (length es + i) = ms i"
    "\<And>i. i < length es \<Longrightarrow> evs' i = es ! i" "\<And>i. evs' (length es + i) = evs i"
proof -
  let ?n = "length es"
  obtain st where st: "st 0 = s" "st ?n = s'" "\<forall>i < ?n. mesh_step envs hears (st i) (es ! i) (st (Suc i))"
    using trace_states [OF assms(1)] by blast
  define ms' where "ms' = (\<lambda>i. if i < ?n then st i else ms (i - ?n))"
  define evs' where "evs' = (\<lambda>i. if i < ?n then es ! i else evs (i - ?n))"
  have later: "ms' (?n + i) = ms i" "evs' (?n + i) = evs i" for i by (simp_all add: ms'_def evs'_def)
  have first: "ms' i = st i" if "i \<le> ?n" for i
    using that st(2) assms(3) by (cases "i = ?n") (simp_all add: ms'_def)
  have z: "ms' 0 = s" using first [of 0] st(1) by simp
  have "length (fst s') = length (fst s)"
    by (rule trace_invariant [OF assms(1)]) (auto dest: mesh_step_length)
  then have len: "length (fst s) = length (fst (ms 0))" by (simp add: assms(3))
  have step: "mesh_step envs hears (ms' i) (evs' i) (ms' (Suc i))" for i
  proof (cases "i < ?n")
    case True
    then have "mesh_step envs hears (st i) (es ! i) (st (Suc i))" using st(3) by blast
    with True first [of i] first [of "Suc i"] show ?thesis by (simp add: evs'_def)
  next
    case False
    then obtain j where j: "i = ?n + j" using le_Suc_ex not_less by blast
    have "mesh_step envs hears (ms j) (evs j) (ms (Suc j))" using assms(2) by (simp add: fair_mesh_def)
    with later [of j] later(1) [of "Suc j"] show ?thesis by (simp add: j)
  qed
  have "fair_mesh envs hears ms' evs'"
    unfolding fair_mesh_def
  proof (intro conjI allI impI step)
    fix a i assume "a < length (fst (ms' 0))"
    then have "a < length (fst (ms 0))" by (simp only: z len)
    then obtain j ev where j: "i \<le> j" "evs j = At a ev" "loop_work (envs a) (fst (ms j) ! a) ev (fst (ms (Suc j)) ! a)"
      using assms(2) unfolding fair_mesh_def by blast
    then show "\<exists>j \<ge> i. \<exists>ev. evs' j = At a ev \<and> loop_work (envs a) (fst (ms' j) ! a) ev (fst (ms' (Suc j)) ! a)"
      using later [of j] later(1) [of "Suc j"] by (intro exI [of _ "?n + j"] conjI exI [of _ ev]) simp_all
  qed
  from that [OF z this later(1) _ later(2)] show ?thesis by (simp add: evs'_def)
qed

lemma prefix_events:
  assumes "\<And>i. i < length es \<Longrightarrow> evs' i = es ! i" and "\<And>i. evs' (length es + i) = evs i"
    and "\<forall>ev \<in> set es. P ev" and "\<And>i. P (evs i)"
  shows "P (evs' i)"
proof (cases "i < length es")
  case True
  with assms(1,3) show ?thesis by simp
next
  case False
  then obtain j where "i = length es + j" using le_Suc_ex not_less by blast
  with assms(2,4) show ?thesis by simp
qed

lemma work_trace_ring:
  "trace (loop_work e) s es s' \<Longrightarrow> no_packet e s \<Longrightarrow> no_packet e s' \<and>
     ring_of s = concat (map (\<lambda>ev. case ev of Consumes b \<Rightarrow> [b] | _ \<Rightarrow> []) es) @ ring_of s'"
proof (induction rule: trace.induct)
  case (more s es s' ev s'')
  then have np: "no_packet e s'" by simp
  then have "loop_inv e s'" by (simp add: no_packet_def)
  with work_ring [OF more.hyps(2)] no_packet_step [OF more.hyps(2) np] more show ?case
    by (auto split: loop_event.splits)
qed simp

lemma demo_rx_clock: "clock_runs (demo_rx_env f) length 4000"
  using demo_tx_clock by (simp add: clock_runs_def demo_rx_env_def)

lemma demo_fair_mesh:
  obtains wA wB f ms evs where
    "main_boot (demo_envs f 0) demo_flash (False, (\<lambda>_. 0), 8) world_reset = Inr wA"
    "main_boot (demo_envs f 1) demo_flash (False, (\<lambda>_. 0), 8) world_reset = Inr wB"
    "ms 0 = (map (Pair Top) [wA, wB], {#})" "fair_mesh (demo_envs f) demo_hears ms evs"
    "delivers (demo_envs f) demo_hears 1 ms evs" "fst (ms 3) ! 0 = (Top, demo_typed wA)"
proof -
  obtain wA w vB wB f g g' where r: "main_boot (demo_envs f 0) demo_flash (False, (\<lambda>_. 0), 8) world_reset = Inr wA"
    "main_boot (demo_envs f 1) demo_flash (False, (\<lambda>_. 0), 8) world_reset = Inr wB"
    "f = text_frame demo_tx_env (hw_key (aes_st wA)) (own_header MESH_BROADCAST_ID wA) [0x68, 0x69]"
    "trace (mesh_step (demo_envs f) demo_hears) ([(Top, wA), (Top, wB)], {#}) (map (At 0) (map Typed [0x68, 0x69, 0x0D]))
       ([(Top, demo_typed wA), (Top, wB)], {#})"
    "trace (mesh_step (demo_envs f) demo_hears) ([(Top, demo_typed wA), (Top, wB)], {#})
       (map (At 0) [Silent, Consumes 0x68, Consumes 0x69, Consumes 0x0D, Silent, Polls [] g', Silent] @
        map (At 1) [Silent, Silent, Silent, Polls f g]) ([(Top, w), (Handling (length f), vB)], {#})"
    "trace (loop_work demo_tx_env) (Top, demo_typed wA) [Silent, Consumes 0x68, Consumes 0x69, Consumes 0x0D, Silent,
       Polls [] g', Silent] (Top, w)"
    "\<not> rx_pending (drv vB)" "take (length f) (lora_rx_buf vB) = f" "aes_st vB = aes_st wB" "serial_st vB = serial_st wB"
    "sys_inv (demo_rx_env f) (Handling (length f), vB)"
    by (rule demo_mesh_run)
  have e: "demo_envs f 0 = demo_tx_env" "demo_envs f 1 = demo_rx_env f" by (simp_all add: demo_envs_def)
  note A = r(1) [unfolded e] and B = r(2) [unfolded e]
  note st = demo_typed_state [OF main_boot_result(1) [OF A] main_boot_idle(2,3) [OF A]]
  have "no_packet demo_tx_env (Top, demo_typed wA)"
    using st(1) main_boot_idle(6) [OF A] by (simp add: no_packet_def loop_inv_def st(5))
  from work_trace_ring [OF r(6) this] st(2) have qA: "quiet demo_tx_env (Top, w)"
    by (simp add: quiet_def ring_of_def)
  have vB: "world_inv (demo_rx_env f) vB" using r(11) by (simp add: sys_inv_def loop_inv_def)
  have "hw_key (aes_st vB) = hw_key (aes_st wA)"
    using r(9) main_boot_result(3) [OF A] main_boot_result(3) [OF B] by simp
  moreover have "text_frame (demo_rx_env f) = text_frame demo_tx_env" by (rule ctr_text_cong) simp
  ultimately have "take (20 + length [0x68 :: u8, 0x69]) (lora_rx_buf vB) =
      text_frame (demo_rx_env f) (hw_key (aes_st vB)) (own_header MESH_BROADCAST_ID wA) [0x68, 0x69]"
    using r(8) by (simp add: r(3))
  then obtain vB' where "handle_packet (demo_rx_env f) (20 + length [0x68 :: u8, 0x69]) vB = Inr vB'" "world_inv (demo_rx_env f) vB'"
    using receive_correct [OF vB demo_rx_env_simps(2,3), of "[0x68, 0x69]" "own_header MESH_BROADCAST_ID wA"]
    by (auto simp: own_header_def)
  moreover have "length f = 20 + length [0x68 :: u8, 0x69]" by (simp add: r(3))
  ultimately have hB: "handle_packet (demo_rx_env f) (length f) vB = Inr vB'" "world_inv (demo_rx_env f) vB'" by simp_all
  have phy: "phy vB = Some (stm32wl_ops (demo_rx_env f))" using vB by (simp add: world_inv_def)
  have qB: "quiet (demo_rx_env f) (Top, vB')"
    using hB(2) r(7,10) main_boot_idle(2) [OF B] handle_packet_drv [OF hB(1) phy] packet_unaware.keeps(1) [OF hB(1) phy]
    by (simp add: quiet_def no_packet_def loop_inv_def ring_of_def)
  let ?step = "mesh_step (demo_envs f) demo_hears"
  have "?step ([(Top, w), (Handling (length f), vB)], {#}) (At 1 Silent)
      ([(Top, w), (Handling (length f), vB)][1 := (Top, vB')], {#} + fan_out (demo_hears 1) (new_frames vB vB'))"
    using mesh_step.proceeds [of 1 "[(Top, w), (Handling (length f), vB)]" "demo_envs f" Silent "(Top, vB')" demo_hears "{#}"]
      loop_step.work [OF loop_work.handles [OF hB(1)]] e(2) by simp
  then have "?step ([(Top, w), (Handling (length f), vB)], {#}) (At 1 Silent) ([(Top, w), (Top, vB')], {#})"
    by (simp add: demo_hears_def fan_out_def)
  note t2 = trace.more [OF r(5) this]
  have qs: "quiet (demo_envs f i) ([(Top, w), (Top, vB')] ! i) \<and> clock_runs (demo_envs f i) length 4000"
    if "i < length [(Top, w), (Top, vB')]" for i
    using that qA qB demo_tx_clock demo_rx_clock by (cases i) (auto simp: demo_envs_def)
  obtain ms0 evs0 where m0: "ms0 0 = ([(Top, w), (Top, vB')], {#})" "\<And>i. snd (ms0 i) = {#}"
    "fair_mesh (demo_envs f) demo_hears ms0 evs0" "\<And>i b f. evs0 i \<noteq> Lost b f"
    by (rule quiet_mesh_run [OF qs, where hears = demo_hears]) (assumption, simp, rule that)
  let ?es2 = "(map (At 0) [Silent, Consumes 0x68, Consumes 0x69, Consumes 0x0D, Silent, Polls [] g', Silent] @
        map (At 1) [Silent, Silent, Silent, Polls f g]) @ [At 1 Silent]"
  obtain ms1 evs1 where m1: "ms1 0 = ([(Top, demo_typed wA), (Top, wB)], {#})" "fair_mesh (demo_envs f) demo_hears ms1 evs1"
    "\<And>i. ms1 (length ?es2 + i) = ms0 i" "\<And>i. i < length ?es2 \<Longrightarrow> evs1 i = ?es2 ! i" "\<And>i. evs1 (length ?es2 + i) = evs0 i"
    by (rule prefix_run [OF t2 m0(3,1)]) blast
  let ?es1 = "map (At 0) (map Typed [0x68, 0x69, 0x0D])"
  obtain ms evs where m: "ms 0 = ([(Top, wA), (Top, wB)], {#})" "fair_mesh (demo_envs f) demo_hears ms evs"
    "\<And>i. ms (length ?es1 + i) = ms1 i" "\<And>i. i < length ?es1 \<Longrightarrow> evs i = ?es1 ! i" "\<And>i. evs (length ?es1 + i) = evs1 i"
    by (rule prefix_run [OF r(4) m1(2,1)]) blast
  have "evs1 i \<noteq> Lost b h" for i b h
    by (rule prefix_events [OF m1(4,5)]) (use m0(4) in auto)
  then have lost: "evs i \<noteq> Lost b h" for i b h
    using prefix_events [OF m(4,5), of "\<lambda>ev. ev \<noteq> Lost b h"] by auto
  have boot: "loop_inv (demo_envs f a) (node_states a ms 0)" if "a < 2" for a
    using that main_boot_result(1) [OF r(1)] main_boot_result(1) [OF r(2)]
    by (cases a) (auto simp: node_states_def m(1) loop_inv_def less_Suc_eq numeral_2_eq_2)
  have steps: "loop_step (demo_envs f a) (node_states a ms i) (node_events a evs i) (node_states a ms (Suc i))"
    if "a < 2" for a i
    using node_view_fair [OF m(2), of a] that by (simp add: fair_run_def m(1))
  have inv: "loop_inv (demo_envs f a) (node_states a ms i)" if "a < 2" for a i
    using that by (induction i) (auto intro: boot loop_step_inv steps)
  have "delivers (demo_envs f) demo_hears 1 ms evs"
    unfolding delivers_def
  proof (intro allI impI, elim conjE)
    fix k a h
    assume a: "a < length (fst (ms k))" "1 \<in> set (demo_hears a)"
      and h: "h \<in> set (new_done (demo_envs f a) (snd (node_states a ms k)) (snd (node_states a ms (Suc k))))"
    have a2: "a < 2" using a(1) fair_mesh_length [OF m(2), of k] by (simp add: m(1))
    have "(1, h) \<in># snd (ms (Suc k))"
      by (rule aired_on_way [where envs = "demo_envs f" and hears = demo_hears and evs = evs, OF _ a(1) inv [OF a2] a(2)])
        (use m(2) h completed_sent [OF loop_step_air_ok [OF steps [OF a2, of k] inv [OF a2]]] in \<open>auto simp: fair_mesh_def\<close>)
    moreover have "snd (ms (length ?es1 + (length ?es2 + Suc k))) = {#}" by (simp only: m(3) m1(3) m0(2))
    ultimately have "\<exists>j \<ge> Suc k. \<exists>g. evs j = At 1 (Polls h g)"
      using m(2) lost by (intro frame_leaves [where envs = "demo_envs f" and hears = demo_hears and ms = ms
        and j = "length ?es1 + (length ?es2 + Suc k)"]) (simp_all add: fair_mesh_def)
    then show "\<exists>j > k. \<exists>g. evs j = At 1 (Polls h g)" by (meson Suc_le_lessD)
  qed
  moreover have "fst (ms 3) ! 0 = (Top, demo_typed wA)" using m(3) [of 0] m1(1) by (simp add: numeral_3_eq_3)
  moreover have "ms 0 = (map (Pair Top) [wA, wB], {#})" using m(1) by simp
  ultimately show ?thesis using that r(1,2) m(2) by blast
qed


text \<open>
  C4. A text gets through. Two of the nodes of a network, in reach of each other, start with the same
  channel key. If a line of at most 127 bytes that is no command waits at the first (any part of it may
  already be in the line buffer, and anything may follow it), its transmitter reports the end of each
  transmission when the frame's time on air, at most three seconds, is over (\<open>tx_works\<close>), every processor
  goes on and every frame to the second that a node in its reach puts on the air to the end is received there
  (\<open>delivers\<close>; nothing is assumed of a frame that the driver cuts off), then at some later time the second node prints the text with its
  signal values: whatever is typed anywhere, whichever packets arrive in between and whenever the
  interrupts come, on every infinite run of the network.
\<close>

theorem typed_text_is_shown_eventually:
  fixes c :: hal_env
  assumes "\<And>i. i < length ws \<Longrightarrow> main_boot (envs i) (hals i) (fls i) world_reset = Inr (ws ! i)"
    and "\<And>i. i < length ws \<Longrightarrow> cryp_ok (envs i) \<and> env_ecb (envs i) = env_ecb c \<and>
      bytes_to_be_words (channel_psk (stored_config (hals i) (fls i))) = key"
    and "ms 0 = (map (Pair Top) ws, q)" and "fair_mesh envs hears ms evs" and "delivers envs hears b ms evs"
    and "a < length ws" and "b < length ws" and "b \<in> set (hears a)" and "tx_works (envs a)"
    and "line_text (snd (fst (ms i) ! a)) = l" and "ring_contents (serial_st (snd (fst (ms i) ! a))) = r @ 0x0D # rest"
    and "\<forall>d \<in> set r. d \<noteq> 0x0D \<and> d \<noteq> 0x0A" and "l @ r \<noteq> []" and "length (l @ r) \<le> 127" and "\<not> is_command (l @ r)"
  shows "\<exists>k \<ge> i. \<exists>g. shown (snd (fst (ms (Suc k)) ! b)) = shown (snd (fst (ms k) ! b)) @ report (l @ r) g"
proof -
  have "mesh_ok c key envs (ms 0)" unfolding assms(3) by (rule boot_mesh(1) [OF assms(1,2)])
  from mesh_text_shown [OF assms(4) this assms(5) _ _ assms(8,9), of i l r "0x0D" rest] assms(3,6,7,10-15)
  show ?thesis by (simp add: node_states_def ring_of_def)
qed

theorem typed_text_is_shown_eventually_witness:
  "\<exists>f ms evs k g. fair_mesh (demo_envs f) demo_hears ms evs \<and> delivers (demo_envs f) demo_hears 1 ms evs \<and>
     shown (snd (fst (ms (Suc k)) ! 1)) = shown (snd (fst (ms k) ! 1)) @ report [0x68, 0x69] g"
proof -
  obtain wA wB f ms evs where r: "main_boot (demo_envs f 0) demo_flash (False, (\<lambda>_. 0), 8) world_reset = Inr wA"
    "main_boot (demo_envs f 1) demo_flash (False, (\<lambda>_. 0), 8) world_reset = Inr wB"
    "ms 0 = (map (Pair Top) [wA, wB], {#})" "fair_mesh (demo_envs f) demo_hears ms evs"
    "delivers (demo_envs f) demo_hears 1 ms evs" "fst (ms 3) ! 0 = (Top, demo_typed wA)"
    by (rule demo_fair_mesh)
  have A: "main_boot demo_tx_env demo_flash (False, (\<lambda>_. 0), 8) world_reset = Inr wA"
    using r(1) by (simp add: demo_envs_def)
  have st: "ring_contents (serial_st (snd (fst (ms 3) ! 0))) = [0x68, 0x69] @ 0x0D # []" "line_text (snd (fst (ms 3) ! 0)) = []"
    using demo_typed_state [OF main_boot_result(1) [OF A] main_boot_idle(2,3) [OF A]] by (simp_all add: r(6) line_text_def)
  let ?key = "bytes_to_be_words (channel_psk (stored_config demo_flash (False, (\<lambda>_. 0), 8)))"
  have b: "main_boot (demo_envs f i) demo_flash (False, (\<lambda>_. 0), 8) world_reset = Inr ([wA, wB] ! i)"
    if "i < length [wA, wB]" for i
    using that r(1,2) by (cases i) auto
  have "\<exists>k \<ge> 3. \<exists>g. shown (snd (fst (ms (Suc k)) ! 1)) = shown (snd (fst (ms k) ! 1)) @ report ([] @ [0x68, 0x69]) g"
    by (rule typed_text_is_shown_eventually [OF b _ r(3-5), where c = demo_tx_env and key = ?key and a = 0 and i = 3 and rest = "[]"])
      (use st demo_tx_works in \<open>simp_all add: demo_envs_def demo_hears_def is_command_def bytes_of_def\<close>)
  then obtain k g where "shown (snd (fst (ms (Suc k)) ! 1)) = shown (snd (fst (ms k) ! 1)) @ report [0x68, 0x69] g" by auto
  with r(4,5) show ?thesis by blast
qed

end
