(* ===== verification/Spec2Isabelle.thy ===== *)
theory Spec2Isabelle
  imports Serial_Framing Build_Config Uart_Isr Preemption Radio_Buffer Relay_Window Mesh_Liveness
begin

text \<open>
  Meshtastic_mini, a LoRa mesh node for the STM32WLE5, modelled from \<open>firmware/\<close>.

  \<^bold>\<open>The program.\<close> \<open>main\<close> (\<open>Core/main.c\<close>) sets up the clock and the terminal UART, registers the radio
  driver, initialises the node and calls \<open>mesh_mini_loop\<close> for ever. An iteration blinks the LED, takes
  the bytes the UART interrupt left in a ring and edits a line (commands, or a text that is encoded,
  encrypted and broadcast), polls the radio, and handles a received packet: the seen-packet ring decides
  whether it is relayed; a packet for this node is decrypted, decoded, printed and answered.

  \<^bold>\<open>Theories, in import order, and what they model.\<close>
  \<^item> \<open>Prelude\<close>: byte and word types, pointers as options, memory copies, little- and big-endian words,
    and \<open>'a run\<close>, a result or a way not to return (\<open>Hang\<close>, \<open>Shift_UB\<close>).
  \<^item> \<open>Hal\<close>: the boundary with ST's HAL. Every HAL call of the code is recorded, with its arguments, in a
    history; the answers are functions of history and call, in the record \<open>hal_env\<close>. The compile-time
    options that select code (PA, TCXO, RF switch) are fields of it.
  \<^item> \<open>Mesh_Packet\<close>, \<open>Flood_Router\<close> (\<open>Mesh/\<close>): header and seen-packet ring. The ring is an interpretation of
    the locale \<open>dedup_window\<close>, a window of the last 32 keys.
  \<^item> \<open>Serial_IO\<close> (\<open>Core/serial_io.c\<close>, USART1 handler of \<open>Core/stm32wlxx_it.c\<close>): the receive ring, an
    interpretation of the locale \<open>byte_queue\<close> (a FIFO of capacity 255), and the transmit functions.
  \<^item> \<open>Serial_Framing\<close> (\<open>Serial/\<close>): the framing protocol's sender and receiver.
  \<^item> \<open>Pb_Data\<close> (\<open>pb_encode_data\<close>, \<open>pb_decode_data\<close> of \<open>Core/main_loop.c\<close>).
  \<^item> \<open>Aes_Meshtastic\<close> (\<open>Crypto/\<close>): counter mode over the hardware's block cipher.
  \<^item> \<open>Board_Io\<close> (\<open>Radio/rf_ctrl.c\<close>, \<open>Core/led.c\<close>), \<open>Radio_Phy\<close> (\<open>Radio/radio_phy.c\<close>, with the locale
    \<open>radio_driver\<close>), \<open>Lora_Meshtastic\<close> (\<open>Radio/lora_meshtastic.c\<close>), \<open>Radio_Stm32wl\<close>
    (\<open>Radio/radio_stm32wl.c\<close>).
  \<^item> \<open>Radio_Facts\<close>: functions of the history (radio mode, interrupt enable, frames on the air, last command)
    and what the driver does to them; the interpretation of \<open>radio_driver\<close> on the driver.
    \<open>Air_Done\<close>: the transmissions that were completed, those for which the driver read TX_DONE before it took
    the radio out of transmission (\<open>frames_done\<close>), against those that were started (\<open>frames_sent\<close>).
    \<open>Radio_Buffer\<close>: the data buffer that frames and received packets share.
  \<^item> \<open>Config_Store\<close> (\<open>Config/\<close>): over flash operations that are a parameter with the law \<open>flash_ok\<close>.
  \<^item> \<open>Main_Loop\<close> (rest of \<open>Core/main_loop.c\<close>): one record \<open>world\<close> of all static variables and the history,
    one definition per function, \<open>uart_rx_line_poll\<close> and \<open>mesh_mini_loop\<close> split along their branches.
    \<open>Main_Facts\<close>: its invariant, sending and the terminal. \<open>Packet_Facts\<close>: printing, answering and relaying a
    packet, and what this puts on the air. \<open>Receive_Facts\<close>: receiving, relaying, and when
    an iteration does not return.
  \<^item> \<open>Boot\<close> (\<open>Core/main.c\<close>, \<open>Core/system_clock_ll.c\<close>, \<open>Core/syscalls_stub.c\<close>): start-up.
    \<open>Boot_Facts\<close>: what start-up leaves.
  \<^item> \<open>Interrupts\<close>: the UART's interrupt and the radio's callbacks. Processing a byte and handling a packet
    neither look at what they change nor change it (locale \<open>unaware\<close>).
  \<^item> \<open>Loop_Phases\<close>: the endless loop of \<open>main\<close> in small steps, with the interrupts between any two, as a
    labelled step relation; an uninterrupted pass is \<open>mesh_mini_loop\<close>; the invariant of all reachable states.
    \<open>Preemption\<close>: the operations of \<open>Core/main_loop.c\<close> once more, with interrupts at any point between two
    statements, and why these runs are runs of the same steps.
  \<^item> \<open>Fair_Runs\<close>: infinite runs in which the loop goes on: what is typed is consumed, the radio is polled.
  \<^item> \<open>Traces\<close>: traces of step relations and the locale \<open>simulation\<close>, with two interpretations: \<open>Uart_Isr\<close>,
    the accesses of \<open>serial_get_byte\<close> to the ring, interrupted at any point, against a FIFO, and
    \<open>Node_Runs\<close>, the running system against the abstract node of \<open>Node_Spec\<close>. \<open>Relay_Window\<close>: how
    long a node remembers that it has handled a packet.
  \<^item> \<open>Network\<close>: what a node transmits in answer to a frame, what a frame costs, and relaying along a chain
    of nodes. \<open>Mesh_Runs\<close>: running nodes that hear each other, in the small steps of \<open>Loop_Phases\<close>, over a
    multiset of frames on their way: what is typed causes a bounded traffic.
  \<^item> \<open>Node_Liveness\<close>, \<open>Mesh_Liveness\<close>: on the infinite runs of \<open>Fair_Runs\<close>, a waiting line is transmitted
    and a polled packet handled; composed over a network in which a node receives whatever is transmitted to its end in its reach: a text
    typed on one node is in the end printed by the other.
  \<^item> \<open>Build_Config\<close> (\<open>config/stm32wlxx_hal_conf.h\<close> and the preprocessor's alternatives in all files): the
    target build selects the modelled code; what builds without a part do.

  \<^bold>\<open>The abstract node.\<close> \<open>Node_Spec\<close> states what a node promises without buffers, indices, drivers and
  hardware: a line being edited, a queue of typed bytes, a window of packets seen, a packet counter, the
  text printed and the frames transmitted; its operations are relations, since a transmission can fail.
  \<open>Node_Runs\<close> shows that every run of the program from start-up, interrupted anywhere, is a run of this
  node with the same labels, and from that, for instance, that every frame ever transmitted is accounted for.

  \<^bold>\<open>The hardware.\<close> Most properties hold for any answers of the HAL. Those that say that something is
  transmitted take a transmitter that works (\<open>tx_works\<close> in \<open>Radio_Facts\<close>): it accepts its commands in
  standby, and while the driver polls, it reports neither TX_DONE nor TIMEOUT before the frame's time on
  air, at most the three seconds of the driver's own time-out, and TX_DONE from then on; the clock runs, and
  no call of the poll takes a second (\<open>clock_runs\<close>). They state of such frames that their transmission is
  completed. Those about encryption take \<open>cryp_ok\<close>, those about the
  stored configuration \<open>flash_ok\<close>.

  \<^bold>\<open>Bounds.\<close> No definition has fuel. Loops that may not end (the decoder, counter mode, the poll for the
  end of a transmission, the clock flags, the drained ring) are partial functions whose value \<open>None\<close> is
  not returning, and it is proved when they return. \<open>uint16_t\<close> positions are written out modulo 65536.

  \<^bold>\<open>Not modelled.\<close> The HAL and its interrupt handler for the radio (a git submodule; the driver's
  callbacks are modelled); \<open>SysTick_Handler\<close>, which only advances the HAL's tick, a function of the
  history here; volatile delay loops, which make no HAL call; host scripts, build files and
  the linker script.
\<close>

end
